(* ===== verification/Prelude.thy ===== *)
theory Prelude
  imports Main "HOL-Library.Word"
begin

text \<open>
  Shared vocabulary of the development: the machine integers of the Cortex-M7 target and of the
  host tools, the ways a C function can fail to return a value, and the lemmas on lists, words and
  linked chains that several components use.
\<close>

unbundle bit_operations_syntax

section \<open>Machine types\<close>

type_synonym u8 = "8 word"
type_synonym u16 = "16 word"
type_synonym u32 = "32 word"
type_synonym u64 = "64 word"

text \<open>Addresses and \<^verbatim>\<open>size_t\<close> are 32 bits wide on the i.MX RT1051.\<close>

type_synonym addr = u32

abbreviation (input) NULL :: addr where
  "NULL \<equiv> 0"

section \<open>Ways a C function does not return\<close>

text \<open>
  \<open>Aborted\<close>: \<^verbatim>\<open>abort()\<close> was called; \<open>AssertFailed\<close>: a \<^verbatim>\<open>configASSERT\<close>/\<^verbatim>\<open>assert\<close> was false;
  \<open>OutOfBounds\<close>: an access outside the object it is made through; \<open>NullDeref\<close>: a dereference of
  the null pointer; \<open>Diverged\<close>: a loop that never ends.
\<close>

datatype fault = Aborted | AssertFailed | OutOfBounds | NullDeref | Diverged

type_synonym 'a outcome = "fault + 'a"

fun bind_outcome :: "'a outcome \<Rightarrow> ('a \<Rightarrow> 'b outcome) \<Rightarrow> 'b outcome" where
  "bind_outcome (Inl e) f = Inl e"
| "bind_outcome (Inr x) f = f x"

lemma bind_outcome_Inr_iff:
  "bind_outcome r f = Inr y \<longleftrightarrow> (\<exists>x. r = Inr x \<and> f x = Inr y)"
  by (cases r) auto

definition of_option :: "fault \<Rightarrow> 'a option \<Rightarrow> 'a outcome" where
  "of_option e x = (case x of None \<Rightarrow> Inl e | Some v \<Rightarrow> Inr v)"

lemma of_option_simps [simp]: "of_option e None = Inl e" "of_option e (Some v) = Inr v"
  by (simp_all add: of_option_def)

section \<open>Words\<close>

named_theorems word_nat

lemma unat_add_no_wrap [word_nat]:
  "unat a + unat b < 2 ^ LENGTH('w) \<Longrightarrow> unat (a + b) = unat a + unat (b :: 'w::len word)"
  by (simp add: unat_word_ariths)

lemma unat_sub_no_wrap [word_nat]:
  "unat b \<le> unat a \<Longrightarrow> unat (a - b) = unat a - unat (b :: 'w::len word)"
  by (simp add: unat_sub word_le_nat_alt)

lemma u32_bound: "unat (x :: u32) < 4294967296"
  using unsigned_less [where 'b = 32 and 'a = nat, of x] by simp

lemma unat_add_below [word_nat]:
  "unat a + unat b \<le> unat c \<Longrightarrow> unat (a + b) = unat a + unat b" for a b c :: "'w::len word"
  using unsigned_less [where 'a = nat, of c] by (intro unat_add_no_wrap) (rule le_less_trans)

lemma mask5: "(0x1F :: u32) = mask 5"
  by (simp add: mask_eq_exp_minus_1)

lemma and_mask5: "a AND 0x1F = a mod 32" for a :: u32
  unfolding mask5 by (simp add: take_bit_eq_mask [symmetric] take_bit_eq_mod)

lemma unat_and_mask5 [word_nat]: "unat (a AND 0x1F :: u32) = unat a mod 32"
  by (simp add: and_mask5 unat_mod)

lemma and_mask5_zero_iff: "(a AND 0x1F = 0) = (32 dvd unat a)" for a :: u32
  by (simp add: unat_and_mask5 unat_eq_0 [symmetric] dvd_eq_mod_eq_0)

lemma and_not_eq_minus: "a AND NOT m = a - (a AND m)" for a :: "'w::len word"
proof -
  have "NOT a AND (a AND m) = 0"
    by (simp add: and.assoc [symmetric])
  then have "a - (a AND m) = a AND NOT (a AND m)"
    by (rule disjunctive_diff_eq_and_not)
  also have "\<dots> = a AND NOT m"
    by (rule bit_word_eqI) (auto simp: bit_simps)
  finally show ?thesis by simp
qed

text \<open>The top bit of a 32-bit word, the flag that marks a taken heap block.\<close>

lemma bit31_iff: "bit x 31 = (2 ^ 31 \<le> unat x)" for x :: u32
proof -
  have "bit x 31 = odd (unat x div 2 ^ 31)"
    by (subst bit_iff_odd [of "unat x", symmetric]) (simp only: bit_unsigned_iff, simp)
  moreover have "unat x < 2 ^ 32" using unsigned_less [of x] by simp
  moreover have "odd (n div 2 ^ 31) = (2 ^ 31 \<le> n)" if "n < 2 ^ 32" for n :: nat
  proof -
    have "n div 2 ^ 31 < 2" using that by (simp add: less_mult_imp_div_less)
    moreover have "(n div 2 ^ 31 = 0) = (n < 2 ^ 31)" by (simp add: div_eq_0_iff)
    ultimately have "n div 2 ^ 31 = (if n < 2 ^ 31 then 0 else 1)" by auto
    then show ?thesis by simp
  qed
  ultimately show ?thesis by simp
qed

lemma bit_top: "bit (0x80000000 :: u32) n = (n = 31)"
proof -
  have "bit ((2 :: u32) ^ 31) n = (n = 31)"
    by (simp only: bit_exp_iff) auto
  then show ?thesis by simp
qed

lemma top_bit_clear_iff: "(x AND 0x80000000 = 0) = (unat x < 2 ^ 31)" for x :: u32
proof -
  have "(x AND 0x80000000 = 0) = (\<not> bit x 31)"
    by (simp add: bit_eq_iff [where 'a = "32 word"] bit_and_iff bit_top
             del: bit_numeral_word_iff) (rule iffI; clarsimp; erule allE [where x = 31]; simp)
  then show ?thesis by (simp add: bit31_iff not_le)
qed

lemma or_top_and_top: "(x OR 0x80000000) AND 0x80000000 \<noteq> 0" for x :: u32
  by (auto simp: bit_eq_iff [where 'a = "32 word"] bit_and_iff bit_or_iff bit_top
           simp del: bit_numeral_word_iff)

lemma or_top_clear: "unat x < 2 ^ 31 \<Longrightarrow> (x OR 0x80000000) AND NOT 0x80000000 = x" for x :: u32
proof (rule bit_word_eqI)
  fix n assume x: "unat x < 2 ^ 31" and n: "n < LENGTH(32)"
  have "\<not> bit x 31" using x by (simp add: bit31_iff)
  then show "bit ((x OR 0x80000000) AND NOT 0x80000000) n = bit x n"
    using n by (simp only: bit_and_iff bit_or_iff bit_not_iff bit_top) auto
qed

text \<open>The same with the complement as the simplifier writes it.\<close>

lemma or_top_clear_numeral: "unat x < 2 ^ 31 \<Longrightarrow> (x OR 0x80000000) AND - 2147483649 = x" for x :: u32
  using or_top_clear [of x] by simp

section \<open>Byte memory\<close>

text \<open>
  \<^verbatim>\<open>memcpy\<close> (of two ranges that do not overlap) and \<^verbatim>\<open>memset\<close> on a store of bytes. The offset
  \<open>a - dst\<close> wraps, so it is below \<open>n\<close> exactly for the \<open>n\<close> addresses from \<open>dst\<close> on.
\<close>

type_synonym bytes = "addr \<Rightarrow> u8"

definition memcpy :: "addr \<Rightarrow> addr \<Rightarrow> u32 \<Rightarrow> bytes \<Rightarrow> bytes" where
  "memcpy dst src n m = (\<lambda>a. if a - dst < n then m (src + (a - dst)) else m a)"

definition memset :: "addr \<Rightarrow> u8 \<Rightarrow> u32 \<Rightarrow> bytes \<Rightarrow> bytes" where
  "memset dst v n m = (\<lambda>a. if a - dst < n then v else m a)"

named_theorems byte_memory

lemma of_nat_less_u32: "i < unat n \<Longrightarrow> (of_nat i :: u32) < n"
  using u32_bound [of n] by (simp add: word_less_nat_alt unat_of_nat)

lemma memcpy_inside [byte_memory]:
  "i < unat n \<Longrightarrow> memcpy dst src n m (dst + of_nat i) = m (src + of_nat i)"
  by (simp add: memcpy_def of_nat_less_u32)

lemma memset_inside [byte_memory]: "i < unat n \<Longrightarrow> memset dst v n m (dst + of_nat i) = v"
  by (simp add: memset_def of_nat_less_u32)

lemma unat_offset: "unat a + i < 4294967296 \<Longrightarrow> unat (a + of_nat i) = unat a + i" for a :: u32
  by (subst unat_add_no_wrap) (simp_all add: unat_of_nat)

text \<open>A range \<open>[q, q + k)\<close> apart from \<open>[dst, dst + n)\<close> keeps its bytes.\<close>

lemma outside_range:
  assumes "unat dst + unat n \<le> 4294967296" "unat q + k \<le> 4294967296" "i < k"
    and "unat q + k \<le> unat dst \<or> unat dst + unat n \<le> unat q"
  shows "\<not> q + of_nat i - dst < (n :: u32)"
proof -
  have q: "unat (q + of_nat i) = unat q + i"
    using assms(2,3) by (intro unat_offset) simp
  have "unat (q + of_nat i - dst) =
      (if unat dst \<le> unat q + i then unat q + i - unat dst else unat q + i + 4294967296 - unat dst)"
    unfolding unat_sub_if' word_le_nat_alt q by simp
  then show ?thesis
    using assms by (auto simp: word_less_nat_alt)
qed

lemma memcpy_outside [byte_memory]:
  assumes "unat dst + unat n \<le> 4294967296" "unat q + k \<le> 4294967296" "i < k"
    and "unat q + k \<le> unat dst \<or> unat dst + unat n \<le> unat q"
  shows "memcpy dst src n m (q + of_nat i) = m (q + of_nat i)"
  using outside_range [OF assms] by (simp add: memcpy_def)

lemma memset_outside [byte_memory]:
  assumes "unat dst + unat n \<le> 4294967296" "unat q + k \<le> 4294967296" "i < k"
    and "unat q + k \<le> unat dst \<or> unat dst + unat n \<le> unat q"
  shows "memset dst v n m (q + of_nat i) = m (q + of_nat i)"
  using outside_range [OF assms] by (simp add: memset_def)

end
