(* ===== verification/UserMem.thy ===== *)
theory UserMem
  imports Prelude
begin

text \<open>
  The user-space allocator of \<^verbatim>\<open>src/module-os/memory/usermem.c\<close>: a first-fit allocator over one
  static array, with a header in front of every block, an address-ordered list of free blocks and
  coalescing on release. The build options are those of
  \<^verbatim>\<open>src/module-bsp/board/rt1051/os/include/FreeRTOSConfig.h\<close>: integrity stamps on, per-block
  statistics on, extended statistics and \<^verbatim>\<open>DEBUG_HEAP_ALLOCATIONS\<close> off, malloc-failed hook on.

  Memory is a store of block headers indexed by address and a store of payload bytes; the bytes a
  header occupies are not visible through the byte store. The scheduler calls
  (\<^verbatim>\<open>vTaskSuspendAll\<close>, \<^verbatim>\<open>xTaskResumeAll\<close>) make every operation atomic, so an operation is a
  function from state to state.
\<close>

section \<open>Data\<close>

record block_link =
  ulStamp :: u32
  pxNextFreeBlock :: addr
  xBlockSize :: u32
  xAllocatingTask :: u32
  xTimeAllocated :: u32

definition usermemBYTE_ALIGNMENT :: u32 where
  "usermemBYTE_ALIGNMENT = 32"

definition usermemBYTE_ALIGNMENT_MASK :: u32 where
  "usermemBYTE_ALIGNMENT_MASK = 0x1F"

definition INTEGRITY_STAMP_TAKEN :: u32 where
  "INTEGRITY_STAMP_TAKEN = 33333"

definition INTEGRITY_STAMP_FREE :: u32 where
  "INTEGRITY_STAMP_FREE = 11111"

text \<open>Five 32-bit members.\<close>

definition sizeof_BlockLink_t :: u32 where
  "sizeof_BlockLink_t = 20"

definition xHeapStructSize :: u32 where
  "xHeapStructSize =
     (sizeof_BlockLink_t + (usermemBYTE_ALIGNMENT - 1)) AND NOT usermemBYTE_ALIGNMENT_MASK"

definition heapMINIMUM_BLOCK_SIZE :: u32 where
  "heapMINIMUM_BLOCK_SIZE = push_bit 1 xHeapStructSize"

text \<open>What the linker and the build choose: the array, its size, the address of \<^verbatim>\<open>xUserStart\<close>.\<close>

record heap_layout =
  userUcHeap :: addr
  USERMEM_TOTAL_HEAP_SIZE :: u32
  addr_xUserStart :: addr

text \<open>The file's static variables, with the memory they point into.\<close>

record usermem =
  links :: "addr \<Rightarrow> block_link"
  payload :: "addr \<Rightarrow> u8"
  pxUserEnd :: addr
  xUserFreeBytesRemaining :: u32
  xUserMinimumEverFreeBytesRemaining :: u32
  xAllocationsCount :: u32
  xDeallocationsCount :: u32
  xAllocatedMin :: u32
  xAllocatedMax :: u32
  xAllocatedSum :: u32
  xBlockAllocatedBit :: u32

text \<open>What a call reads from the kernel: interrupt context, current task, tick count.\<close>

record kernel_view =
  isIRQ :: bool
  xTaskGetCurrentTaskHandle :: u32
  xTaskGetTickCount :: u32

definition set_next :: "(addr \<Rightarrow> block_link) \<Rightarrow> addr \<Rightarrow> addr \<Rightarrow> (addr \<Rightarrow> block_link)" where
  "set_next h p v = h(p := (h p)\<lparr>pxNextFreeBlock := v\<rparr>)"

definition set_size :: "(addr \<Rightarrow> block_link) \<Rightarrow> addr \<Rightarrow> u32 \<Rightarrow> (addr \<Rightarrow> block_link)" where
  "set_size h p v = h(p := (h p)\<lparr>xBlockSize := v\<rparr>)"

definition set_stamp :: "(addr \<Rightarrow> block_link) \<Rightarrow> addr \<Rightarrow> u32 \<Rightarrow> (addr \<Rightarrow> block_link)" where
  "set_stamp h p v = h(p := (h p)\<lparr>ulStamp := v\<rparr>)"

section \<open>Operations\<close>

text \<open>
  The pointer loops have no syntactic bound, so they are partial: \<open>None\<close> is a walk that never ends.
\<close>

partial_function (option) find_insert_pos :: "(addr \<Rightarrow> block_link) \<Rightarrow> addr \<Rightarrow> addr \<Rightarrow> addr option" where
  "find_insert_pos h it blk =
     (if pxNextFreeBlock (h it) < blk then find_insert_pos h (pxNextFreeBlock (h it)) blk
      else Some it)"

partial_function (option) find_first_fit ::
  "(addr \<Rightarrow> block_link) \<Rightarrow> addr \<Rightarrow> addr \<Rightarrow> u32 \<Rightarrow> (addr \<times> addr) option" where
  "find_first_fit h prev blk wanted =
     (if xBlockSize (h blk) < wanted \<and> pxNextFreeBlock (h blk) \<noteq> NULL
      then find_first_fit h blk (pxNextFreeBlock (h blk)) wanted
      else Some (prev, blk))"

declare find_insert_pos.simps [code] find_first_fit.simps [code]

text \<open>
  The body of \<open>prvInsertBlockIntoFreeList\<close> after its search loop has stopped at \<open>it\<close>: the merge
  with the block in front (which makes that block the one being inserted), the merge with the block
  behind, and the link from the iterator.
\<close>

definition merge_with_previous ::
  "addr \<Rightarrow> addr \<Rightarrow> (addr \<Rightarrow> block_link) \<Rightarrow> (addr \<Rightarrow> block_link) \<times> addr" where
  "merge_with_previous it blk h =
     (if it + xBlockSize (h it) = blk
      then (set_size h it (xBlockSize (h it) + xBlockSize (h blk)), it)
      else (h, blk))"

definition merge_with_next ::
  "addr \<Rightarrow> addr \<Rightarrow> addr \<Rightarrow> (addr \<Rightarrow> block_link) \<Rightarrow> (addr \<Rightarrow> block_link)" where
  "merge_with_next end it blk h =
     (if blk + xBlockSize (h blk) = pxNextFreeBlock (h it)
      then (if pxNextFreeBlock (h it) \<noteq> end
            then set_next
                   (set_size h blk (xBlockSize (h blk) + xBlockSize (h (pxNextFreeBlock (h it)))))
                   blk (pxNextFreeBlock (h (pxNextFreeBlock (h it))))
            else set_next h blk end)
      else set_next h blk (pxNextFreeBlock (h it)))"

definition link_block :: "addr \<Rightarrow> addr \<Rightarrow> addr \<Rightarrow> (addr \<Rightarrow> block_link) \<Rightarrow> (addr \<Rightarrow> block_link)" where
  "link_block end it blk h =
     (case merge_with_previous it blk h of
        (h1, ins) \<Rightarrow>
          (if it \<noteq> ins then set_next (merge_with_next end it ins h1) it ins
           else merge_with_next end it ins h1))"

definition prvInsertBlockIntoFreeList ::
  "addr \<Rightarrow> addr \<Rightarrow> addr \<Rightarrow> (addr \<Rightarrow> block_link) \<Rightarrow> (addr \<Rightarrow> block_link) outcome" where
  "prvInsertBlockIntoFreeList start end blk h =
     (case find_insert_pos h start blk of
        None \<Rightarrow> Inl Diverged
      | Some it \<Rightarrow> Inr (link_block end it blk h))"

definition prvHeapInit :: "heap_layout \<Rightarrow> usermem \<Rightarrow> usermem" where
  "prvHeapInit lay st =
     (let misaligned = userUcHeap lay AND usermemBYTE_ALIGNMENT_MASK \<noteq> 0;
          pucAlignedHeap =
            (if misaligned
             then (userUcHeap lay + (usermemBYTE_ALIGNMENT - 1)) AND NOT usermemBYTE_ALIGNMENT_MASK
             else userUcHeap lay);
          xTotalHeapSize =
            (if misaligned
             then USERMEM_TOTAL_HEAP_SIZE lay - (pucAlignedHeap - userUcHeap lay)
             else USERMEM_TOTAL_HEAP_SIZE lay);
          start = addr_xUserStart lay;
          h0 = links st;
          h1 = h0(start := (h0 start)\<lparr>pxNextFreeBlock := pucAlignedHeap, xBlockSize := 0,
                                      xTimeAllocated := 0, xAllocatingTask := 0\<rparr>);
          uxAddress =
            (pucAlignedHeap + xTotalHeapSize - xHeapStructSize) AND NOT usermemBYTE_ALIGNMENT_MASK;
          h2 = h1(uxAddress := (h1 uxAddress)\<lparr>xBlockSize := 0, pxNextFreeBlock := NULL,
                                              xTimeAllocated := 0, xAllocatingTask := 0\<rparr>);
          firstSize = uxAddress - pucAlignedHeap;
          h3 = h2(pucAlignedHeap := (h2 pucAlignedHeap)\<lparr>xBlockSize := firstSize,
                    pxNextFreeBlock := uxAddress, ulStamp := INTEGRITY_STAMP_FREE\<rparr>)
      in st\<lparr>links := h3, pxUserEnd := uxAddress,
            xUserMinimumEverFreeBytesRemaining := xBlockSize (h3 pucAlignedHeap),
            xUserFreeBytesRemaining := xBlockSize (h3 pucAlignedHeap),
            xBlockAllocatedBit := push_bit 31 1\<rparr>)"

text \<open>The size actually carved out for a request: header added, rounded up to the alignment.\<close>

definition adjusted_size :: "u32 \<Rightarrow> u32" where
  "adjusted_size xWantedSize =
     (if xWantedSize > 0
      then (let w = xWantedSize + xHeapStructSize
            in if w AND usermemBYTE_ALIGNMENT_MASK \<noteq> 0
               then w + (usermemBYTE_ALIGNMENT - (w AND usermemBYTE_ALIGNMENT_MASK)) else w)
      else xWantedSize)"

text \<open>
  The block found by the search is unlinked, split when the rest is large enough, accounted and
  marked as taken.
\<close>

definition take_block ::
  "heap_layout \<Rightarrow> kernel_view \<Rightarrow> usermem \<Rightarrow> u32 \<Rightarrow> addr \<Rightarrow> addr \<Rightarrow> (addr \<times> usermem) outcome" where
  "take_block lay kv st w prev blk =
     (let pvReturn = pxNextFreeBlock (links st prev) + xHeapStructSize;
          h1 = set_next (links st) prev (pxNextFreeBlock (links st blk));
          split_result =
            (if xBlockSize (h1 blk) - w > heapMINIMUM_BLOCK_SIZE
             then (let new = blk + w
                   in if new AND usermemBYTE_ALIGNMENT_MASK \<noteq> 0 then Inl AssertFailed
                      else prvInsertBlockIntoFreeList (addr_xUserStart lay) (pxUserEnd st) new
                             (set_size (set_stamp (set_size h1 new (xBlockSize (h1 blk) - w)) new
                                          INTEGRITY_STAMP_FREE) blk w))
             else Inr h1)
      in bind_outcome split_result (\<lambda>h2.
           let free = xUserFreeBytesRemaining st - xBlockSize (h2 blk);
               least = (if free < xUserMinimumEverFreeBytesRemaining st then free
                        else xUserMinimumEverFreeBytesRemaining st);
               h3 = h2(blk := (h2 blk)\<lparr>xBlockSize := xBlockSize (h2 blk) OR xBlockAllocatedBit st,
                                       xAllocatingTask := xTaskGetCurrentTaskHandle kv,
                                       xTimeAllocated := xTaskGetTickCount kv\<rparr>)
           in if ulStamp (h3 blk) \<noteq> INTEGRITY_STAMP_FREE then Inl AssertFailed
              else Inr (pvReturn,
                        st\<lparr>links := h3(blk := (h3 blk)\<lparr>ulStamp := INTEGRITY_STAMP_TAKEN,
                                                       pxNextFreeBlock := NULL\<rparr>),
                           xUserFreeBytesRemaining := free,
                           xUserMinimumEverFreeBytesRemaining := least\<rparr>)))"

text \<open>The allocation proper, between suspending and resuming the scheduler.\<close>

definition usermalloc_locked ::
  "heap_layout \<Rightarrow> kernel_view \<Rightarrow> u32 \<Rightarrow> usermem \<Rightarrow> (addr \<times> usermem) outcome" where
  "usermalloc_locked lay kv xWantedSize st0 =
     (let st = (if pxUserEnd st0 = NULL then prvHeapInit lay st0 else st0)
      in if xWantedSize AND xBlockAllocatedBit st = 0
         then (let w = adjusted_size xWantedSize
               in if w AND usermemBYTE_ALIGNMENT_MASK \<noteq> 0 then Inl AssertFailed
                  else if w > 0 \<and> w \<le> xUserFreeBytesRemaining st
                  then (case find_first_fit (links st) (addr_xUserStart lay)
                               (pxNextFreeBlock (links st (addr_xUserStart lay))) w of
                          None \<Rightarrow> Inl Diverged
                        | Some (prev, blk) \<Rightarrow>
                            if blk \<noteq> pxUserEnd st then take_block lay kv st w prev blk
                            else Inr (NULL, st))
                  else Inr (NULL, st))
         else Inr (NULL, st))"

text \<open>
  \<open>usermalloc\<close>: refused in an interrupt; a failed allocation runs \<^verbatim>\<open>vApplicationMallocFailedHook\<close>,
  which \<^verbatim>\<open>src/module-os/application.c\<close> defines as \<^verbatim>\<open>abort()\<close>.
\<close>

definition vApplicationMallocFailedHook :: "'a outcome" where
  "vApplicationMallocFailedHook = Inl Aborted"

definition usermalloc ::
  "heap_layout \<Rightarrow> kernel_view \<Rightarrow> u32 \<Rightarrow> usermem \<Rightarrow> (addr \<times> usermem) outcome" where
  "usermalloc lay kv xWantedSize st =
     (if isIRQ kv then Inl Aborted
      else bind_outcome (usermalloc_locked lay kv xWantedSize st) (\<lambda>(pvReturn, st').
             if pvReturn = NULL then vApplicationMallocFailedHook
             else if pvReturn AND usermemBYTE_ALIGNMENT_MASK \<noteq> 0 then Inl AssertFailed
             else Inr (pvReturn, st')))"

definition userfree :: "heap_layout \<Rightarrow> kernel_view \<Rightarrow> addr \<Rightarrow> usermem \<Rightarrow> usermem outcome" where
  "userfree lay kv pv st =
     (if isIRQ kv then Inl Aborted
      else if pv = NULL then Inr st
      else (let pxLink = pv - xHeapStructSize; h = links st
            in if xBlockSize (h pxLink) AND xBlockAllocatedBit st = 0 then Inl AssertFailed
               else if pxNextFreeBlock (h pxLink) \<noteq> NULL then Inl AssertFailed
               else if ulStamp (h pxLink) \<noteq> INTEGRITY_STAMP_TAKEN then Inl AssertFailed
               else (let h1 = set_stamp h pxLink INTEGRITY_STAMP_FREE;
                         h2 = set_size h1 pxLink (xBlockSize (h1 pxLink) AND NOT (xBlockAllocatedBit st))
                     in bind_outcome
                          (prvInsertBlockIntoFreeList (addr_xUserStart lay) (pxUserEnd st) pxLink h2)
                          (\<lambda>h3. Inr (st\<lparr>links := h3,
                                  xUserFreeBytesRemaining :=
                                    xUserFreeBytesRemaining st + xBlockSize (h2 pxLink)\<rparr>)))))"

definition userrealloc ::
  "heap_layout \<Rightarrow> kernel_view \<Rightarrow> addr \<Rightarrow> u32 \<Rightarrow> usermem \<Rightarrow> (addr \<times> usermem) outcome" where
  "userrealloc lay kv pv xWantedSize st =
     (if pv \<noteq> NULL
      then (let pxLink = pv - xHeapStructSize; h = links st
            in if xBlockSize (h pxLink) AND xBlockAllocatedBit st = 0 then Inl AssertFailed
               else if pxNextFreeBlock (h pxLink) \<noteq> NULL then Inl AssertFailed
               else (let curSize = xBlockSize (h pxLink) AND NOT (xBlockAllocatedBit st)
                     in if curSize \<ge> xWantedSize then Inr (pv, st)
                        else bind_outcome (usermalloc lay kv xWantedSize st) (\<lambda>(new, st1).
                               if new = NULL then Inr (NULL, st1)
                               else bind_outcome
                                      (userfree lay kv pv
                                         (st1\<lparr>payload := memcpy new pv curSize (payload st1)\<rparr>))
                                      (\<lambda>st2. Inr (new, st2)))))
      else usermalloc lay kv xWantedSize st)"

definition usermemGetFreeHeapSize :: "usermem \<Rightarrow> u32" where
  "usermemGetFreeHeapSize st = xUserFreeBytesRemaining st"

definition usermemGetMinimumEverFreeHeapSize :: "usermem \<Rightarrow> u32" where
  "usermemGetMinimumEverFreeHeapSize st = xUserMinimumEverFreeBytesRemaining st"

definition usermemResetStatistics :: "usermem \<Rightarrow> usermem" where
  "usermemResetStatistics st =
     st\<lparr>xAllocationsCount := 0, xDeallocationsCount := 0, xAllocatedMin := - 1,
        xAllocatedMax := 0, xAllocatedSum := 0\<rparr>"

definition usermemGetAllocationsCount :: "usermem \<Rightarrow> u32" where
  "usermemGetAllocationsCount st = xAllocationsCount st"

definition usermemGetDeallocationsCount :: "usermem \<Rightarrow> u32" where
  "usermemGetDeallocationsCount st = xDeallocationsCount st"

definition usermemGetAllocatedMin :: "usermem \<Rightarrow> u32" where
  "usermemGetAllocatedMin st = xAllocatedMin st"

definition usermemGetAllocatedMax :: "usermem \<Rightarrow> u32" where
  "usermemGetAllocatedMax st = xAllocatedMax st"

definition usermemGetAllocatedSum :: "usermem \<Rightarrow> u32" where
  "usermemGetAllocatedSum st = xAllocatedSum st"

end
