(* ===== verification/FreeList.thy ===== *)
theory FreeList
  imports UserMem
begin

text \<open>
  The address-ordered free list of the user allocator. \<open>free_chain\<close> reads the list off the block
  headers; \<open>insert_free\<close> is what inserting a block with coalescing means on that list. The main
  result is that the pointer code of \<open>prvInsertBlockIntoFreeList\<close> ends and implements \<open>insert_free\<close>.
\<close>

section \<open>The list behind the pointers\<close>

type_synonym chunk = "addr \<times> u32"

primrec free_chain :: "(addr \<Rightarrow> block_link) \<Rightarrow> addr \<Rightarrow> chunk list \<Rightarrow> addr \<Rightarrow> bool" where
  "free_chain h p [] e \<longleftrightarrow> p = e"
| "free_chain h p (b # bs) e \<longleftrightarrow>
     p = fst b \<and> xBlockSize (h p) = snd b \<and> free_chain h (pxNextFreeBlock (h p)) bs e"

lemma free_chain_cong:
  assumes "\<And>b. b \<in> set bs \<Longrightarrow> pxNextFreeBlock (h' (fst b)) = pxNextFreeBlock (h (fst b))
                              \<and> xBlockSize (h' (fst b)) = xBlockSize (h (fst b))"
  shows "free_chain h' p bs e = free_chain h p bs e"
  using assms
proof (induction bs arbitrary: p)
  case (Cons b bs)
  have "free_chain h' q bs e = free_chain h q bs e" for q
    using Cons.prems by (intro Cons.IH) simp
  moreover have "pxNextFreeBlock (h' (fst b)) = pxNextFreeBlock (h (fst b))"
    "xBlockSize (h' (fst b)) = xBlockSize (h (fst b))"
    using Cons.prems [of b] by simp_all
  ultimately show ?case by (cases "p = fst b") simp_all
qed simp

lemma free_chain_append:
  "free_chain h p (as @ bs) e \<longleftrightarrow> (\<exists>q. free_chain h p as q \<and> free_chain h q bs e)"
  by (induction as arbitrary: p) auto

text \<open>Non-empty chunks in address order that do not overlap and end at or below \<open>e\<close>.\<close>

primrec spread :: "chunk list \<Rightarrow> addr \<Rightarrow> bool" where
  "spread [] e \<longleftrightarrow> True"
| "spread (b # bs) e \<longleftrightarrow>
     0 < unat (snd b) \<and> unat (fst b) + unat (snd b) \<le> unat e \<and>
     (\<forall>c\<in>set bs. unat (fst b) + unat (snd b) \<le> unat (fst c)) \<and> spread bs e"

lemma spread_below_end: "spread bs e \<Longrightarrow> b \<in> set bs \<Longrightarrow> fst b < e"
  by (induction bs) (auto simp: word_less_nat_alt)

lemma spread_Cons_less: "spread (b # bs) e \<Longrightarrow> c \<in> set bs \<Longrightarrow> fst b < fst c"
  by (auto simp: word_less_nat_alt)

lemma spread_Cons_end_below:
  assumes "spread (b # bs) e" "c \<in> set bs"
  shows "fst b + snd b \<le> fst c"
proof -
  have le: "unat (fst b) + unat (snd b) \<le> unat (fst c)" using assms by auto
  then have "unat (fst b + snd b) = unat (fst b) + unat (snd b)"
    by (rule unat_add_below)
  with le show ?thesis by (simp add: word_le_nat_alt)
qed

section \<open>Insertion with coalescing\<close>

fun merge_next :: "chunk \<Rightarrow> chunk list \<Rightarrow> chunk list" where
  "merge_next b [] = [b]"
| "merge_next (a, s) ((a', s') # bs) =
     (if a + s = a' then (a, s + s') # bs else (a, s) # (a', s') # bs)"

fun insert_free :: "chunk \<Rightarrow> chunk list \<Rightarrow> chunk list" where
  "insert_free b [] = [b]"
| "insert_free (a, s) ((a', s') # bs) =
     (if a' < a
      then (if a' + s' = a then merge_next (a', s' + s) bs else (a', s') # insert_free (a, s) bs)
      else merge_next (a, s) ((a', s') # bs))"

section \<open>The pointer code implements it\<close>

text \<open>Reading a header back after one of its members was written.\<close>

lemma set_next_sel [simp]:
  "pxNextFreeBlock (set_next h p v x) = (if x = p then v else pxNextFreeBlock (h x))"
  "xBlockSize (set_next h p v x) = xBlockSize (h x)"
  "ulStamp (set_next h p v x) = ulStamp (h x)"
  by (simp_all add: set_next_def)

lemma set_size_sel [simp]:
  "pxNextFreeBlock (set_size h p v x) = pxNextFreeBlock (h x)"
  "xBlockSize (set_size h p v x) = (if x = p then v else xBlockSize (h x))"
  "ulStamp (set_size h p v x) = ulStamp (h x)"
  by (simp_all add: set_size_def)

lemma set_stamp_sel [simp]:
  "pxNextFreeBlock (set_stamp h p v x) = pxNextFreeBlock (h x)"
  "xBlockSize (set_stamp h p v x) = xBlockSize (h x)"
  "ulStamp (set_stamp h p v x) = (if x = p then v else ulStamp (h x))"
  by (simp_all add: set_stamp_def)

lemma set_other [simp]:
  "x \<noteq> p \<Longrightarrow> set_next h p v x = h x"
  "x \<noteq> p \<Longrightarrow> set_size h p w x = h x"
  "x \<noteq> p \<Longrightarrow> set_stamp h p w x = h x"
  by (simp_all add: set_next_def set_size_def set_stamp_def)

lemmas link_block_defs = link_block_def merge_with_previous_def merge_with_next_def

lemma link_block_frame:
  assumes "x \<noteq> it" "x \<noteq> blk"
  shows "link_block e it blk h x = h x"
  using assms by (simp add: link_block_defs)

lemma link_block_stamp: "ulStamp (link_block e it blk h x) = ulStamp (h x)"
  by (simp add: link_block_defs)

text \<open>One block in front of a chain: what \<open>merge_with_next\<close> does to it.\<close>

lemma merge_with_next_chain:
  assumes chain: "free_chain h (pxNextFreeBlock (h it)) bs e"
    and bs: "\<forall>b\<in>set bs. fst b \<noteq> blk \<and> fst b \<noteq> e"
  shows "free_chain (merge_with_next e it blk h) blk (merge_next (blk, xBlockSize (h blk)) bs) e"
proof (cases bs)
  case Nil
  with chain show ?thesis
    by (simp add: merge_with_next_def)
next
  case (Cons n ns)
  obtain a t where n: "n = (a, t)" by force
  have a: "pxNextFreeBlock (h it) = a" "xBlockSize (h a) = t" "a \<noteq> blk" "a \<noteq> e"
    and ns: "free_chain h (pxNextFreeBlock (h a)) ns e"
    using chain bs Cons n by auto
  have "free_chain (merge_with_next e it blk h) p ns e = free_chain h p ns e" for p
    using bs Cons by (intro free_chain_cong) (auto simp: merge_with_next_def)
  with a ns show ?thesis
    by (simp add: Cons n) (simp add: merge_with_next_def)
qed

text \<open>Linking behind a predecessor that is itself a free block.\<close>

lemma link_block_after:
  assumes chain: "free_chain h it ((it, s) # bs) e"
    and bs: "\<forall>b\<in>set bs. fst b \<noteq> it \<and> fst b \<noteq> blk \<and> fst b \<noteq> e"
    and blk: "blk \<noteq> it"
  shows "free_chain (link_block e it blk h) it
           (if it + s = blk then merge_next (it, s + xBlockSize (h blk)) bs
            else (it, s) # merge_next (blk, xBlockSize (h blk)) bs) e"
proof (cases "it + s = blk")
  case True
  define h1 where "h1 = set_size h it (s + xBlockSize (h blk))"
  have "link_block e it blk h = merge_with_next e it it h1"
    using chain True by (simp add: link_block_def merge_with_previous_def h1_def)
  moreover have "free_chain h1 (pxNextFreeBlock (h1 it)) bs e = free_chain h (pxNextFreeBlock (h it)) bs e"
    by (simp add: h1_def) (rule free_chain_cong, use bs in auto)
  ultimately show ?thesis
    using merge_with_next_chain [of h1 it bs e it] chain bs True by (simp add: h1_def)
next
  case False
  have eq: "link_block e it blk h = set_next (merge_with_next e it blk h) it blk"
    using chain False blk by (simp add: link_block_def merge_with_previous_def)
  have "free_chain (set_next (merge_with_next e it blk h) it blk) blk
          (merge_next (blk, xBlockSize (h blk)) bs) e
        = free_chain (merge_with_next e it blk h) blk (merge_next (blk, xBlockSize (h blk)) bs) e"
    using bs blk by (intro free_chain_cong) (cases bs; auto split: if_splits)+
  with merge_with_next_chain [of h it bs e blk] chain bs
  have "free_chain (link_block e it blk h) blk (merge_next (blk, xBlockSize (h blk)) bs) e"
    by (simp add: eq)
  moreover have "xBlockSize (link_block e it blk h it) = s"
    using chain False blk by (simp add: link_block_defs)
  ultimately show ?thesis
    using False by (simp add: eq)
qed

text \<open>The search, started at a free block below the one to insert.\<close>

lemma insert_after_chain:
  assumes "free_chain h it ((it, s) # bs) e"
    and "spread ((it, s) # bs) e"
    and "it < blk" "blk < e" "blk \<notin> set (map fst bs)"
  shows "\<exists>it'. find_insert_pos h it blk = Some it' \<and> it' \<in> set (it # map fst bs) \<and>
           free_chain (link_block e it' blk h) it (insert_free (blk, xBlockSize (h blk)) ((it, s) # bs)) e"
  using assms
proof (induction bs arbitrary: it s)
  case Nil
  then have "find_insert_pos h it blk = Some it"
    by (subst find_insert_pos.simps) (auto simp: not_less)
  moreover have "free_chain (link_block e it blk h) it
      (if it + s = blk then merge_next (it, s + xBlockSize (h blk)) []
       else (it, s) # merge_next (blk, xBlockSize (h blk)) []) e"
    using Nil by (intro link_block_after) auto
  ultimately show ?case using Nil.prems(3) by (cases "it + s = blk") auto
next
  case (Cons b bs)
  obtain n t where b: "b = (n, t)" by force
  have nxt: "pxNextFreeBlock (h it) = n" and tail: "free_chain h n ((n, t) # bs) e"
    using Cons.prems(1) b by auto
  have order: "it < n" "\<forall>x\<in>set bs. it < fst x" "it + s \<le> n"
    using spread_Cons_less [OF Cons.prems(2)] spread_Cons_end_below [OF Cons.prems(2)] b by force+
  have sp: "spread ((n, t) # bs) e" and below: "\<forall>x\<in>set (b # bs). fst x < e"
    using Cons.prems(2) b spread_below_end [of "b # bs" e] by auto
  show ?case
  proof (cases "n < blk")
    case True
    have "\<exists>it'. find_insert_pos h n blk = Some it' \<and> it' \<in> set (n # map fst bs) \<and>
           free_chain (link_block e it' blk h) n (insert_free (blk, xBlockSize (h blk)) ((n, t) # bs)) e"
      using Cons.IH [OF tail sp True] Cons.prems by auto
    then obtain it' where it': "find_insert_pos h n blk = Some it'" "it' \<in> set (n # map fst bs)"
      and ch: "free_chain (link_block e it' blk h) n (insert_free (blk, xBlockSize (h blk)) ((n, t) # bs)) e"
      by blast
    have "it' \<noteq> it" using it'(2) order by auto
    then have "link_block e it' blk h it = h it"
      using Cons.prems by (intro link_block_frame) auto
    moreover have "it + s \<noteq> blk"
      using order(3) True by auto
    ultimately show ?thesis
      using it' ch Cons.prems nxt b True
      by (intro exI [of _ it']) (simp add: find_insert_pos.simps [of h it])
  next
    case False
    then have "find_insert_pos h it blk = Some it"
      using nxt by (subst find_insert_pos.simps) simp
    moreover have "free_chain (link_block e it blk h) it
        (if it + s = blk then merge_next (it, s + xBlockSize (h blk)) (b # bs)
         else (it, s) # merge_next (blk, xBlockSize (h blk)) (b # bs)) e"
      using Cons.prems order below b by (intro link_block_after) auto
    ultimately show ?thesis
      using Cons.prems(3) b False by (cases "it + s = blk") auto
  qed
qed

text \<open>Linking directly behind the list head, whose size is zero.\<close>

lemma fst_merge_next: "x \<in> set (merge_next b bs) \<Longrightarrow> fst x = fst b \<or> (\<exists>c\<in>set bs. fst x = fst c)"
  by (cases "(b, bs)" rule: merge_next.cases) (auto split: if_splits)

lemma link_block_head:
  assumes chain: "free_chain h (pxNextFreeBlock (h start)) bs e"
    and bs: "\<forall>b\<in>set bs. fst b \<noteq> start \<and> fst b \<noteq> blk \<and> fst b \<noteq> e"
    and start: "start \<noteq> blk" "xBlockSize (h start) = 0"
  shows "pxNextFreeBlock (link_block e start blk h start) = blk"
    and "free_chain (link_block e start blk h) blk (merge_next (blk, xBlockSize (h blk)) bs) e"
proof -
  have eq: "link_block e start blk h = set_next (merge_with_next e start blk h) start blk"
    using start by (simp add: link_block_def merge_with_previous_def)
  then show "pxNextFreeBlock (link_block e start blk h start) = blk" by simp
  have "fst x \<noteq> start" if "x \<in> set (merge_next (blk, xBlockSize (h blk)) bs)" for x
    using fst_merge_next [OF that] bs start(1) by auto
  then have "free_chain (set_next (merge_with_next e start blk h) start blk) blk
          (merge_next (blk, xBlockSize (h blk)) bs) e
        = free_chain (merge_with_next e start blk h) blk (merge_next (blk, xBlockSize (h blk)) bs) e"
    by (intro free_chain_cong) simp
  with merge_with_next_chain [of h start bs e blk] chain bs eq
  show "free_chain (link_block e start blk h) blk (merge_next (blk, xBlockSize (h blk)) bs) e"
    by simp
qed

lemma insert_free_front:
  "\<forall>b\<in>set bs. \<not> fst b < blk \<Longrightarrow> insert_free (blk, s) bs = merge_next (blk, s) bs"
  by (cases bs) auto

lemma insert_search:
  assumes chain: "free_chain h (pxNextFreeBlock (h start)) bs e"
    and sp: "spread bs e"
    and start: "start \<notin> fst ` set bs" "start \<noteq> blk" "xBlockSize (h start) = 0"
    and blk: "blk < e" "blk \<notin> fst ` set bs"
  shows "\<exists>it. find_insert_pos h start blk = Some it \<and> it \<in> insert start (fst ` set bs) \<and>
      free_chain (link_block e it blk h) (pxNextFreeBlock (link_block e it blk h start))
        (insert_free (blk, xBlockSize (h blk)) bs) e"
proof (cases "\<exists>n s bs'. bs = (n, s) # bs' \<and> n < blk")
  case True
  then obtain n s bs' where bs: "bs = (n, s) # bs'" and n: "n < blk" by blast
  have nxt: "pxNextFreeBlock (h start) = n" and tail: "free_chain h n ((n, s) # bs') e"
    using chain bs by auto
  have "\<exists>it. find_insert_pos h n blk = Some it \<and> it \<in> set (n # map fst bs') \<and>
          free_chain (link_block e it blk h) n (insert_free (blk, xBlockSize (h blk)) bs) e"
    using insert_after_chain [OF tail] sp n blk bs by auto
  then obtain it where it: "find_insert_pos h n blk = Some it" "it \<in> set (n # map fst bs')"
    and ch: "free_chain (link_block e it blk h) n (insert_free (blk, xBlockSize (h blk)) bs) e"
    by blast
  have "it \<noteq> start" using it(2) start bs by auto
  then have "link_block e it blk h start = h start"
    using start by (intro link_block_frame) auto
  then show ?thesis
    using it ch nxt n bs by (intro exI [of _ it]) (auto simp: find_insert_pos.simps [of h start])
next
  case False
  have ge: "\<forall>b\<in>set bs. \<not> fst b < blk"
  proof (cases bs)
    case (Cons b bs')
    then have "\<not> fst b < blk" using False by (cases b) auto
    moreover have "\<forall>c\<in>set bs'. fst b < fst c" using sp Cons spread_Cons_less by blast
    ultimately show ?thesis using Cons by fastforce
  qed simp
  have "\<not> pxNextFreeBlock (h start) < blk"
    using chain ge blk by (cases bs) (auto simp: not_less)
  then have "find_insert_pos h start blk = Some start"
    by (subst find_insert_pos.simps) simp
  moreover have "\<forall>b\<in>set bs. fst b \<noteq> start \<and> fst b \<noteq> blk \<and> fst b \<noteq> e"
    using start blk spread_below_end [OF sp] by force
  ultimately show ?thesis
    using link_block_head [OF chain _ start(2,3)] by (simp add: insert_free_front [OF ge])
qed

text \<open>
  The insertion as the allocator calls it, from the static list head: it ends, only touches the
  head, free blocks and the inserted block, keeps every stamp, and yields \<open>insert_free\<close>.
\<close>

lemma prvInsertBlockIntoFreeList_chain:
  assumes chain: "free_chain h (pxNextFreeBlock (h start)) bs e"
    and sp: "spread bs e"
    and start: "start \<notin> fst ` set bs" "start \<noteq> blk" "xBlockSize (h start) = 0"
    and blk: "blk < e" "blk \<notin> fst ` set bs"
  obtains h' where "prvInsertBlockIntoFreeList start e blk h = Inr h'"
    and "free_chain h' (pxNextFreeBlock (h' start)) (insert_free (blk, xBlockSize (h blk)) bs) e"
    and "xBlockSize (h' start) = 0"
    and "\<And>x. ulStamp (h' x) = ulStamp (h x)"
    and "\<And>x. x \<notin> fst ` set bs \<Longrightarrow> x \<noteq> start \<Longrightarrow> x \<noteq> blk \<Longrightarrow> h' x = h x"
proof -
  obtain it where it: "find_insert_pos h start blk = Some it" "it \<in> insert start (fst ` set bs)"
    and ch: "free_chain (link_block e it blk h) (pxNextFreeBlock (link_block e it blk h start))
               (insert_free (blk, xBlockSize (h blk)) bs) e"
    using insert_search [OF assms] by blast
  have "xBlockSize (link_block e it blk h start) = 0"
    using start by (cases "it = start") (simp_all add: link_block_frame link_block_defs)
  moreover have "link_block e it blk h x = h x"
    if "x \<notin> fst ` set bs" "x \<noteq> start" "x \<noteq> blk" for x
    using that it(2) by (intro link_block_frame) auto
  ultimately show thesis
    using that [of "link_block e it blk h"] it(1) ch
    by (simp add: prvInsertBlockIntoFreeList_def link_block_stamp)
qed

end
