(* ===== verification/HeapSpec.thy ===== *)
theory HeapSpec
  imports FreeList
begin

text \<open>
  What the user allocator promises, on an abstract heap: the array is tiled by blocks, each free or
  taken, no two neighbours both free. Allocation is first fit (\<open>carve\<close>), release marks a block and
  merges neighbouring free blocks (\<open>release\<close>). This theory is about the abstract heap and its free
  list only; \<open>HeapRefine\<close> shows that the C code implements it.
\<close>

section \<open>Tilings\<close>

datatype tile = Tile (taddr: addr) (tsize: u32) (taken: bool)

primrec tiled :: "nat \<Rightarrow> tile list \<Rightarrow> nat \<Rightarrow> bool" where
  "tiled lo [] hi \<longleftrightarrow> lo = hi"
| "tiled lo (t # ts) hi \<longleftrightarrow>
     unat (taddr t) = lo \<and> 0 < unat (tsize t) \<and> 32 dvd unat (tsize t) \<and>
     tiled (lo + unat (tsize t)) ts hi"

fun coalesced :: "tile list \<Rightarrow> bool" where
  "coalesced (t # u # ts) \<longleftrightarrow> (taken t \<or> taken u) \<and> coalesced (u # ts)"
| "coalesced _ \<longleftrightarrow> True"

definition free_of :: "tile list \<Rightarrow> chunk list" where
  "free_of ts = map (\<lambda>t. (taddr t, tsize t)) (filter (\<lambda>t. \<not> taken t) ts)"

lemma free_of_simps [simp]:
  "free_of [] = []"
  "free_of (t # ts) = (if taken t then free_of ts else (taddr t, tsize t) # free_of ts)"
  "free_of (ts @ us) = free_of ts @ free_of us"
  by (simp_all add: free_of_def)

lemma in_free_of: "b \<in> set (free_of ts) \<longleftrightarrow> Tile (fst b) (snd b) False \<in> set ts"
  by (induction ts) (auto, (metis tile.exhaust_sel)+)

definition free_bytes :: "tile list \<Rightarrow> nat" where
  "free_bytes ts = (\<Sum>b\<leftarrow>free_of ts. unat (snd b))"

lemma tiled_append: "tiled lo (ts @ us) hi \<longleftrightarrow> (\<exists>m. tiled lo ts m \<and> tiled m us hi)"
  by (induction ts arbitrary: lo) auto

lemma tiled_le: "tiled lo ts hi \<Longrightarrow> lo \<le> hi"
  by (induction ts arbitrary: lo) fastforce+

lemma tiled_bounds:
  "tiled lo ts hi \<Longrightarrow> t \<in> set ts \<Longrightarrow> lo \<le> unat (taddr t) \<and> unat (taddr t) + unat (tsize t) \<le> hi"
proof (induction ts arbitrary: lo)
  case (Cons u ts)
  then show ?case using tiled_le by fastforce
qed simp

lemma tiled_pos: "tiled lo ts hi \<Longrightarrow> t \<in> set ts \<Longrightarrow> 0 < unat (tsize t)"
  by (induction ts arbitrary: lo) auto

lemma tiled_dvd: "tiled lo ts hi \<Longrightarrow> 32 dvd lo \<Longrightarrow> t \<in> set ts \<Longrightarrow> 32 dvd unat (taddr t) \<and> 32 dvd unat (tsize t) \<and> 0 < unat (tsize t)"
  by (induction ts arbitrary: lo) (auto simp: dvd_add)

lemma tiled_dvd_end: "tiled lo ts hi \<Longrightarrow> 32 dvd lo \<Longrightarrow> 32 dvd hi"
  by (induction ts arbitrary: lo) (auto simp: dvd_add)

lemma free_bytes_le: "tiled lo ts hi \<Longrightarrow> lo + free_bytes ts \<le> hi"
proof (induction ts arbitrary: lo)
  case (Cons t ts)
  then have "lo + unat (tsize t) + free_bytes ts \<le> hi" by simp
  then show ?case by (simp add: free_bytes_def)
qed (simp add: free_bytes_def)

lemma tiled_address_unique:
  assumes "tiled lo ts hi" "t \<in> set ts" "u \<in> set ts" "taddr t = taddr u"
  shows "t = u"
  using assms
proof (induction ts arbitrary: lo)
  case (Cons v ts)
  have "unat (taddr v) < unat (taddr w)" if "w \<in> set ts" for w
    using tiled_bounds [of "lo + unat (tsize v)" ts hi w] Cons.prems(1) that by simp
  with Cons show ?case by fastforce
qed simp

text \<open>Two different blocks of a tiling do not overlap.\<close>

lemma tiled_disjoint:
  assumes "tiled lo ts hi" "t \<in> set ts" "u \<in> set ts" "t \<noteq> u"
  shows "unat (taddr t) + unat (tsize t) \<le> unat (taddr u) \<or>
         unat (taddr u) + unat (tsize u) \<le> unat (taddr t)"
  using assms
proof (induction ts arbitrary: lo)
  case (Cons v ts)
  have "unat (taddr v) + unat (tsize v) \<le> unat (taddr w)" if "w \<in> set ts" for w
    using tiled_bounds [of "lo + unat (tsize v)" ts hi w] Cons.prems(1) that by simp
  with Cons show ?case by auto
qed simp

lemma tiled_spread: "tiled lo ts (unat e) \<Longrightarrow> spread (free_of ts) e"
proof (induction ts arbitrary: lo)
  case (Cons t ts)
  have "unat (taddr t) + unat (tsize t) \<le> unat (fst c)" if "c \<in> set (free_of ts)" for c
    using tiled_bounds [of "lo + unat (tsize t)" ts "unat e" "Tile (fst c) (snd c) False"]
      Cons.prems that by (simp add: in_free_of)
  then show ?case
    using Cons tiled_bounds [OF Cons.prems, of t] by auto
qed simp

section \<open>Release\<close>

fun glue :: "tile \<Rightarrow> tile list \<Rightarrow> tile list" where
  "glue t [] = [t]"
| "glue t (u # ts) =
     (if \<not> taken t \<and> \<not> taken u then Tile (taddr t) (tsize t + tsize u) False # ts else t # u # ts)"

definition coalesce :: "tile list \<Rightarrow> tile list" where
  "coalesce ts = foldr glue ts []"

definition release :: "addr \<Rightarrow> tile list \<Rightarrow> tile list" where
  "release p ts = coalesce (map (\<lambda>t. if taddr t = p then Tile p (tsize t) False else t) ts)"

lemma coalesced_tl: "coalesced (t # ts) \<Longrightarrow> coalesced ts"
  by (cases ts) auto

lemma coalesced_append: "coalesced (ts @ us) \<Longrightarrow> coalesced ts \<and> coalesced us"
  by (induction ts rule: coalesced.induct) (auto dest: coalesced_tl)

lemma glue_tiled:
  assumes "tiled lo (t # ts) (unat e)"
  shows "tiled lo (glue t ts) (unat (e :: addr))"
proof (cases ts)
  case (Cons u us)
  have "unat (tsize t) + unat (tsize u) \<le> unat e"
    using tiled_le [of "lo + unat (tsize t) + unat (tsize u)" us "unat e"] assms Cons by auto
  then have "unat (tsize t + tsize u) = unat (tsize t) + unat (tsize u)"
    by (rule unat_add_below)
  then show ?thesis using assms Cons by (auto simp: add.assoc)
qed (use assms in simp)

lemma glue_coalesced: "coalesced ts \<Longrightarrow> coalesced (glue t ts)"
  by (cases ts; cases "tl ts") auto

lemma glue_id: "coalesced (t # ts) \<Longrightarrow> glue t ts = t # ts"
  by (cases ts) auto

lemma coalesce_id: "coalesced ts \<Longrightarrow> coalesce ts = ts"
proof (induction ts)
  case (Cons t ts)
  then show ?case using coalesced_tl glue_id by (fastforce simp: coalesce_def)
qed (simp add: coalesce_def)

lemma foldr_glue_tiled:
  "tiled lo (ts @ us) (unat (e :: addr)) \<Longrightarrow> tiled lo (foldr glue ts us) (unat e)"
proof (induction ts arbitrary: lo)
  case (Cons t ts)
  then have "tiled lo (t # foldr glue ts us) (unat e)" by simp
  then have "tiled lo (glue t (foldr glue ts us)) (unat e)" by (rule glue_tiled)
  then show ?case by simp
qed simp

lemma foldr_glue_coalesced: "coalesced us \<Longrightarrow> coalesced (foldr glue ts us)"
  by (induction ts) (auto intro: glue_coalesced)

lemma coalesce_tiled: "tiled lo ts (unat (e :: addr)) \<Longrightarrow> tiled lo (coalesce ts) (unat e)"
  unfolding coalesce_def by (rule foldr_glue_tiled) simp

lemma coalesce_coalesced: "coalesced (coalesce ts)"
  unfolding coalesce_def by (rule foldr_glue_coalesced) simp

text \<open>The free list of a heap in which a block was released is the free list with it inserted.\<close>

lemma free_of_addr_bounds:
  "tiled lo ts hi \<Longrightarrow> b \<in> set (free_of ts) \<Longrightarrow> lo \<le> unat (fst b) \<and> unat (fst b) < hi"
  using tiled_bounds [of lo ts hi "Tile (fst b) (snd b) False"]
    tiled_pos [of lo ts hi "Tile (fst b) (snd b) False"]
  by (simp add: in_free_of)

lemma free_of_glue:
  assumes "tiled (unat p + unat s) ts (unat (e :: addr))" and "coalesced ts"
  shows "free_of (glue (Tile p s False) ts) = merge_next (p, s) (free_of ts)"
proof (cases ts)
  case (Cons u us)
  have ps: "unat (p + s) = unat p + unat s"
    using tiled_le [OF assms(1)] by (rule unat_add_below)
  show ?thesis
  proof (cases "taken u")
    case True
    have "unat (p + s) < unat (fst b)" if "b \<in> set (free_of us)" for b
      using free_of_addr_bounds [of "unat p + unat s + unat (tsize u)" us "unat e" b]
        that assms(1) Cons by (simp add: ps)
    then have "\<forall>b\<in>set (free_of us). p + s \<noteq> fst b" by fastforce
    with True Cons show ?thesis by (cases "free_of us") auto
  next
    case False
    have "taddr u = p + s"
      using assms(1) Cons ps by (simp add: word_unat_eq_iff)
    with False Cons show ?thesis by simp
  qed
qed simp

lemma glue_head: "\<exists>s' ts'. glue (Tile p s False) ts = Tile p s' False # ts'"
  by (cases ts) auto

lemma glue_taken: "taken t \<Longrightarrow> glue t ts = t # ts"
  by (cases ts) auto

lemma merge_next_twice:
  assumes "a + s = p"
  shows "merge_next (a, s + t) bs =
           (case merge_next (p, t) bs of (_, t') # bs' \<Rightarrow> (a, s + t') # bs' | [] \<Rightarrow> [])"
proof (cases bs)
  case (Cons b bs')
  have "a + (s + t) = p + t" using assms by (simp add: add.assoc [symmetric])
  then show ?thesis using Cons by (cases b) (auto simp: add.assoc)
qed simp

lemma free_of_foldr_glue:
  assumes "tiled lo (ts @ Tile p s x # us) (unat (e :: addr))" and "coalesced ts" and "coalesced us"
  shows "free_of (foldr glue ts (glue (Tile p s False) us)) = insert_free (p, s) (free_of ts @ free_of us)"
  using assms
proof (induction ts arbitrary: lo)
  case Nil
  have "\<forall>b\<in>set (free_of us). \<not> fst b < p"
    using free_of_addr_bounds [of "lo + unat s" us "unat e"] Nil.prems(1)
    by (force simp: word_less_nat_alt)
  then show ?case
    using Nil.prems by (simp add: free_of_glue [of p s us e] insert_free_front)
next
  case (Cons t ts)
  have rest: "tiled (lo + unat (tsize t)) (ts @ Tile p s x # us) (unat e)"
    using Cons.prems(1) by simp
  have IH: "free_of (foldr glue ts (glue (Tile p s False) us)) = insert_free (p, s) (free_of ts @ free_of us)"
    using Cons.IH [OF rest] Cons.prems(2,3) coalesced_tl by blast
  show ?case
  proof (cases "taken t")
    case True
    then show ?thesis using IH by (simp add: glue_taken)
  next
    case False
    have tp: "unat (taddr t) + unat (tsize t) \<le> unat p" "taddr t < p"
      using tiled_bounds [OF rest, of "Tile p s x"] Cons.prems(1) by (auto simp: word_less_nat_alt)
    have sum: "unat (taddr t + tsize t) = unat (taddr t) + unat (tsize t)"
      using tp(1) by (rule unat_add_below)
    show ?thesis
    proof (cases ts)
      case Nil
      obtain s' us' where g: "glue (Tile p s False) us = Tile p s' False # us'"
        using glue_head by blast
      have "taddr t + tsize t = p"
        using Cons.prems(1) Nil sum by (simp add: word_unat_eq_iff)
      moreover have "merge_next (p, s) (free_of us) = (p, s') # free_of us'"
        using free_of_glue [of p s us e] rest Nil Cons.prems(3) g by simp
      ultimately show ?thesis
        using False Nil g tp(2) by (simp add: merge_next_twice)
    next
      case (Cons u vs)
      then have u: "taken u" using Cons.prems(2) False by simp
      have "unat (taddr t) + unat (tsize t) < unat p"
        using tiled_bounds [of "lo + unat (tsize t) + unat (tsize u)" "vs @ Tile p s x # us"
            "unat e" "Tile p s x"] rest Cons Cons.prems(1) by simp
      then have "taddr t + tsize t \<noteq> p" using sum by auto
      then show ?thesis
        using IH False u Cons tp(2) by (simp add: glue_taken)
    qed
  qed
qed

section \<open>Allocation\<close>

definition split_tile :: "u32 \<Rightarrow> tile \<Rightarrow> tile list" where
  "split_tile w t =
     (if tsize t - w > heapMINIMUM_BLOCK_SIZE
      then [Tile (taddr t) w True, Tile (taddr t + w) (tsize t - w) False]
      else [Tile (taddr t) (tsize t) True])"

fun carve :: "u32 \<Rightarrow> tile list \<Rightarrow> (addr \<times> tile list) option" where
  "carve w [] = None"
| "carve w (t # ts) =
     (if \<not> taken t \<and> w \<le> tsize t then Some (taddr t, split_tile w t @ ts)
      else map_option (\<lambda>(p, us). (p, t # us)) (carve w ts))"

lemma carve_None: "carve w ts = None \<longleftrightarrow> (\<forall>b\<in>set (free_of ts). snd b < w)"
  by (induction ts) (auto simp: not_le)

lemma carve_SomeE:
  assumes "carve w ts = Some (p, us)"
  obtains xs s ys where "ts = xs @ Tile p s False # ys" "us = xs @ split_tile w (Tile p s False) @ ys"
    "w \<le> s" "\<forall>b\<in>set (free_of xs). snd b < w"
  using assms
proof (induction ts arbitrary: us thesis)
  case (Cons t ts)
  show ?case
  proof (cases "\<not> taken t \<and> w \<le> tsize t")
    case True
    with Cons.prems show ?thesis by (cases t) (auto intro: Cons.prems(1) [of "[]"])
  next
    case False
    with Cons.prems(2) obtain us' where us': "carve w ts = Some (p, us')" "us = t # us'" by auto
    show ?thesis
    proof (rule Cons.IH [OF _ us'(1)])
      fix xs s ys
      assume "ts = xs @ Tile p s False # ys" "us' = xs @ split_tile w (Tile p s False) @ ys"
        "w \<le> s" "\<forall>b\<in>set (free_of xs). snd b < w"
      then show thesis
        using us'(2) False by (intro Cons.prems(1) [of "t # xs" s ys]) (auto simp: not_le)
    qed
  qed
qed simp

lemma split_tile_tiled:
  assumes "tiled lo (Tile p s False # ys) (unat (e :: addr))" "w \<le> s" "0 < unat w" "32 dvd unat w"
  shows "tiled lo (split_tile w (Tile p s False) @ ys) (unat e)"
proof -
  have s: "unat p = lo" "unat p + unat s \<le> unat e" "32 dvd unat s"
    using tiled_le [of "lo + unat s" ys "unat e"] assms(1) by auto
  have w: "unat w \<le> unat s" using assms(2) by (simp add: word_le_nat_alt)
  then have "unat (p + w) = unat p + unat w" "unat (s - w) = unat s - unat w"
    using s by (auto intro: unat_add_below [where c = e] unat_sub_no_wrap)
  moreover have "32 dvd unat s - unat w" using s(3) assms(4) by simp
  moreover have "0 < unat s - unat w" if "s - w > heapMINIMUM_BLOCK_SIZE"
    using that \<open>unat (s - w) = unat s - unat w\<close> by (metis gr_zeroI not_less_zero word_less_nat_alt)
  ultimately show ?thesis
    using assms s w by (simp add: split_tile_def)
qed

lemma carve_tiled:
  assumes "carve w ts = Some (p, us)" "tiled lo ts (unat (e :: addr))" "0 < unat w" "32 dvd unat w"
  shows "tiled lo us (unat e)"
  using assms(1)
proof (rule carve_SomeE)
  fix xs s ys
  assume eq: "ts = xs @ Tile p s False # ys" "us = xs @ split_tile w (Tile p s False) @ ys"
    and ws: "w \<le> s"
  obtain m where "tiled lo xs m" "tiled m (Tile p s False # ys) (unat e)"
    using assms(2) eq by (auto simp: tiled_append)
  then show "tiled lo us (unat e)"
    using split_tile_tiled [OF _ ws assms(3,4)] eq(2) tiled_append by blast
qed

lemma coalesced_taken_mid:
  "coalesced (xs @ Tile p s x # ys) \<Longrightarrow> coalesced (xs @ Tile p t True # ys)"
  by (induction xs rule: coalesced.induct) (cases ys; auto)+

lemma coalesced_split:
  "coalesced (xs @ Tile p s False # ys) \<Longrightarrow> coalesced (xs @ Tile p t True # Tile q u False # ys)"
  by (induction xs rule: coalesced.induct) (cases ys; auto)+

lemma carve_coalesced:
  assumes "carve w ts = Some (p, us)" "coalesced ts"
  shows "coalesced us"
  using assms(1)
  by (rule carve_SomeE) (use assms(2) in
      \<open>auto simp: split_tile_def intro: coalesced_taken_mid coalesced_split\<close>)

end
