(* ===== verification/HeapRefine.thy ===== *)
theory HeapRefine
  imports HeapSpec
begin

text \<open>
  The C allocator implements the abstract heap of \<open>HeapSpec\<close>: \<open>heap_ok\<close> relates the static variables
  and block headers of \<^verbatim>\<open>usermem.c\<close> to a tiling, initialisation establishes it, \<open>usermalloc\<close> follows
  \<open>carve\<close> and \<open>userfree\<close> follows \<open>release\<close>.
\<close>

section \<open>Searching and unlinking\<close>

lemma find_first_fit_none:
  assumes "free_chain h p bs e" and "\<forall>b\<in>set bs. snd b < w"
    and "\<forall>b\<in>set bs. fst b \<noteq> 0" "e \<noteq> 0" "pxNextFreeBlock (h e) = 0"
  shows "\<exists>q. find_first_fit h prev p w = Some (q, e)"
  using assms
proof (induction bs arbitrary: p prev)
  case Nil
  then show ?case by (subst find_first_fit.simps) simp
next
  case (Cons b bs)
  have "pxNextFreeBlock (h p) \<noteq> 0"
    using Cons.prems by (cases bs) auto
  then show ?case
    using Cons by (subst find_first_fit.simps) auto
qed

lemma find_first_fit_some:
  assumes "free_chain h p (as @ (a, s) # bs) e" and "\<forall>b\<in>set as. snd b < w" and "w \<le> s"
    and "\<forall>b\<in>set (as @ (a, s) # bs). fst b \<noteq> 0"
  shows "find_first_fit h prev p w = Some (last (prev # map fst as), a)"
  using assms
proof (induction as arbitrary: p prev)
  case Nil
  then show ?case by (subst find_first_fit.simps) (auto simp: not_less)
next
  case (Cons b as)
  have nz: "pxNextFreeBlock (h p) \<noteq> 0"
    using Cons.prems(1,4) by (cases as) auto
  have "find_first_fit h p (pxNextFreeBlock (h p)) w = Some (last (p # map fst as), a)"
    using Cons.prems by (intro Cons.IH) auto
  then show ?case
    using Cons.prems nz by (subst find_first_fit.simps) auto
qed

lemma chain_last_next:
  "free_chain h (pxNextFreeBlock (h x)) (as @ (a, s) # bs) e \<Longrightarrow>
   pxNextFreeBlock (h (last (x # map fst as))) = a \<and> xBlockSize (h a) = s \<and>
   free_chain h (pxNextFreeBlock (h a)) bs e"
proof (induction as arbitrary: x)
  case (Cons b as)
  then show ?case by (cases as) auto
qed auto

lemma unlink_chain:
  assumes "free_chain h (pxNextFreeBlock (h x)) (as @ (a, s) # bs) e"
    and "distinct (x # map fst as @ a # map fst bs)"
  shows "free_chain (set_next h (last (x # map fst as)) (pxNextFreeBlock (h a)))
           (pxNextFreeBlock (set_next h (last (x # map fst as)) (pxNextFreeBlock (h a)) x)) (as @ bs) e"
  using assms
proof (induction as arbitrary: x)
  case Nil
  then have "free_chain (set_next h x (pxNextFreeBlock (h a))) (pxNextFreeBlock (h a)) bs e
             = free_chain h (pxNextFreeBlock (h a)) bs e"
    by (intro free_chain_cong) force
  then show ?case using Nil by auto
next
  case (Cons b as)
  let ?h' = "set_next h (last (fst b # map fst as)) (pxNextFreeBlock (h a))"
  have "free_chain ?h' (pxNextFreeBlock (?h' (fst b))) (as @ bs) e"
    using Cons.prems by (intro Cons.IH) auto
  moreover have "x \<noteq> last (fst b # map fst as)"
    using Cons.prems(2) by (metis distinct.simps(2) last_in_set list.distinct(1) list.set_intros(2)
        list.simps(9) Un_iff append_Cons set_append)
  ultimately show ?case using Cons.prems by auto
qed

section \<open>The representation relation\<close>

definition aligned_heap :: "heap_layout \<Rightarrow> addr" where
  "aligned_heap lay =
     (if userUcHeap lay AND usermemBYTE_ALIGNMENT_MASK \<noteq> 0
      then (userUcHeap lay + (usermemBYTE_ALIGNMENT - 1)) AND NOT usermemBYTE_ALIGNMENT_MASK
      else userUcHeap lay)"

definition header_ok :: "(addr \<Rightarrow> block_link) \<Rightarrow> tile \<Rightarrow> bool" where
  "header_ok h t \<longleftrightarrow>
     (if taken t
      then xBlockSize (h (taddr t)) = tsize t OR 0x80000000 \<and> pxNextFreeBlock (h (taddr t)) = NULL \<and>
           ulStamp (h (taddr t)) = INTEGRITY_STAMP_TAKEN
      else ulStamp (h (taddr t)) = INTEGRITY_STAMP_FREE)"

text \<open>Where the heap lies: a tiling of the aligned array up to the end marker \<open>e\<close>.\<close>

definition heap_shape :: "heap_layout \<Rightarrow> addr \<Rightarrow> tile list \<Rightarrow> bool" where
  "heap_shape lay e ts \<longleftrightarrow>
     tiled (unat (aligned_heap lay)) ts (unat e) \<and>
     0 < aligned_heap lay \<and> 32 dvd unat (aligned_heap lay) \<and>
     unat e < unat (aligned_heap lay) + 2 ^ 31 \<and>
     \<not> (aligned_heap lay \<le> addr_xUserStart lay \<and> addr_xUserStart lay \<le> e)"

definition heap_ok :: "heap_layout \<Rightarrow> usermem \<Rightarrow> tile list \<Rightarrow> bool" where
  "heap_ok lay st ts \<longleftrightarrow>
     heap_shape lay (pxUserEnd st) ts \<and> coalesced ts \<and>
     free_chain (links st) (pxNextFreeBlock (links st (addr_xUserStart lay))) (free_of ts) (pxUserEnd st) \<and>
     (\<forall>t\<in>set ts. header_ok (links st) t) \<and>
     unat (xUserFreeBytesRemaining st) = free_bytes ts \<and>
     xUserMinimumEverFreeBytesRemaining st \<le> xUserFreeBytesRemaining st \<and>
     xBlockAllocatedBit st = 0x80000000 \<and>
     xBlockSize (links st (addr_xUserStart lay)) = 0 \<and>
     xBlockSize (links st (pxUserEnd st)) = 0 \<and> pxNextFreeBlock (links st (pxUserEnd st)) = NULL"

text \<open>What follows at once, in the form the proofs below use.\<close>

lemma heap_okD:
  assumes "heap_ok lay st ts"
  shows "tiled (unat (aligned_heap lay)) ts (unat (pxUserEnd st))" "coalesced ts"
    "free_chain (links st) (pxNextFreeBlock (links st (addr_xUserStart lay))) (free_of ts) (pxUserEnd st)"
    "\<And>t. t \<in> set ts \<Longrightarrow> header_ok (links st) t"
    "unat (xUserFreeBytesRemaining st) = free_bytes ts"
    "xUserMinimumEverFreeBytesRemaining st \<le> xUserFreeBytesRemaining st"
    "xBlockAllocatedBit st = 0x80000000"
    "xBlockSize (links st (addr_xUserStart lay)) = 0"
    "xBlockSize (links st (pxUserEnd st)) = 0" "pxNextFreeBlock (links st (pxUserEnd st)) = NULL"
    "heap_shape lay (pxUserEnd st) ts"
  using assms by (auto simp: heap_ok_def heap_shape_def)

lemma heap_shape_start:
  assumes "heap_shape lay e ts" "aligned_heap lay \<le> x" "x \<le> e"
  shows "addr_xUserStart lay \<noteq> x"
  using assms by (auto simp: heap_shape_def)

lemma heap_shape_tile:
  assumes "heap_shape lay e ts" "t \<in> set ts"
  shows "unat (aligned_heap lay) \<le> unat (taddr t)" "unat (taddr t) + unat (tsize t) \<le> unat e"
    "0 < unat (tsize t)" "32 dvd unat (tsize t)" "32 dvd unat (taddr t)" "unat (tsize t) < 2 ^ 31"
    "taddr t < e" "addr_xUserStart lay \<noteq> taddr t" "taddr t \<noteq> 0"
proof -
  note D = assms(1) [unfolded heap_shape_def]
  show b: "unat (aligned_heap lay) \<le> unat (taddr t)" "unat (taddr t) + unat (tsize t) \<le> unat e"
    using tiled_bounds [OF _ assms(2)] D by blast+
  show p: "0 < unat (tsize t)" "32 dvd unat (tsize t)" "32 dvd unat (taddr t)"
    using tiled_dvd [OF _ _ assms(2)] D by blast+
  show "unat (tsize t) < 2 ^ 31" using b D by simp
  show lt: "taddr t < e" using b p by (simp add: word_less_nat_alt)
  show "addr_xUserStart lay \<noteq> taddr t"
    using b lt by (intro heap_shape_start [OF assms(1)]) (auto simp: word_le_nat_alt)
  show "taddr t \<noteq> 0" using b D by (auto simp: word_less_nat_alt)
qed

lemma heap_shape_free_addr:
  assumes "heap_shape lay e ts" "b \<in> set (free_of ts)"
  shows "fst b < e" "addr_xUserStart lay \<noteq> fst b" "fst b \<noteq> 0"
    "t \<in> set ts \<Longrightarrow> taken t \<Longrightarrow> taddr t \<noteq> fst b"
proof -
  have mem: "Tile (fst b) (snd b) False \<in> set ts" using assms(2) by (simp add: in_free_of)
  show "fst b < e" "addr_xUserStart lay \<noteq> fst b" "fst b \<noteq> 0"
    using heap_shape_tile [OF assms(1) mem] by simp_all
  show "taddr t \<noteq> fst b" if "t \<in> set ts" "taken t"
    using tiled_address_unique [OF _ that(1) mem] assms(1) that(2) by (auto simp: heap_shape_def)
qed

lemma heap_shape_end:
  assumes "heap_shape lay e ts"
  shows "e \<noteq> 0" "addr_xUserStart lay \<noteq> e" "e \<notin> fst ` set (free_of ts)"
    "addr_xUserStart lay \<notin> fst ` set (free_of ts)"
proof -
  note D = assms [unfolded heap_shape_def]
  have le: "aligned_heap lay \<le> e"
    using tiled_le D by (auto simp: word_le_nat_alt)
  then show "e \<noteq> 0" using D by auto
  show "addr_xUserStart lay \<noteq> e"
    using le by (intro heap_shape_start [OF assms]) auto
  show "e \<notin> fst ` set (free_of ts)" "addr_xUserStart lay \<notin> fst ` set (free_of ts)"
    using heap_shape_free_addr [OF assms] by fastforce+
qed

section \<open>Alignment arithmetic\<close>

lemma alignment_constants:
  "xHeapStructSize = 32" "heapMINIMUM_BLOCK_SIZE = 64" "usermemBYTE_ALIGNMENT = 32"
  by (simp_all add: xHeapStructSize_def sizeof_BlockLink_t_def usermemBYTE_ALIGNMENT_def
      usermemBYTE_ALIGNMENT_MASK_def heapMINIMUM_BLOCK_SIZE_def)

lemma unat_alignment_mask: "unat (a AND usermemBYTE_ALIGNMENT_MASK) = unat a mod 32"
  unfolding usermemBYTE_ALIGNMENT_MASK_def by (rule unat_and_mask5)

lemma aligned_iff: "a AND usermemBYTE_ALIGNMENT_MASK = 0 \<longleftrightarrow> 32 dvd unat a"
  unfolding usermemBYTE_ALIGNMENT_MASK_def by (rule and_mask5_zero_iff)

lemma unat_align_down: "unat (a AND NOT usermemBYTE_ALIGNMENT_MASK) = unat a - unat a mod 32"
  unfolding and_not_eq_minus
  by (subst unat_sub_no_wrap) (simp_all add: unat_alignment_mask)

text \<open>Rounding a natural number down or up to a multiple of 32.\<close>

lemma round_down: "n - n mod 32 \<le> n" "n < n - n mod 32 + 32" "32 dvd n - n mod (32 :: nat)"
  using mod_less_divisor [of 32 n] mod_less_eq_dividend [of n 32] by (simp_all add: dvd_minus_mod)

lemma round_up: "32 dvd n + (32 - n mod (32 :: nat))"
proof -
  have "n + (32 - n mod 32) = (n - n mod 32) + 32"
    using mod_less_divisor [of 32 n] mod_less_eq_dividend [of n 32] by linarith
  then show ?thesis using round_down(3) [of n] by (metis dvd_add dvd_refl)
qed

text \<open>The size carved out for a request is aligned and leaves room for the header.\<close>

lemma adjusted_size_bounds:
  assumes "0 < unat n" "unat n < 2 ^ 31"
  shows "unat n + 32 \<le> unat (adjusted_size n)" "unat (adjusted_size n) < unat n + 64"
    "32 dvd unat (adjusted_size n)"
proof -
  define w where "w = n + 32"
  have uw: "unat w = unat n + 32"
    unfolding w_def using assms by (subst unat_add_no_wrap) simp_all
  have n0: "n > 0" using assms(1) by (simp add: word_less_nat_alt)
  have "unat (adjusted_size n) = (if 32 dvd unat w then unat w else unat w + (32 - unat w mod 32))"
  proof (cases "32 dvd unat w")
    case True
    then show ?thesis
      using n0 by (simp add: adjusted_size_def Let_def alignment_constants aligned_iff
          w_def [symmetric])
  next
    case False
    have r: "unat (32 - (w AND usermemBYTE_ALIGNMENT_MASK)) = 32 - unat w mod 32"
      by (subst unat_sub_no_wrap) (simp_all add: unat_alignment_mask)
    have "unat (w + (32 - (w AND usermemBYTE_ALIGNMENT_MASK))) = unat w + (32 - unat w mod 32)"
      using assms(2) uw by (subst unat_add_no_wrap) (simp_all add: r)
    then show ?thesis
      using n0 False by (simp add: adjusted_size_def Let_def alignment_constants aligned_iff
          w_def [symmetric])
  qed
  moreover have "0 < unat w mod 32" if "\<not> 32 dvd unat w"
    using that by (simp add: dvd_eq_mod_eq_0)
  ultimately show "unat n + 32 \<le> unat (adjusted_size n)" "unat (adjusted_size n) < unat n + 64"
    "32 dvd unat (adjusted_size n)"
    using uw round_up [of "unat w"] by (auto split: if_splits)
qed

section \<open>Initialisation\<close>

text \<open>
  What the linker script guarantees: the array is a proper object of the address space smaller than
  half of it, big enough for two headers and one block, and \<^verbatim>\<open>xUserStart\<close> lies outside of it.
\<close>

definition layout_ok :: "heap_layout \<Rightarrow> bool" where
  "layout_ok lay \<longleftrightarrow>
     0 < unat (userUcHeap lay) \<and> 128 \<le> unat (USERMEM_TOTAL_HEAP_SIZE lay) \<and>
     unat (USERMEM_TOTAL_HEAP_SIZE lay) < 2 ^ 31 \<and>
     unat (userUcHeap lay) + unat (USERMEM_TOTAL_HEAP_SIZE lay) < 2 ^ 32 \<and>
     \<not> (userUcHeap lay \<le> addr_xUserStart lay \<and>
        addr_xUserStart lay < userUcHeap lay + USERMEM_TOTAL_HEAP_SIZE lay)"

lemma aligned_heap_bounds:
  assumes "layout_ok lay"
  shows "unat (userUcHeap lay) \<le> unat (aligned_heap lay)"
    "unat (aligned_heap lay) < unat (userUcHeap lay) + 32" "32 dvd unat (aligned_heap lay)"
proof -
  define u where "u = unat (userUcHeap lay)"
  have up: "unat (userUcHeap lay + (usermemBYTE_ALIGNMENT - 1)) = u + 31"
    using assms unfolding u_def
    by (subst unat_add_no_wrap) (simp_all add: alignment_constants layout_ok_def)
  have "unat (aligned_heap lay) = (if 32 dvd u then u else (u + 31) - (u + 31) mod 32)"
    by (simp add: aligned_heap_def aligned_iff unat_align_down up) (simp add: u_def)
  moreover have "u \<le> (u + 31) - (u + 31) mod 32" "(u + 31) - (u + 31) mod 32 < u + 32"
    "32 dvd (u + 31) - (u + 31) mod 32"
    using round_down [of "u + 31"] by linarith+
  ultimately show "unat (userUcHeap lay) \<le> unat (aligned_heap lay)"
    "unat (aligned_heap lay) < unat (userUcHeap lay) + 32" "32 dvd unat (aligned_heap lay)"
    by (auto simp: u_def [symmetric])
qed

definition heap_end :: "heap_layout \<Rightarrow> addr" where
  "heap_end lay =
     (userUcHeap lay + USERMEM_TOTAL_HEAP_SIZE lay - xHeapStructSize) AND NOT usermemBYTE_ALIGNMENT_MASK"

lemma heap_end_bounds:
  assumes "layout_ok lay"
  shows "unat (heap_end lay) \<le> unat (userUcHeap lay) + unat (USERMEM_TOTAL_HEAP_SIZE lay) - 32"
    "unat (userUcHeap lay) + unat (USERMEM_TOTAL_HEAP_SIZE lay) - 64 < unat (heap_end lay)"
    "32 dvd unat (heap_end lay)" "unat (aligned_heap lay) < unat (heap_end lay)"
    "unat (heap_end lay - aligned_heap lay) = unat (heap_end lay) - unat (aligned_heap lay)"
proof -
  let ?u = "userUcHeap lay" and ?n = "USERMEM_TOTAL_HEAP_SIZE lay"
  note L = assms [unfolded layout_ok_def] and B = aligned_heap_bounds [OF assms]
  have "unat (?u + ?n) = unat ?u + unat ?n" using L by (intro unat_add_no_wrap) simp
  then have top: "unat (?u + ?n - xHeapStructSize) = unat ?u + unat ?n - 32"
    using L by (subst unat_sub_no_wrap) (simp_all add: alignment_constants)
  have e: "unat (heap_end lay) = (unat ?u + unat ?n - 32) - (unat ?u + unat ?n - 32) mod 32"
    by (simp add: heap_end_def unat_align_down top)
  show r: "unat (heap_end lay) \<le> unat ?u + unat ?n - 32"
    "unat ?u + unat ?n - 64 < unat (heap_end lay)" "32 dvd unat (heap_end lay)"
    using round_down [of "unat ?u + unat ?n - 32"] L unfolding e by linarith+
  show lt: "unat (aligned_heap lay) < unat (heap_end lay)"
    using r B L by linarith
  then show "unat (heap_end lay - aligned_heap lay) = unat (heap_end lay) - unat (aligned_heap lay)"
    by (intro unat_sub_no_wrap) simp
qed

lemma layout_start:
  assumes "layout_ok lay"
  shows "\<not> (aligned_heap lay \<le> addr_xUserStart lay \<and> addr_xUserStart lay \<le> heap_end lay)"
proof -
  note L = assms [unfolded layout_ok_def]
  have "unat (userUcHeap lay + USERMEM_TOTAL_HEAP_SIZE lay)
          = unat (userUcHeap lay) + unat (USERMEM_TOTAL_HEAP_SIZE lay)"
    using L by (intro unat_add_no_wrap) simp
  then show ?thesis
    using L aligned_heap_bounds [OF assms] heap_end_bounds [OF assms]
    unfolding word_le_nat_alt word_less_nat_alt by linarith
qed

lemma prvHeapInit_end:
  "(aligned_heap lay +
     (if userUcHeap lay AND usermemBYTE_ALIGNMENT_MASK \<noteq> 0
      then USERMEM_TOTAL_HEAP_SIZE lay - (aligned_heap lay - userUcHeap lay)
      else USERMEM_TOTAL_HEAP_SIZE lay) - xHeapStructSize) AND NOT usermemBYTE_ALIGNMENT_MASK
   = heap_end lay"
  by (simp add: heap_end_def aligned_heap_def add.commute)

lemma prvHeapInit_eq:
  "prvHeapInit lay st =
     (let h1 = (links st)(addr_xUserStart lay := (links st (addr_xUserStart lay))
                 \<lparr>pxNextFreeBlock := aligned_heap lay, xBlockSize := 0, xTimeAllocated := 0,
                  xAllocatingTask := 0\<rparr>);
          h2 = h1(heap_end lay := (h1 (heap_end lay))
                 \<lparr>xBlockSize := 0, pxNextFreeBlock := 0, xTimeAllocated := 0, xAllocatingTask := 0\<rparr>);
          h3 = h2(aligned_heap lay := (h2 (aligned_heap lay))
                 \<lparr>xBlockSize := heap_end lay - aligned_heap lay, pxNextFreeBlock := heap_end lay,
                  ulStamp := INTEGRITY_STAMP_FREE\<rparr>)
      in st\<lparr>links := h3, pxUserEnd := heap_end lay,
            xUserMinimumEverFreeBytesRemaining := heap_end lay - aligned_heap lay,
            xUserFreeBytesRemaining := heap_end lay - aligned_heap lay,
            xBlockAllocatedBit := 0x80000000\<rparr>)"
  unfolding prvHeapInit_def Let_def aligned_heap_def [symmetric] prvHeapInit_end by simp

definition initial_heap :: "heap_layout \<Rightarrow> tile list" where
  "initial_heap lay = [Tile (aligned_heap lay) (heap_end lay - aligned_heap lay) False]"

lemma prvHeapInit_ok:
  assumes "layout_ok lay"
  shows "heap_ok lay (prvHeapInit lay st) (initial_heap lay)"
    and "pxUserEnd (prvHeapInit lay st) \<noteq> NULL"
proof -
  note B = aligned_heap_bounds [OF assms] and E = heap_end_bounds [OF assms]
    and S = layout_start [OF assms]
  have ne: "aligned_heap lay \<noteq> heap_end lay" "addr_xUserStart lay \<noteq> aligned_heap lay"
    "addr_xUserStart lay \<noteq> heap_end lay" "aligned_heap lay \<le> heap_end lay"
    using E(4) S by (auto simp: word_le_nat_alt)
  have pos: "0 < aligned_heap lay" "heap_end lay \<noteq> 0"
    using B assms E(4) by (auto simp: word_less_nat_alt layout_ok_def)
  have "unat (heap_end lay) < unat (aligned_heap lay) + 2 ^ 31"
    using E(1) B assms unfolding layout_ok_def by linarith
  then show "heap_ok lay (prvHeapInit lay st) (initial_heap lay)"
    using E B ne pos S
    by (simp add: heap_ok_def heap_shape_def prvHeapInit_eq Let_def initial_heap_def header_ok_def free_bytes_def)
  show "pxUserEnd (prvHeapInit lay st) \<noteq> NULL" using pos by (simp add: prvHeapInit_eq Let_def)
qed

section \<open>Release\<close>

lemma header_ok_cong: "h' (taddr t) = h (taddr t) \<Longrightarrow> header_ok h' t = header_ok h t"
  by (simp add: header_ok_def)

lemma header_ok_free:
  "header_ok h t \<Longrightarrow> \<not> taken t \<Longrightarrow> ulStamp (h (taddr t)) = INTEGRITY_STAMP_FREE"
  by (simp add: header_ok_def)

lemma tiled_others:
  assumes "tiled lo (xs @ Tile p s x # ys) hi" "t \<in> set xs \<union> set ys"
  shows "taddr t \<noteq> p"
proof -
  obtain m where m: "tiled lo xs m" "unat p = m" "tiled (m + unat s) ys hi" "0 < unat s"
    using assms(1) by (auto simp: tiled_append)
  then show ?thesis
    using assms(2) tiled_bounds [OF m(1), of t] tiled_pos [OF m(1), of t] tiled_bounds [OF m(3), of t]
    by auto
qed

lemma release_split:
  assumes "tiled lo (xs @ Tile p s x # ys) (unat (e :: addr))" and "coalesced ys"
  shows "release p (xs @ Tile p s x # ys) = foldr glue xs (glue (Tile p s False) ys)"
proof -
  have "taddr t \<noteq> p" if "t \<in> set xs \<union> set ys" for t
    using assms(1) that by (rule tiled_others)
  then have "map (\<lambda>t. if taddr t = p then Tile p (tsize t) False else t) (xs @ Tile p s x # ys)
             = xs @ Tile p s False # ys"
    by (auto intro!: map_idI)
  then show ?thesis
    using coalesce_id [OF assms(2)] by (simp add: release_def coalesce_def)
qed

lemma free_bytes_glue:
  assumes "tiled lo (t # ts) (unat (e :: addr))"
  shows "free_bytes (glue t ts) = free_bytes (t # ts)"
proof (cases ts)
  case (Cons u us)
  have "unat (tsize t) + unat (tsize u) \<le> unat e"
    using tiled_le [of "lo + unat (tsize t) + unat (tsize u)" us "unat e"] assms Cons by auto
  then have "unat (tsize t + tsize u) = unat (tsize t) + unat (tsize u)"
    by (rule unat_add_below)
  then show ?thesis using Cons by (simp add: free_bytes_def)
qed simp

lemma free_bytes_foldr_glue:
  "tiled lo (ts @ us) (unat (e :: addr)) \<Longrightarrow> free_bytes (foldr glue ts us) = free_bytes (ts @ us)"
proof (induction ts arbitrary: lo)
  case (Cons t ts)
  have "tiled lo (t # foldr glue ts us) (unat e)"
    using Cons.prems foldr_glue_tiled by simp
  then have "free_bytes (glue t (foldr glue ts us)) = free_bytes (t # foldr glue ts us)"
    by (rule free_bytes_glue)
  then show ?case using Cons by (auto simp: free_bytes_def)
qed simp

text \<open>Merging keeps the header facts: a merged block starts where its first part started.\<close>

lemma foldr_glue_members:
  assumes "t \<in> set (foldr glue ts us)"
  shows "t \<in> set ts \<union> set us \<or> (\<not> taken t \<and> (\<exists>u\<in>set ts \<union> set us. \<not> taken u \<and> taddr u = taddr t))"
  using assms
proof (induction ts arbitrary: t)
  case (Cons v ts)
  have "t = v \<or> t \<in> set (foldr glue ts us) \<or> (\<not> taken t \<and> \<not> taken v \<and> taddr v = taddr t)"
    using Cons.prems by (cases "foldr glue ts us") (auto split: if_splits)
  then show ?case using Cons.IH by fastforce
qed simp

text \<open>
  Putting a block that is not in the free list into it: the step \<open>userfree\<close> and the split of
  \<open>usermalloc\<close> share. \<open>us\<close> is the heap with the block marked free and merged.
\<close>

lemma insert_tile:
  assumes ok: "heap_shape lay e (xs @ Tile p s True # ys)" and co: "coalesced xs" "coalesced ys"
    and stamps: "\<And>t. t \<in> set (xs @ ys) \<Longrightarrow> \<not> taken t \<Longrightarrow> ulStamp (h (taddr t)) = INTEGRITY_STAMP_FREE"
      "ulStamp (h p) = INTEGRITY_STAMP_FREE"
    and chain: "free_chain h (pxNextFreeBlock (h (addr_xUserStart lay))) (free_of (xs @ ys)) e"
    and fields: "xBlockSize (h p) = s" "xBlockSize (h (addr_xUserStart lay)) = 0"
      "xBlockSize (h e) = 0" "pxNextFreeBlock (h e) = 0"
  obtains h' where
    "prvInsertBlockIntoFreeList (addr_xUserStart lay) e p h = Inr h'"
    "free_chain h' (pxNextFreeBlock (h' (addr_xUserStart lay)))
       (free_of (foldr glue xs (glue (Tile p s False) ys))) e"
    "\<And>t. t \<in> set (foldr glue xs (glue (Tile p s False) ys)) \<Longrightarrow> \<not> taken t \<Longrightarrow> header_ok h' t"
    "xBlockSize (h' (addr_xUserStart lay)) = 0" "xBlockSize (h' e) = 0"
    "pxNextFreeBlock (h' e) = 0"
    "\<And>t. t \<in> set (xs @ ys) \<Longrightarrow> taken t \<Longrightarrow> h' (taddr t) = h (taddr t)"
proof -
  let ?start = "addr_xUserStart lay" and ?p = "Tile p s True"
  note E = heap_shape_end [OF ok] and P = heap_shape_tile [OF ok, of ?p]
  have til: "tiled (unat (aligned_heap lay)) (xs @ ?p # ys) (unat e)"
    using ok by (simp add: heap_shape_def)
  have fr: "free_of (xs @ ?p # ys) = free_of (xs @ ys)" by simp
  have p_new: "p \<notin> fst ` set (free_of (xs @ ys))"
    using heap_shape_free_addr(4) [OF ok, of _ ?p] fr by fastforce
  have sp: "spread (free_of (xs @ ys)) e" using tiled_spread [OF til] fr by simp
  obtain h' where h': "prvInsertBlockIntoFreeList ?start e p h = Inr h'"
    and ch: "free_chain h' (pxNextFreeBlock (h' ?start)) (insert_free (p, xBlockSize (h p)) (free_of (xs @ ys))) e"
    and s0: "xBlockSize (h' ?start) = 0" and st: "\<And>x. ulStamp (h' x) = ulStamp (h x)"
    and frame: "\<And>x. x \<notin> fst ` set (free_of (xs @ ys)) \<Longrightarrow> x \<noteq> ?start \<Longrightarrow> x \<noteq> p \<Longrightarrow> h' x = h x"
    using prvInsertBlockIntoFreeList_chain [OF chain sp _ _ fields(2) _ p_new] E P fr by auto
  have taken_frame: "h' (taddr t) = h (taddr t)" if "t \<in> set (xs @ ys)" "taken t" for t
  proof (rule frame)
    show "taddr t \<notin> fst ` set (free_of (xs @ ys))"
      using heap_shape_free_addr(4) [OF ok, of _ t] fr that by fastforce
    show "taddr t \<noteq> ?start" using heap_shape_tile(8) [OF ok, of t] that by auto
    show "taddr t \<noteq> p" using til that(1) by (intro tiled_others) auto
  qed
  have hdr: "header_ok h' t" if "t \<in> set (foldr glue xs (glue (Tile p s False) ys))" "\<not> taken t" for t
  proof -
    have "t \<in> set (foldr glue (xs @ [Tile p s False]) ys)" using that by simp
    from foldr_glue_members [OF this] that(2)
    obtain u where "u \<in> set (xs @ Tile p s False # ys)" "\<not> taken u" "taddr u = taddr t"
      by fastforce
    then have "ulStamp (h (taddr t)) = INTEGRITY_STAMP_FREE"
      using stamps by (auto) (metis taken_def)+
    with that(2) show ?thesis by (simp add: header_ok_def st)
  qed
  show thesis
  proof (rule that [OF h' _ hdr s0 _ _ taken_frame])
    show "free_chain h' (pxNextFreeBlock (h' ?start)) (free_of (foldr glue xs (glue (Tile p s False) ys))) e"
      using ch free_of_foldr_glue [OF til co] fields(1) by simp
    have "h' e = h e" using E P fr by (intro frame) auto
    then show "xBlockSize (h' e) = 0" "pxNextFreeBlock (h' e) = 0" using fields by simp_all
  qed
qed

lemma payload_pointer:
  assumes "heap_shape lay e ts" "t \<in> set ts"
  shows "unat (taddr t + xHeapStructSize) = unat (taddr t) + 32" "taddr t + xHeapStructSize \<noteq> 0"
    "32 dvd unat (taddr t + xHeapStructSize)"
proof -
  note P = heap_shape_tile [OF assms]
  have "32 \<le> unat (tsize t)" using P(3,4) by (simp add: dvd_imp_le)
  then show *: "unat (taddr t + xHeapStructSize) = unat (taddr t) + 32"
    using P(2) unat_add_below [of "taddr t" 32 e] by (simp add: alignment_constants)
  then show "taddr t + xHeapStructSize \<noteq> 0" by (metis add_eq_0_iff_both_eq_0 unat_0 zero_neq_numeral)
  show "32 dvd unat (taddr t + xHeapStructSize)" using * P(5) by simp
qed

lemma release_free_bytes:
  assumes "heap_ok lay st ts" "Tile p s True \<in> set ts"
  shows "free_bytes (release p ts) = free_bytes ts + unat s"
    "tiled (unat (aligned_heap lay)) (release p ts) (unat (pxUserEnd st))" "coalesced (release p ts)"
proof -
  note D = heap_okD [OF assms(1)]
  obtain xs ys where ts: "ts = xs @ Tile p s True # ys" using assms(2) by (meson split_list)
  have co: "coalesced ys" using coalesced_append [OF D(2) [unfolded ts]] coalesced_tl by blast
  have r: "release p ts = foldr glue (xs @ [Tile p s False]) ys"
    using release_split [OF D(1) [unfolded ts] co] by (simp add: ts)
  have t: "tiled (unat (aligned_heap lay)) ((xs @ [Tile p s False]) @ ys) (unat (pxUserEnd st))"
    using D(1) ts by (simp add: tiled_append)
  show "free_bytes (release p ts) = free_bytes ts + unat s"
    unfolding r free_bytes_foldr_glue [OF t] by (simp add: ts free_bytes_def)
  show "tiled (unat (aligned_heap lay)) (release p ts) (unat (pxUserEnd st))"
    unfolding r using t by (rule foldr_glue_tiled)
  show "coalesced (release p ts)" unfolding r using co by (rule foldr_glue_coalesced)
qed

lemma userfree_refines:
  assumes ok: "heap_ok lay st ts" and p: "Tile p s True \<in> set ts" and irq: "\<not> isIRQ kv"
  shows "\<exists>st'. userfree lay kv (p + xHeapStructSize) st = Inr st' \<and>
           heap_ok lay st' (release p ts) \<and> payload st' = payload st"
proof -
  let ?start = "addr_xUserStart lay" and ?e = "pxUserEnd st"
  obtain xs ys where ts: "ts = xs @ Tile p s True # ys" using p by (meson split_list)
  note D = heap_okD [OF ok] and R = release_free_bytes [OF ok p]
  note P = heap_shape_tile [OF D(11) p, simplified]
  have co: "coalesced xs" "coalesced ys"
    using coalesced_append [OF D(2) [unfolded ts]] coalesced_tl by blast+
  have hp: "xBlockSize (links st p) = s OR 0x80000000" "pxNextFreeBlock (links st p) = 0"
    "ulStamp (links st p) = INTEGRITY_STAMP_TAKEN"
    using D(4) [OF p] by (simp_all add: header_ok_def)
  define h where "h = set_size (set_stamp (links st) p INTEGRITY_STAMP_FREE) p s"
  have other: "h x = links st x" if "x \<noteq> p" for x using that by (simp add: h_def)
  have ne: "taddr t \<noteq> p" if "t \<in> set (xs @ ys)" for t
    using tiled_others [of _ xs p s True ys] D(1) ts that by auto
  have "free_chain h (pxNextFreeBlock (h ?start)) (free_of (xs @ ys)) ?e
        = free_chain (links st) (pxNextFreeBlock (links st ?start)) (free_of (xs @ ys)) ?e"
    using ne P(8) by (subst other, blast) (intro free_chain_cong, force simp: in_free_of other)
  then have chain: "free_chain h (pxNextFreeBlock (h ?start)) (free_of (xs @ ys)) ?e"
    using D(3) by (simp add: ts)
  have hdr: "header_ok h t" if "t \<in> set (xs @ ys)" for t
    using D(4) [of t] header_ok_cong [of h t "links st"] other [OF ne [OF that]] that by (auto simp: ts)
  have "ulStamp (h p) = INTEGRITY_STAMP_FREE" "xBlockSize (h p) = s" "xBlockSize (h ?start) = 0"
    "xBlockSize (h ?e) = 0" "pxNextFreeBlock (h ?e) = 0"
    using D(8-10) P(7,8) by (auto simp: h_def)
  then obtain h' where h': "prvInsertBlockIntoFreeList ?start ?e p h = Inr h'"
    "free_chain h' (pxNextFreeBlock (h' ?start)) (free_of (foldr glue xs (glue (Tile p s False) ys))) ?e"
    "\<And>t. t \<in> set (foldr glue xs (glue (Tile p s False) ys)) \<Longrightarrow> \<not> taken t \<Longrightarrow> header_ok h' t"
    "xBlockSize (h' ?start) = 0" "xBlockSize (h' ?e) = 0" "pxNextFreeBlock (h' ?e) = 0"
    and fr: "\<And>t. t \<in> set (xs @ ys) \<Longrightarrow> taken t \<Longrightarrow> h' (taddr t) = h (taddr t)"
    using insert_tile [OF D(11) [unfolded ts] co header_ok_free [OF hdr] _ chain] by metis
  have hdr': "header_ok h' t" if t: "t \<in> set (foldr glue xs (glue (Tile p s False) ys))" for t
  proof (cases "taken t")
    case True
    then have "t \<in> set (xs @ ys)"
      using foldr_glue_members [of t "xs @ [Tile p s False]" ys] t by auto
    with True show ?thesis using hdr fr header_ok_cong by metis
  qed (use h'(3) t in blast)
  have free: "unat (xUserFreeBytesRemaining st + s) = free_bytes (release p ts)"
    using free_bytes_le [OF R(2)] R(1) D(5) unat_add_below [of "xUserFreeBytesRemaining st" s ?e] by simp
  define st' where "st' = st\<lparr>links := h', xUserFreeBytesRemaining := xUserFreeBytesRemaining st + s\<rparr>"
  have "userfree lay kv (p + xHeapStructSize) st = Inr st'"
    using irq hp D(7) P(6) h'(1) payload_pointer(2) [OF D(11) p]
    by (simp add: userfree_def or_top_and_top or_top_clear_numeral st'_def Let_def h_def)
  moreover have "heap_ok lay st' (release p ts)"
  proof -
    have "release p ts = foldr glue xs (glue (Tile p s False) ys)"
      using release_split [OF D(1) [unfolded ts] co(2)] by (simp add: ts)
    moreover have "xUserMinimumEverFreeBytesRemaining st \<le> xUserFreeBytesRemaining st + s"
      using D(5,6) free R(1) by (simp add: word_le_nat_alt)
    ultimately show ?thesis
      using h' hdr' free R D unfolding heap_ok_def heap_shape_def st'_def by simp
  qed
  ultimately show ?thesis by (auto simp: st'_def)
qed

section \<open>Allocation\<close>

lemma foldr_glue_id: "coalesced (ts @ us) \<Longrightarrow> foldr glue ts us = ts @ us"
proof (induction ts)
  case (Cons t ts)
  then show ?case using coalesced_tl [of t "ts @ us"] glue_id [of t "ts @ us"] by simp
qed simp

lemma heap_shape_distinct:
  assumes "heap_shape lay e ts"
  shows "distinct (addr_xUserStart lay # map fst (free_of ts))"
proof -
  have "distinct (map fst (free_of ts))" if "tiled lo ts hi" for lo hi
    using that
  proof (induction ts arbitrary: lo)
    case (Cons t ts)
    have "\<forall>b\<in>set (free_of ts). fst b \<noteq> taddr t"
      using free_of_addr_bounds [of "lo + unat (tsize t)" ts hi] Cons.prems by fastforce
    with Cons show ?case by auto
  qed simp
  then show ?thesis
    using assms heap_shape_end(4) [OF assms] by (auto simp: heap_shape_def)
qed

text \<open>The last step of an allocation: a block that is not in the free list is marked as taken.\<close>

definition mark_taken :: "kernel_view \<Rightarrow> addr \<Rightarrow> (addr \<Rightarrow> block_link) \<Rightarrow> (addr \<Rightarrow> block_link)" where
  "mark_taken kv p h =
     h(p := (h p)\<lparr>xBlockSize := xBlockSize (h p) OR 0x80000000,
                  xAllocatingTask := xTaskGetCurrentTaskHandle kv,
                  xTimeAllocated := xTaskGetTickCount kv,
                  ulStamp := INTEGRITY_STAMP_TAKEN, pxNextFreeBlock := NULL\<rparr>)"

lemma mark_taken_sel [simp]:
  "x \<noteq> p \<Longrightarrow> mark_taken kv p h x = h x"
  "xBlockSize (mark_taken kv p h p) = xBlockSize (h p) OR 0x80000000"
  "ulStamp (mark_taken kv p h p) = INTEGRITY_STAMP_TAKEN"
  "pxNextFreeBlock (mark_taken kv p h p) = NULL"
  by (simp_all add: mark_taken_def)

lemma mark_taken_ok:
  assumes shape: "heap_shape lay (pxUserEnd st) (xs @ Tile p v True # zs)" "coalesced (xs @ Tile p v True # zs)"
    and chain: "free_chain h (pxNextFreeBlock (h (addr_xUserStart lay))) (free_of (xs @ zs)) (pxUserEnd st)"
    and hdr: "\<And>t. t \<in> set (xs @ zs) \<Longrightarrow> header_ok h t"
    and fields: "xBlockSize (h p) = v" "xBlockSize (h (addr_xUserStart lay)) = 0"
      "xBlockSize (h (pxUserEnd st)) = 0" "pxNextFreeBlock (h (pxUserEnd st)) = 0"
      "xBlockAllocatedBit st = 0x80000000"
    and free: "unat f = free_bytes (xs @ zs)" "l \<le> f"
  shows "heap_ok lay (st\<lparr>links := mark_taken kv p h, xUserFreeBytesRemaining := f,
                         xUserMinimumEverFreeBytesRemaining := l\<rparr>) (xs @ Tile p v True # zs)"
proof -
  let ?start = "addr_xUserStart lay" and ?e = "pxUserEnd st" and ?h = "mark_taken kv p h"
  note P = heap_shape_tile [OF shape(1), of "Tile p v True", simplified]
  have ne: "taddr t \<noteq> p" if "t \<in> set (xs @ zs)" for t
    using tiled_others [of _ xs p v True zs] shape(1) that by (auto simp: heap_shape_def)
  have "?h ?start = h ?start" "?h ?e = h ?e" using P by auto
  moreover have "free_chain ?h q (free_of (xs @ zs)) ?e = free_chain h q (free_of (xs @ zs)) ?e" for q
    using ne by (intro free_chain_cong) (force simp: in_free_of)
  moreover have "header_ok ?h t" if "t \<in> set (xs @ zs)" for t
    using header_ok_cong [of ?h t h] ne [OF that] hdr [OF that] by simp
  moreover have "header_ok ?h (Tile p v True)"
    using fields(1) by (simp add: header_ok_def)
  ultimately show ?thesis
    using shape chain fields free by (auto simp: heap_ok_def free_bytes_def)
qed

lemma take_block_result:
  assumes "xBlockAllocatedBit st = 0x80000000" "ulStamp (hb blk) = INTEGRITY_STAMP_FREE"
    and "pxNextFreeBlock (links st prev) = blk"
    and h1: "h1 = set_next (links st) prev (pxNextFreeBlock (links st blk))"
    and split: "(if xBlockSize (h1 blk) - w > heapMINIMUM_BLOCK_SIZE
             then if blk + w AND usermemBYTE_ALIGNMENT_MASK \<noteq> 0 then Inl AssertFailed
                  else prvInsertBlockIntoFreeList (addr_xUserStart lay) (pxUserEnd st) (blk + w)
                             (set_size (set_stamp (set_size h1 (blk + w) (xBlockSize (h1 blk) - w)) (blk + w)
                                          INTEGRITY_STAMP_FREE) blk w)
             else Inr h1) = Inr hb"
  shows "take_block lay kv st w prev blk =
    (let free = xUserFreeBytesRemaining st - xBlockSize (hb blk)
     in Inr (blk + xHeapStructSize,
          st\<lparr>links := mark_taken kv blk hb, xUserFreeBytesRemaining := free,
             xUserMinimumEverFreeBytesRemaining :=
               (if free < xUserMinimumEverFreeBytesRemaining st then free
                else xUserMinimumEverFreeBytesRemaining st)\<rparr>))"
  using assms(1-3)
  unfolding take_block_def Let_def h1 [symmetric] split bind_outcome.simps
  by (simp add: mark_taken_def)

text \<open>Unlinking the found block leaves a well-formed heap around it.\<close>

lemma unlink_found:
  assumes ok: "heap_ok lay st (xs @ Tile p s False # ys)"
    and fit: "w \<le> s" "\<forall>b\<in>set (free_of xs). snd b < w"
  obtains prev h1 where
    "find_first_fit (links st) (addr_xUserStart lay)
       (pxNextFreeBlock (links st (addr_xUserStart lay))) w = Some (prev, p)"
    "pxNextFreeBlock (links st prev) = p"
    "h1 = set_next (links st) prev (pxNextFreeBlock (links st p))"
    "free_chain h1 (pxNextFreeBlock (h1 (addr_xUserStart lay))) (free_of (xs @ ys)) (pxUserEnd st)"
    "\<And>t. t \<in> set (xs @ ys) \<Longrightarrow> header_ok h1 t"
    "\<And>x. xBlockSize (h1 x) = xBlockSize (links st x)" "\<And>x. ulStamp (h1 x) = ulStamp (links st x)"
    "pxNextFreeBlock (h1 (pxUserEnd st)) = 0" "xBlockSize (links st p) = s"
proof -
  let ?start = "addr_xUserStart lay" and ?ts = "xs @ Tile p s False # ys"
  note D = heap_okD [OF ok]
  have fr: "free_of ?ts = free_of xs @ (p, s) # free_of ys" by simp
  define prev where "prev = last (?start # map fst (free_of xs))"
  define h1 where "h1 = set_next (links st) prev (pxNextFreeBlock (links st p))"
  have prev_in: "prev = ?start \<or> (\<exists>b\<in>set (free_of xs). prev = fst b)"
    using last_in_set [of "map fst (free_of xs)"] by (cases "free_of xs = []") (auto simp: prev_def)
  have "\<forall>b\<in>set (free_of xs @ (p, s) # free_of ys). fst b \<noteq> 0"
    using heap_shape_free_addr(3) [OF D(11)] unfolding fr by blast
  then have "find_first_fit (links st) ?start (pxNextFreeBlock (links st ?start)) w = Some (prev, p)"
    unfolding prev_def using D(3) fit by (intro find_first_fit_some) (simp_all only: fr)
  moreover have "pxNextFreeBlock (links st prev) = p" "xBlockSize (links st p) = s"
    using chain_last_next [OF D(3) [unfolded fr]] by (simp_all add: prev_def)
  moreover have "free_chain h1 (pxNextFreeBlock (h1 ?start)) (free_of (xs @ ys)) (pxUserEnd st)"
    using unlink_chain [OF D(3) [unfolded fr]] heap_shape_distinct [OF D(11)]
    by (simp add: fr prev_def h1_def)
  moreover have "header_ok h1 t" if t: "t \<in> set (xs @ ys)" for t
  proof (cases "taken t")
    case True
    have "taddr t \<noteq> prev"
      using prev_in heap_shape_tile(8) [OF D(11), of t] heap_shape_free_addr(4) [OF D(11), of _ t] t True
      by (auto simp: fr)
    then show ?thesis using header_ok_cong [of h1 t "links st"] D(4) [of t] t by (auto simp: h1_def)
  next
    case False
    then show ?thesis using D(4) [of t] t by (auto simp: header_ok_def h1_def)
  qed
  moreover have "pxUserEnd st \<noteq> prev"
    using prev_in heap_shape_end [OF D(11)] by (auto simp: fr image_iff)
  ultimately show thesis
    using that [of prev h1] D(10) by (simp add: h1_def)
qed

lemma take_whole_block:
  assumes ok: "heap_ok lay st (xs @ Tile p s False # ys)"
    and fit: "w \<le> s" "\<forall>b\<in>set (free_of xs). snd b < w"
    and small: "\<not> s - w > heapMINIMUM_BLOCK_SIZE"
  shows "\<exists>prev st'. find_first_fit (links st) (addr_xUserStart lay)
       (pxNextFreeBlock (links st (addr_xUserStart lay))) w = Some (prev, p) \<and>
     take_block lay kv st w prev p = Inr (p + xHeapStructSize, st') \<and>
     heap_ok lay st' (xs @ Tile p s True # ys) \<and> payload st' = payload st"
proof -
  note D = heap_okD [OF ok]
  obtain prev h1 where find: "find_first_fit (links st) (addr_xUserStart lay)
       (pxNextFreeBlock (links st (addr_xUserStart lay))) w = Some (prev, p)"
    and h1: "pxNextFreeBlock (links st prev) = p" "h1 = set_next (links st) prev (pxNextFreeBlock (links st p))"
    and ch: "free_chain h1 (pxNextFreeBlock (h1 (addr_xUserStart lay))) (free_of (xs @ ys)) (pxUserEnd st)"
    and hdr: "\<And>t. t \<in> set (xs @ ys) \<Longrightarrow> header_ok h1 t"
    and sel: "\<And>x. xBlockSize (h1 x) = xBlockSize (links st x)" "\<And>x. ulStamp (h1 x) = ulStamp (links st x)"
      "pxNextFreeBlock (h1 (pxUserEnd st)) = 0" "xBlockSize (links st p) = s"
    using unlink_found [OF ok fit] by metis
  have stamp: "ulStamp (h1 p) = INTEGRITY_STAMP_FREE"
    using D(4) [of "Tile p s False"] sel by (simp add: header_ok_def)
  define f where "f = xUserFreeBytesRemaining st - s"
  have "free_bytes (xs @ Tile p s False # ys) = free_bytes (xs @ ys) + unat s"
    by (simp add: free_bytes_def)
  then have f: "unat f = free_bytes (xs @ ys)"
    unfolding f_def using D(5) by (subst unat_sub_no_wrap) simp_all
  have "heap_shape lay (pxUserEnd st) (xs @ Tile p s True # ys)" "coalesced (xs @ Tile p s True # ys)"
    using D(11) D(2) coalesced_taken_mid by (auto simp: heap_shape_def tiled_append)
  then have "heap_ok lay (st\<lparr>links := mark_taken kv p h1, xUserFreeBytesRemaining := f,
      xUserMinimumEverFreeBytesRemaining := (if f < xUserMinimumEverFreeBytesRemaining st then f
                else xUserMinimumEverFreeBytesRemaining st)\<rparr>) (xs @ Tile p s True # ys)"
    using D ch hdr sel f by (intro mark_taken_ok) auto
  moreover have "take_block lay kv st w prev p = Inr (p + xHeapStructSize,
      st\<lparr>links := mark_taken kv p h1, xUserFreeBytesRemaining := f,
         xUserMinimumEverFreeBytesRemaining := (if f < xUserMinimumEverFreeBytesRemaining st then f
                else xUserMinimumEverFreeBytesRemaining st)\<rparr>)"
    using take_block_result [where hb = h1 and blk = p, OF D(7) stamp h1, of w lay kv] small sel(1,4)
    by (simp only: Let_def f_def if_False simp_thms)
  ultimately show ?thesis using find by fastforce
qed

lemma take_split_block:
  assumes ok: "heap_ok lay st (xs @ Tile p s False # ys)"
    and fit: "w \<le> s" "\<forall>b\<in>set (free_of xs). snd b < w" "0 < unat w" "32 dvd unat w"
    and big: "s - w > heapMINIMUM_BLOCK_SIZE"
  shows "\<exists>prev st'. find_first_fit (links st) (addr_xUserStart lay)
       (pxNextFreeBlock (links st (addr_xUserStart lay))) w = Some (prev, p) \<and>
     take_block lay kv st w prev p = Inr (p + xHeapStructSize, st') \<and>
     heap_ok lay st' (xs @ Tile p w True # Tile (p + w) (s - w) False # ys) \<and>
     payload st' = payload st"
proof -
  let ?start = "addr_xUserStart lay" and ?e = "pxUserEnd st" and ?q = "p + w"
  let ?us = "xs @ Tile p w True # Tile ?q (s - w) False # ys" and ?xs = "xs @ [Tile p w True]"
  note D = heap_okD [OF ok] and P = heap_shape_tile [OF heap_okD(11) [OF ok], of "Tile p s False", simplified]
  obtain prev h1 where find: "find_first_fit (links st) ?start (pxNextFreeBlock (links st ?start)) w = Some (prev, p)"
    and h1: "pxNextFreeBlock (links st prev) = p" "h1 = set_next (links st) prev (pxNextFreeBlock (links st p))"
    and ch: "free_chain h1 (pxNextFreeBlock (h1 ?start)) (free_of (xs @ ys)) ?e"
    and hdr: "\<And>t. t \<in> set (xs @ ys) \<Longrightarrow> header_ok h1 t"
    and sel: "\<And>x. xBlockSize (h1 x) = xBlockSize (links st x)" "\<And>x. ulStamp (h1 x) = ulStamp (links st x)"
      "pxNextFreeBlock (h1 ?e) = 0" "xBlockSize (links st p) = s"
    using unlink_found [OF ok fit(1,2)] by metis
  have "split_tile w (Tile p s False) = [Tile p w True, Tile ?q (s - w) False]"
    using big by (simp add: split_tile_def)
  then have til: "tiled (unat (aligned_heap lay)) ?us (unat ?e)" and co: "coalesced ?us"
    using D(1) D(2) split_tile_tiled [OF _ fit(1,3,4), of _ p ys ?e] coalesced_split
    by (auto simp: tiled_append)
  have shape: "heap_shape lay ?e (?xs @ Tile ?q (s - w) True # ys)" "heap_shape lay ?e ?us"
    using til D(11) by (auto simp: heap_shape_def tiled_append)
  note Q = heap_shape_tile [OF shape(1), of "Tile ?q (s - w) True", simplified]
  have ne: "p \<noteq> ?q" "\<And>t. t \<in> set (xs @ ys) \<Longrightarrow> taddr t \<noteq> p \<and> taddr t \<noteq> ?q"
    using tiled_others [OF shape(1) [unfolded heap_shape_def, THEN conjunct1]] tiled_others [OF til]
    by force+
  have coxy: "coalesced ?xs" "coalesced ys"
    using coalesced_append [of ?xs "Tile ?q (s - w) False # ys"] co coalesced_tl by auto
  define h where "h = set_size (set_stamp (set_size h1 ?q (s - w)) ?q INTEGRITY_STAMP_FREE) p w"
  have other: "h x = h1 x" if "x \<noteq> p" "x \<noteq> ?q" for x using that by (simp add: h_def)
  have hfree: "ulStamp (h (taddr t)) = INTEGRITY_STAMP_FREE" if "t \<in> set (?xs @ ys)" "\<not> taken t" for t
    using that header_ok_free [OF hdr, of t] by (auto simp: h_def)
  have chain: "free_chain h (pxNextFreeBlock (h ?start)) (free_of (?xs @ ys)) ?e"
  proof -
    have "free_chain h x (free_of (xs @ ys)) ?e = free_chain h1 x (free_of (xs @ ys)) ?e" for x
      using ne by (intro free_chain_cong) (force simp: in_free_of other)
    then show ?thesis using ch P(8) Q(8) by (simp add: other)
  qed
  have fields: "ulStamp (h ?q) = INTEGRITY_STAMP_FREE" "xBlockSize (h ?q) = s - w"
    "xBlockSize (h ?start) = 0" "xBlockSize (h ?e) = 0" "pxNextFreeBlock (h ?e) = 0"
    using D(8-10) P(7,8) Q(7,8) sel ne(1) by (auto simp: h_def)
  obtain h2 where ins: "prvInsertBlockIntoFreeList ?start ?e ?q h = Inr h2"
    and ch2: "free_chain h2 (pxNextFreeBlock (h2 ?start)) (free_of (foldr glue ?xs (glue (Tile ?q (s - w) False) ys))) ?e"
    and free2: "\<And>t. t \<in> set (foldr glue ?xs (glue (Tile ?q (s - w) False) ys)) \<Longrightarrow> \<not> taken t \<Longrightarrow> header_ok h2 t"
    and f2: "xBlockSize (h2 ?start) = 0" "xBlockSize (h2 ?e) = 0" "pxNextFreeBlock (h2 ?e) = 0"
    and fr2: "\<And>t. t \<in> set (?xs @ ys) \<Longrightarrow> taken t \<Longrightarrow> h2 (taddr t) = h (taddr t)"
    using insert_tile [OF shape(1) coxy hfree fields(1) chain fields(2-5)] by metis
  have glued: "foldr glue ?xs (glue (Tile ?q (s - w) False) ys) = ?us"
    using foldr_glue_id [of "?xs @ [Tile ?q (s - w) False]" ys] co by simp
  have h2p: "h2 p = h p" using fr2 [of "Tile p w True"] by simp
  have hdr2: "header_ok h2 t" if t: "t \<in> set (xs @ Tile ?q (s - w) False # ys)" for t
  proof (cases "taken t")
    case True
    then have "t \<in> set (xs @ ys)" using t by auto
    moreover have "h2 (taddr t) = h (taddr t)" using fr2 [of t] t True by auto
    ultimately show ?thesis using hdr ne(2) header_ok_cong [of h2 t h1] other by simp
  qed (use free2 glued t in auto)
  have p2: "xBlockSize (h2 p) = w" "ulStamp (h2 p) = INTEGRITY_STAMP_FREE"
    using D(4) [of "Tile p s False"] sel ne(1) unfolding h2p by (simp_all add: header_ok_def h_def)
  define f where "f = xUserFreeBytesRemaining st - w"
  have "unat (s - w) = unat s - unat w" "unat w \<le> unat s"
    using fit(1) by (simp_all add: word_le_nat_alt unat_sub_no_wrap)
  then have "free_bytes (xs @ Tile p s False # ys) = free_bytes (xs @ Tile ?q (s - w) False # ys) + unat w"
    by (simp add: free_bytes_def)
  then have f: "unat f = free_bytes (xs @ Tile ?q (s - w) False # ys)"
    unfolding f_def using D(5) by (subst unat_sub_no_wrap) simp_all
  have "heap_ok lay (st\<lparr>links := mark_taken kv p h2, xUserFreeBytesRemaining := f,
      xUserMinimumEverFreeBytesRemaining := (if f < xUserMinimumEverFreeBytesRemaining st then f
                else xUserMinimumEverFreeBytesRemaining st)\<rparr>) ?us"
    using D ch2 hdr2 p2 f f2 shape(2) co unfolding glued by (intro mark_taken_ok) auto
  moreover have "\<not> ?q AND usermemBYTE_ALIGNMENT_MASK \<noteq> 0" using Q(5) by (simp add: aligned_iff)
  then have "take_block lay kv st w prev p = Inr (p + xHeapStructSize,
      st\<lparr>links := mark_taken kv p h2, xUserFreeBytesRemaining := f,
         xUserMinimumEverFreeBytesRemaining := (if f < xUserMinimumEverFreeBytesRemaining st then f
                else xUserMinimumEverFreeBytesRemaining st)\<rparr>)"
    using take_block_result [where hb = h2 and blk = p, OF D(7) p2(2) h1, of w lay kv]
      big sel(1,4) ins p2(1)
    by (simp only: Let_def f_def h_def if_False if_True simp_thms)
  ultimately show ?thesis using find by fastforce
qed

text \<open>
  The allocation proper follows \<open>carve\<close>: it takes the block \<open>carve\<close> takes, and leaves the state as it
  is when \<open>carve\<close> finds none.
\<close>

lemma take_block_refines:
  assumes ok: "heap_ok lay st ts" and w: "0 < unat w" "32 dvd unat w" and c: "carve w ts = Some (p, us)"
  shows "\<exists>prev st'. find_first_fit (links st) (addr_xUserStart lay)
       (pxNextFreeBlock (links st (addr_xUserStart lay))) w = Some (prev, p) \<and>
     take_block lay kv st w prev p = Inr (p + xHeapStructSize, st') \<and>
     heap_ok lay st' us \<and> payload st' = payload st"
  using c
proof (rule carve_SomeE)
  fix xs s ys
  assume eq: "ts = xs @ Tile p s False # ys" "us = xs @ split_tile w (Tile p s False) @ ys"
    and fit: "w \<le> s" "\<forall>b\<in>set (free_of xs). snd b < w"
  note ok' = ok [unfolded eq(1)]
  show ?thesis
  proof (cases "s - w > heapMINIMUM_BLOCK_SIZE")
    case True
    then show ?thesis
      using take_split_block [OF ok' fit w True, of kv] by (simp add: eq(2) split_tile_def)
  next
    case False
    then show ?thesis
      using take_whole_block [OF ok' fit False, of kv] by (simp add: eq(2) split_tile_def)
  qed
qed

lemma carve_fits:
  assumes "heap_ok lay st ts" "carve w ts = Some (p, us)"
  shows "w \<le> xUserFreeBytesRemaining st" "p \<noteq> pxUserEnd st"
proof -
  note D = heap_okD [OF assms(1)]
  obtain xs s ys where ts: "ts = xs @ Tile p s False # ys" and ws: "w \<le> s"
    using assms(2) by (rule carve_SomeE)
  have "unat s \<le> free_bytes ts" by (simp add: ts free_bytes_def)
  then show "w \<le> xUserFreeBytesRemaining st" using ws D(5) by (simp add: word_le_nat_alt)
  show "p \<noteq> pxUserEnd st" using heap_shape_tile(7) [OF D(11), of "Tile p s False"] ts by auto
qed

lemma usermalloc_locked_refines:
  assumes ok: "heap_ok lay st ts" and n: "0 < unat n" "unat n < 2 ^ 31"
  shows "case carve (adjusted_size n) ts of
           None \<Rightarrow> usermalloc_locked lay kv n st = Inr (NULL, st)
         | Some (p, us) \<Rightarrow> \<exists>st'. usermalloc_locked lay kv n st = Inr (p + xHeapStructSize, st') \<and>
                              heap_ok lay st' us \<and> payload st' = payload st"
proof -
  let ?start = "addr_xUserStart lay" and ?w = "adjusted_size n"
  note D = heap_okD [OF ok] and A = adjusted_size_bounds [OF n]
  have w: "0 < unat ?w" using A(1) by simp
  have bit: "n AND xBlockAllocatedBit st = 0" using n(2) D(7) by (simp add: top_bit_clear_iff)
  have pos: "?w > 0" and al: "?w AND usermemBYTE_ALIGNMENT_MASK = 0"
    using w A(3) by (simp_all add: word_less_nat_alt aligned_iff)
  have init: "pxUserEnd st \<noteq> 0" by (rule heap_shape_end(1) [OF D(11)])
  show ?thesis
  proof (cases "carve ?w ts")
    case None
    then have "\<forall>b\<in>set (free_of ts). snd b < ?w" by (simp only: carve_None)
    moreover have "\<forall>b\<in>set (free_of ts). fst b \<noteq> 0" using heap_shape_free_addr(3) [OF D(11)] by blast
    ultimately obtain q where
      "find_first_fit (links st) ?start (pxNextFreeBlock (links st ?start)) ?w = Some (q, pxUserEnd st)"
      using find_first_fit_none [OF D(3) _ _ init D(10)] by blast
    then show ?thesis
      using None bit init al by (simp add: usermalloc_locked_def Let_def)
  next
    case (Some c)
    obtain p us where c: "carve ?w ts = Some (p, us)" using Some by (cases c) auto
    obtain prev st' where
      "find_first_fit (links st) ?start (pxNextFreeBlock (links st ?start)) ?w = Some (prev, p)"
      "take_block lay kv st ?w prev p = Inr (p + xHeapStructSize, st')"
      "heap_ok lay st' us" "payload st' = payload st"
      using take_block_refines [OF ok w A(3) c] by metis
    then show ?thesis
      using c bit init pos al carve_fits [OF ok c] by (simp add: usermalloc_locked_def Let_def)
  qed
qed

end
