(* ===== verification/Allocator.thy ===== *)
theory Allocator
  imports Prelude
begin

text \<open>
  The contract between a heap and its clients. A heap state is seen through its live blocks (payload
  pointer to usable bytes) and the bytes stored in memory; the laws say what an allocation and a
  release do to that view. The clients' lemmas are proved here once, from the laws only; \<open>UserHeap\<close>
  shows that the allocator of \<^verbatim>\<open>usermem.c\<close> satisfies them.
\<close>

text \<open>Every live block other than \<open>p\<close> keeps its contents.\<close>

definition keeps :: "(addr \<rightharpoonup> nat) \<Rightarrow> addr \<Rightarrow> bytes \<Rightarrow> bytes \<Rightarrow> bool" where
  "keeps B p b b' \<longleftrightarrow> (\<forall>q k i. B q = Some k \<longrightarrow> q \<noteq> p \<longrightarrow> i < k \<longrightarrow> b' (q + of_nat i) = b (q + of_nat i))"

locale heap_service =
  fixes view :: "'s \<Rightarrow> (addr \<rightharpoonup> nat) \<Rightarrow> bool"
    and alloc :: "u32 \<Rightarrow> 's \<Rightarrow> (addr \<times> 's) outcome"
    and dispose :: "addr \<Rightarrow> 's \<Rightarrow> 's outcome"
    and contents :: "'s \<Rightarrow> bytes"
    and poke :: "bytes \<Rightarrow> 's \<Rightarrow> 's"
  assumes alloc_law: "view st B \<Longrightarrow>
      alloc n st = Inl Aborted \<or>
      (\<exists>p m st'. alloc n st = Inr (p, st') \<and> B p = None \<and> unat n \<le> m \<and>
                 view st' (B(p \<mapsto> m)) \<and> contents st' = contents st)"
    and dispose_law: "view st B \<Longrightarrow> B p = Some m \<Longrightarrow>
      \<exists>st'. dispose p st = Inr st' \<and> view st' (B(p := None)) \<and> contents st' = contents st"
    and disjoint_law: "view st B \<Longrightarrow> B p = Some m \<Longrightarrow> B q = Some k \<Longrightarrow> p \<noteq> q \<Longrightarrow>
      unat p + m \<le> unat q \<or> unat q + k \<le> unat p"
    and bounds_law: "view st B \<Longrightarrow> B p = Some m \<Longrightarrow> p \<noteq> NULL \<and> unat p + m < 2 ^ 32"
    and poke_law: "view st B \<Longrightarrow> view (poke b st) B" "contents (poke b st) = b"
begin

lemma alloc_SomeE:
  assumes "view st B" "alloc n st = Inr (p, st')"
  obtains m where "B p = None" "unat n \<le> m" "view st' (B(p \<mapsto> m))" "contents st' = contents st" "p \<noteq> NULL"
  using alloc_law [OF assms(1), of n] assms(2) bounds_law [of st' "B(p \<mapsto> _)" p] by fastforce

lemma write_keeps:
  assumes v: "view st (B(p \<mapsto> m))" and n: "unat n \<le> m"
    and w: "\<And>q i k. unat p + unat n \<le> 4294967296 \<Longrightarrow> unat q + k \<le> 4294967296 \<Longrightarrow> i < k \<Longrightarrow>
        unat q + k \<le> unat p \<or> unat p + unat n \<le> unat q \<Longrightarrow> b' (q + of_nat i) = b (q + of_nat i)"
  shows "keeps B p b b'"
  unfolding keeps_def
proof (intro allI impI)
  fix q k i assume q: "B q = Some k" "q \<noteq> p" "i < k"
  then have "unat p + m \<le> unat q \<or> unat q + k \<le> unat p" "unat q + k < 2 ^ 32"
    using disjoint_law [OF v, of p m q k] bounds_law [OF v, of q k] by auto
  moreover have "unat p + m < 2 ^ 32" using bounds_law [OF v, of p m] by simp
  ultimately show "b' (q + of_nat i) = b (q + of_nat i)"
    using n q(3) by (intro w) auto
qed

text \<open>Allocate and fill: what \<^verbatim>\<open>calloc\<close> does.\<close>

lemma alloc_fill:
  assumes "view st B" "alloc n st = Inr (p, st')"
  obtains m where "B p = None" "unat n \<le> m" "p \<noteq> NULL"
    "view (poke (memset p v n (contents st')) st') (B(p \<mapsto> m))"
    "\<And>i. i < unat n \<Longrightarrow> contents (poke (memset p v n (contents st')) st') (p + of_nat i) = v"
    "keeps B p (contents st) (contents (poke (memset p v n (contents st')) st'))"
  using assms
proof (rule alloc_SomeE)
  fix m
  assume m: "B p = None" "unat n \<le> m" "view st' (B(p \<mapsto> m))" "contents st' = contents st" "p \<noteq> NULL"
  show thesis
  proof (rule that [OF m(1,2,5)])
    show "view (poke (memset p v n (contents st')) st') (B(p \<mapsto> m))"
      using m(3) by (rule poke_law)
    show "contents (poke (memset p v n (contents st')) st') (p + of_nat i) = v" if "i < unat n" for i
      using that by (simp add: poke_law byte_memory)
    show "keeps B p (contents st) (contents (poke (memset p v n (contents st')) st'))"
      using m by (intro write_keeps [OF m(3,2)]) (simp add: poke_law memset_outside)
  qed
qed

text \<open>Allocate, copy \<open>c\<close> bytes from an old block, dispose of the old block: what \<^verbatim>\<open>realloc\<close> does.\<close>

lemma alloc_copy_dispose:
  assumes v: "view st B" and old: "B old = Some k" and a: "alloc n st = Inr (p, st1)"
    and c: "unat c \<le> unat n" and b: "b = memcpy p old c (contents st1)"
  obtains m st2 where "dispose old (poke b st1) = Inr st2" "B p = None" "unat n \<le> m"
    "view st2 (B(old := None, p \<mapsto> m))"
    "\<And>i. i < unat c \<Longrightarrow> contents st2 (p + of_nat i) = contents st (old + of_nat i)"
    "keeps B p (contents st) (contents st2)"
  using v a
proof (rule alloc_SomeE)
  fix m
  assume m: "B p = None" "unat n \<le> m" "view st1 (B(p \<mapsto> m))" "contents st1 = contents st" "p \<noteq> NULL"
  have "view (poke b st1) (B(p \<mapsto> m))" "(B(p \<mapsto> m)) old = Some k"
    using m old poke_law by auto
  then obtain st2 where st2: "dispose old (poke b st1) = Inr st2"
    "view st2 ((B(p \<mapsto> m))(old := None))" "contents st2 = b"
    using dispose_law [of "poke b st1" "B(p \<mapsto> m)" old k] poke_law by auto
  show thesis
  proof (rule that [OF st2(1) m(1,2)])
    have "p \<noteq> old" using m(1) old by auto
    then show "view st2 (B(old := None, p \<mapsto> m))" using st2(2) by (simp add: fun_upd_twist)
    show "contents st2 (p + of_nat i) = contents st (old + of_nat i)" if "i < unat c" for i
      using that m(4) by (simp add: st2(3) b byte_memory)
    show "keeps B p (contents st) (contents st2)"
      unfolding st2(3) b m(4)
      using c m(2) by (intro write_keeps [OF m(3), of c]) (simp_all add: memcpy_outside)
  qed
qed

end

end
