(* ===== verification/UserHeap.thy ===== *)
theory UserHeap
  imports HeapRefine Allocator
begin

text \<open>
  What a caller of \<^verbatim>\<open>usermem.c\<close> can rely on. \<open>usermalloc\<close> and \<open>userfree\<close> are related to the
  specification of \<open>HeapSpec\<close> on every branch, shown to satisfy the contract of \<open>Allocator\<close>, and the
  contract is lifted to every state an application can drive the heap into.
\<close>

section \<open>Refinement of the two entry points\<close>

definition alloc_spec :: "u32 \<Rightarrow> tile list \<Rightarrow> (addr \<times> tile list) option" where
  "alloc_spec n ts = (if 0 < unat n \<and> unat n < 2 ^ 31 then carve (adjusted_size n) ts else None)"

lemma usermalloc_locked_refused:
  assumes "heap_ok lay st ts" and n: "\<not> (0 < unat n \<and> unat n < 2 ^ 31)"
  shows "usermalloc_locked lay kv n st = Inr (NULL, st)"
proof -
  note D = heap_okD [OF assms(1)]
  have init: "pxUserEnd st \<noteq> 0" by (rule heap_shape_end(1) [OF D(11)])
  show ?thesis
  proof (cases "unat n = 0")
    case True
    then have "n = 0" by (simp add: unat_eq_0)
    then show ?thesis using init by (simp add: usermalloc_locked_def adjusted_size_def Let_def)
  next
    case False
    then have "n AND xBlockAllocatedBit st \<noteq> 0"
      using n D(7) top_bit_clear_iff [of n] by simp
    then show ?thesis using init by (simp add: usermalloc_locked_def Let_def)
  qed
qed

lemma usermalloc_refines:
  assumes ok: "heap_ok lay st ts" and irq: "\<not> isIRQ kv"
  shows "case alloc_spec n ts of
           None \<Rightarrow> usermalloc lay kv n st = Inl Aborted
         | Some (p, us) \<Rightarrow> \<exists>st'. usermalloc lay kv n st = Inr (p + xHeapStructSize, st') \<and>
                              heap_ok lay st' us \<and> payload st' = payload st"
proof (cases "alloc_spec n ts")
  case None
  then have "usermalloc_locked lay kv n st = Inr (NULL, st)"
    using usermalloc_locked_refused [OF ok, of n kv] usermalloc_locked_refines [OF ok, of n kv]
    by (auto simp: alloc_spec_def split: if_splits)
  then show ?thesis using None irq by (simp add: usermalloc_def vApplicationMallocFailedHook_def)
next
  case (Some c)
  obtain p us where c: "alloc_spec n ts = Some (p, us)" using Some by (cases c) auto
  then have n: "0 < unat n" "unat n < 2 ^ 31" and cv: "carve (adjusted_size n) ts = Some (p, us)"
    by (auto simp: alloc_spec_def split: if_splits)
  obtain st' where st': "usermalloc_locked lay kv n st = Inr (p + xHeapStructSize, st')"
    "heap_ok lay st' us" "payload st' = payload st"
    using usermalloc_locked_refines [OF ok n, of kv] cv by auto
  obtain xs s ys where ts: "ts = xs @ Tile p s False # ys" using cv by (rule carve_SomeE)
  note pp = payload_pointer [OF heap_okD(11) [OF ok], of "Tile p s False", simplified, unfolded ts, simplified]
  have "p + xHeapStructSize \<noteq> 0" "(p + xHeapStructSize) AND usermemBYTE_ALIGNMENT_MASK = 0"
    using payload_pointer [OF heap_okD(11) [OF ok], of "Tile p s False"] ts by (auto simp: aligned_iff)
  then show ?thesis using c st' irq by (simp add: usermalloc_def)
qed

text \<open>The first call initialises the heap.\<close>

lemma usermalloc_boot:
  assumes "layout_ok lay" "pxUserEnd st = NULL"
  shows "usermalloc lay kv n st = usermalloc lay kv n (prvHeapInit lay st)"
  using assms prvHeapInit_ok(2) [OF assms(1)]
  by (simp add: usermalloc_def usermalloc_locked_def)

section \<open>Live blocks\<close>

text \<open>Payload pointers of the taken blocks with the bytes behind them that the caller may use.\<close>

definition live :: "tile list \<Rightarrow> addr \<rightharpoonup> nat" where
  "live ts = map_of (map (\<lambda>t. (taddr t + xHeapStructSize, unat (tsize t) - 32)) (filter taken ts))"

definition taken_set :: "tile list \<Rightarrow> tile set" where
  "taken_set ts = {t \<in> set ts. taken t}"

lemma live_dom: "live ts q = Some m \<Longrightarrow> \<exists>t\<in>taken_set ts. q = taddr t + xHeapStructSize \<and> m = unat (tsize t) - 32"
  unfolding live_def taken_set_def by (drule map_of_SomeD) auto

lemma live_member:
  assumes "tiled lo ts hi" "t \<in> taken_set ts"
  shows "live ts (taddr t + xHeapStructSize) = Some (unat (tsize t) - 32)"
  using assms
proof (induction ts arbitrary: lo)
  case (Cons u ts)
  have "taddr u \<noteq> taddr v" if "v \<in> set ts" for v
    using tiled_address_unique [OF Cons.prems(1), of u v] tiled_others [of lo "[]" "taddr u" "tsize u" "taken u" ts hi v]
      Cons.prems(1) that by auto
  then have ne: "taddr t \<noteq> taddr u" if "t \<noteq> u" using Cons.prems(2) that by (force simp: taken_set_def)
  show ?case
  proof (cases "t = u")
    case True
    then show ?thesis using Cons.prems(2) by (simp add: live_def taken_set_def)
  next
    case False
    then have "t \<in> taken_set ts" using Cons.prems(2) by (simp add: taken_set_def)
    then show ?thesis using Cons ne [OF False] by (auto simp: live_def)
  qed
qed (simp add: taken_set_def)

lemma live_iff:
  assumes "tiled lo ts hi"
  shows "live ts q = Some m \<longleftrightarrow> (\<exists>t\<in>taken_set ts. q = taddr t + xHeapStructSize \<and> m = unat (tsize t) - 32)"
  using live_dom live_member [OF assms] by auto

lemma live_None_iff:
  assumes "tiled lo ts hi"
  shows "live ts q = None \<longleftrightarrow> (\<forall>t\<in>taken_set ts. q \<noteq> taddr t + xHeapStructSize)"
  using live_iff [OF assms, of q] by (cases "live ts q") auto

lemma live_insert:
  assumes "tiled lo ts hi" "tiled lo' us hi'" "taken_set us = insert (Tile p s True) (taken_set ts)"
    and "live ts (p + xHeapStructSize) = None"
  shows "live us = (live ts)(p + xHeapStructSize \<mapsto> unat s - 32)"
proof
  fix q
  show "live us q = ((live ts)(p + xHeapStructSize \<mapsto> unat s - 32)) q"
  proof (cases "q = p + xHeapStructSize")
    case True
    then show ?thesis using live_member [OF assms(2), of "Tile p s True"] assms(3) by simp
  next
    case False
    have "live us q = Some m \<longleftrightarrow> live ts q = Some m" for m
      unfolding live_iff [OF assms(1)] live_iff [OF assms(2)] assms(3) using False by auto
    then show ?thesis using False by (metis fun_upd_other not_None_eq)
  qed
qed

lemma live_remove:
  assumes "tiled lo ts hi" "tiled lo' us hi'" "taken_set us = taken_set ts - {Tile p s True}"
    and "Tile p s True \<in> set ts"
  shows "live us = (live ts)(p + xHeapStructSize := None)"
proof
  fix q
  have unique: "t = Tile p s True" if "t \<in> taken_set ts" "taddr t = p" for t
    using tiled_address_unique [OF assms(1), of t "Tile p s True"] that assms(4) by (auto simp: taken_set_def)
  show "live us q = ((live ts)(p + xHeapStructSize := None)) q"
  proof (cases "q = p + xHeapStructSize")
    case True
    then show ?thesis using unique by (auto simp: live_None_iff [OF assms(2)] assms(3))
  next
    case False
    have "live us q = Some m \<longleftrightarrow> live ts q = Some m" for m
      unfolding live_iff [OF assms(1)] live_iff [OF assms(2)] assms(3) using False by auto
    then show ?thesis using False by (metis fun_upd_other not_None_eq)
  qed
qed

lemma taken_foldr_glue: "taken_set (foldr glue ts us) = taken_set ts \<union> taken_set us"
proof (induction ts)
  case (Cons t ts)
  have "taken_set (glue t vs) = taken_set (t # vs)" for vs
    by (cases vs) (auto simp: taken_set_def)
  with Cons show ?case by (auto simp: taken_set_def)
qed (simp add: taken_set_def)

lemma live_release:
  assumes ok: "heap_ok lay st ts" and p: "Tile p s True \<in> set ts"
  shows "live (release p ts) = (live ts)(p + xHeapStructSize := None)"
proof -
  note D = heap_okD [OF ok] and R = release_free_bytes [OF ok p]
  obtain xs ys where ts: "ts = xs @ Tile p s True # ys" using p by (meson split_list)
  have "coalesced ys" using coalesced_append [OF D(2) [unfolded ts]] coalesced_tl by blast
  then have "release p ts = foldr glue (xs @ [Tile p s False]) ys"
    using release_split [OF D(1) [unfolded ts]] by (simp add: ts)
  then have "taken_set (release p ts) = taken_set (xs @ ys)"
    by (simp add: taken_foldr_glue del: foldr_append) (auto simp: taken_set_def)
  moreover have "Tile p s True \<notin> set (xs @ ys)"
    using tiled_others [OF D(1) [unfolded ts], of "Tile p s True"] by auto
  ultimately have "taken_set (release p ts) = taken_set ts - {Tile p s True}"
    by (auto simp: ts taken_set_def)
  with D(1) R(2) p show ?thesis by (intro live_remove)
qed

lemma live_carve:
  assumes ok: "heap_ok lay st ts" and c: "carve w ts = Some (p, us)"
    and w: "32 \<le> unat w" "32 dvd unat w"
  shows "\<exists>m. unat w - 32 \<le> m \<and> live ts (p + xHeapStructSize) = None \<and>
             live us = (live ts)(p + xHeapStructSize \<mapsto> m)"
  using c
proof (rule carve_SomeE)
  fix xs s ys
  assume eq: "ts = xs @ Tile p s False # ys" "us = xs @ split_tile w (Tile p s False) @ ys" and ws: "w \<le> s"
  note D = heap_okD [OF ok]
  have t: "tiled (unat (aligned_heap lay)) us (unat (pxUserEnd st))"
    using carve_tiled [OF c D(1)] w by auto
  have no: "live ts (p + xHeapStructSize) = None"
    unfolding live_None_iff [OF D(1)]
  proof
    fix t assume "t \<in> taken_set ts"
    then have "t \<in> set xs \<union> set ys" by (auto simp: taken_set_def eq(1))
    then show "p + xHeapStructSize \<noteq> taddr t + xHeapStructSize"
      using tiled_others [OF D(1) [unfolded eq(1)]] by auto
  qed
  define v where "v = (if s - w > heapMINIMUM_BLOCK_SIZE then w else s)"
  have v: "w \<le> v" "taken_set us = insert (Tile p v True) (taken_set ts)"
    using ws by (auto simp: v_def eq split_tile_def taken_set_def)
  then show ?thesis
    using live_insert [OF D(1) t v(2) no] no by (intro exI [of _ "unat v - 32"]) (auto simp: word_le_nat_alt)
qed

section \<open>The contract holds\<close>

definition heap_view :: "heap_layout \<Rightarrow> usermem \<Rightarrow> (addr \<rightharpoonup> nat) \<Rightarrow> bool" where
  "heap_view lay st B \<longleftrightarrow>
     (layout_ok lay \<and> pxUserEnd st = NULL \<and> B = Map.empty) \<or> (\<exists>ts. heap_ok lay st ts \<and> B = live ts)"

text \<open>A call made from a task, not from an interrupt handler.\<close>

definition in_task :: "kernel_view \<Rightarrow> kernel_view" where
  "in_task kv = kv\<lparr>isIRQ := False\<rparr>"

lemma in_task_simps [simp]: "\<not> isIRQ (in_task kv)" "\<not> isIRQ kv \<Longrightarrow> in_task kv = kv"
  by (simp_all add: in_task_def)

lemma live_initial [simp]: "live (initial_heap lay) = Map.empty"
  by (simp add: live_def initial_heap_def)

lemma usermalloc_view_ok:
  assumes ok: "heap_ok lay st ts" and irq: "\<not> isIRQ kv"
  shows "usermalloc lay kv n st = Inl Aborted \<or>
      (\<exists>p m st'. usermalloc lay kv n st = Inr (p, st') \<and> live ts p = None \<and> unat n \<le> m \<and>
                 heap_view lay st' ((live ts)(p \<mapsto> m)) \<and> payload st' = payload st)"
proof (cases "alloc_spec n ts")
  case None
  then show ?thesis using usermalloc_refines [OF ok irq, of n] by simp
next
  case (Some c)
  obtain p us where c: "alloc_spec n ts = Some (p, us)" using Some by (cases c) auto
  then have n: "0 < unat n" "unat n < 2 ^ 31" and cv: "carve (adjusted_size n) ts = Some (p, us)"
    by (auto simp: alloc_spec_def split: if_splits)
  note A = adjusted_size_bounds [OF n]
  obtain m where m: "unat (adjusted_size n) - 32 \<le> m" "live ts (p + xHeapStructSize) = None"
    "live us = (live ts)(p + xHeapStructSize \<mapsto> m)"
    using live_carve [OF ok cv] A by auto
  obtain st' where st': "usermalloc lay kv n st = Inr (p + xHeapStructSize, st')"
    "heap_ok lay st' us" "payload st' = payload st"
    using usermalloc_refines [OF ok irq, of n] c by auto
  have "heap_view lay st' ((live ts)(p + xHeapStructSize \<mapsto> m))"
    using st'(2) m(3) unfolding heap_view_def by metis
  moreover have "unat n \<le> m" using m(1) A(1) by linarith
  ultimately show ?thesis using st'(1,3) m(2) by blast
qed

lemma prvHeapInit_payload [simp]: "payload (prvHeapInit lay st) = payload st"
  by (simp add: prvHeapInit_eq Let_def)

lemma usermalloc_view:
  assumes v: "heap_view lay st B" and irq: "\<not> isIRQ kv"
  shows "usermalloc lay kv n st = Inl Aborted \<or>
      (\<exists>p m st'. usermalloc lay kv n st = Inr (p, st') \<and> B p = None \<and> unat n \<le> m \<and>
                 heap_view lay st' (B(p \<mapsto> m)) \<and> payload st' = payload st)"
  using v unfolding heap_view_def [of lay st B]
proof (elim disjE conjE exE)
  assume b: "layout_ok lay" "pxUserEnd st = NULL" "B = Map.empty"
  then show ?thesis
    using usermalloc_view_ok [OF prvHeapInit_ok(1) [OF b(1), of st] irq, of n]
      usermalloc_boot [OF b(1,2), of kv n] by simp
next
  fix ts assume "heap_ok lay st ts" "B = live ts"
  then show ?thesis using usermalloc_view_ok [OF _ irq, of lay st ts n] by simp
qed

lemma heap_view_liveE:
  assumes "heap_view lay st B" "B p = Some m"
  obtains ts t where "heap_ok lay st ts" "B = live ts" "t \<in> set ts" "taken t"
    "p = taddr t + xHeapStructSize" "m = unat (tsize t) - 32"
proof -
  from assms obtain ts where ts: "heap_ok lay st ts" "B = live ts" by (auto simp: heap_view_def)
  moreover obtain t where "t \<in> taken_set ts" "p = taddr t + xHeapStructSize" "m = unat (tsize t) - 32"
    using live_dom [of ts p m] assms(2) ts(2) by auto
  ultimately show thesis using that by (auto simp: taken_set_def)
qed

lemma userfree_view:
  assumes v: "heap_view lay st B" and p: "B p = Some m" and irq: "\<not> isIRQ kv"
  shows "\<exists>st'. userfree lay kv p st = Inr st' \<and> heap_view lay st' (B(p := None)) \<and> payload st' = payload st"
  using v p
proof (rule heap_view_liveE)
  fix ts t
  assume t: "heap_ok lay st ts" "B = live ts" "t \<in> set ts" "taken t" "p = taddr t + xHeapStructSize"
  have mem: "Tile (taddr t) (tsize t) True \<in> set ts" using t(3,4) by (metis tile.collapse)
  obtain st' where "userfree lay kv p st = Inr st'" "heap_ok lay st' (release (taddr t) ts)"
    "payload st' = payload st"
    using userfree_refines [OF t(1) mem irq] t(5) by blast
  then show ?thesis
    using live_release [OF t(1) mem] t(2,5) unfolding heap_view_def by metis
qed

lemma heap_view_block:
  assumes "heap_view lay st B" "B p = Some m"
  shows "p \<noteq> NULL" "32 dvd unat p" "unat (aligned_heap lay) + 32 \<le> unat p"
    "unat p + m \<le> unat (pxUserEnd st)"
  using assms
proof (rule_tac [!] heap_view_liveE [OF assms])
  fix ts t
  assume t: "heap_ok lay st ts" "t \<in> set ts" "p = taddr t + xHeapStructSize" "m = unat (tsize t) - 32"
  note H = heap_okD(11) [OF t(1)]
  note P = heap_shape_tile [OF H t(2)] and PP = payload_pointer [OF H t(2)]
  have "32 \<le> unat (tsize t)" using P(3,4) by (simp add: dvd_imp_le)
  then show "p \<noteq> NULL" "32 dvd unat p" "unat (aligned_heap lay) + 32 \<le> unat p"
    "unat p + m \<le> unat (pxUserEnd st)"
    using P PP t(3,4) by auto
qed

lemma heap_view_disjoint:
  assumes v: "heap_view lay st B" and p: "B p = Some m" and q: "B q = Some k" and ne: "p \<noteq> q"
  shows "unat p + m \<le> unat q \<or> unat q + k \<le> unat p"
  using v p
proof (rule heap_view_liveE)
  fix ts t
  assume t: "heap_ok lay st ts" "B = live ts" "t \<in> set ts" "p = taddr t + xHeapStructSize" "m = unat (tsize t) - 32"
  note H = heap_okD(1,11) [OF t(1)]
  obtain u where u: "u \<in> set ts" "q = taddr u + xHeapStructSize" "k = unat (tsize u) - 32"
    using live_dom [of ts q k] q t(2) by (auto simp: taken_set_def)
  have "t \<noteq> u" using ne t(4) u(2) by auto
  then show ?thesis
    using tiled_disjoint [OF H(1) t(3) u(1)] payload_pointer(1) [OF H(2) t(3)]
      payload_pointer(1) [OF H(2) u(1)] t(4,5) u(2,3) by auto
qed

lemma heap_ok_payload [simp]: "heap_ok lay (st\<lparr>payload := b\<rparr>) ts = heap_ok lay st ts"
  by (simp add: heap_ok_def)

lemma heap_view_payload: "heap_view lay (st\<lparr>payload := b\<rparr>) B = heap_view lay st B"
  by (simp add: heap_view_def)

interpretation user_heap: heap_service "heap_view lay" "usermalloc lay (in_task kv)"
  "userfree lay (in_task kv)" payload "\<lambda>b st. st\<lparr>payload := b\<rparr>" for lay kv
proof
  fix st B n p m q k b
  assume v: "heap_view lay st B"
  show "usermalloc lay (in_task kv) n st = Inl Aborted \<or>
      (\<exists>p m st'. usermalloc lay (in_task kv) n st = Inr (p, st') \<and> B p = None \<and> unat n \<le> m \<and>
                 heap_view lay st' (B(p \<mapsto> m)) \<and> payload st' = payload st)"
    using v by (rule usermalloc_view) simp
  show "heap_view lay (st\<lparr>payload := b\<rparr>) B" using v by (simp only: heap_view_payload)
  assume p: "B p = Some m"
  show "\<exists>st'. userfree lay (in_task kv) p st = Inr st' \<and> heap_view lay st' (B(p := None)) \<and> payload st' = payload st"
    using v p by (rule userfree_view) simp
  show "p \<noteq> NULL \<and> unat p + m < 2 ^ 32"
    using heap_view_block [OF v p] u32_bound [of "pxUserEnd st"] by auto
  show "B q = Some k \<Longrightarrow> p \<noteq> q \<Longrightarrow> unat p + m \<le> unat q \<or> unat q + k \<le> unat p"
    by (rule heap_view_disjoint [OF v p])
qed simp

section \<open>What an application can reach\<close>

text \<open>
  The heap driven by an application that never hands back a pointer it does not own: it boots with
  the heap not initialised, allocates, stores into bytes it asked for, and releases. The second
  argument records what the application knows: its pointers with the sizes it asked for.
\<close>

inductive heap_reachable :: "heap_layout \<Rightarrow> usermem \<Rightarrow> (addr \<rightharpoonup> nat) \<Rightarrow> bool" for lay where
  boot: "layout_ok lay \<Longrightarrow> pxUserEnd st = NULL \<Longrightarrow> heap_reachable lay st Map.empty"
| malloc: "heap_reachable lay st A \<Longrightarrow> usermalloc lay kv n st = Inr (p, st') \<Longrightarrow>
           heap_reachable lay st' (A(p \<mapsto> unat n))"
| store: "heap_reachable lay st A \<Longrightarrow> A p = Some n \<Longrightarrow> i < n \<Longrightarrow>
          heap_reachable lay (st\<lparr>payload := (payload st)(p + of_nat i := b)\<rparr>) A"
| free: "heap_reachable lay st A \<Longrightarrow> A p = Some n \<Longrightarrow> userfree lay kv p st = Inr st' \<Longrightarrow>
         heap_reachable lay st' (A(p := None))"

inductive_cases heap_reachable_cases: "heap_reachable lay st A"

text \<open>The application's sizes never exceed the usable sizes of the blocks.\<close>

definition within :: "(addr \<rightharpoonup> nat) \<Rightarrow> (addr \<rightharpoonup> nat) \<Rightarrow> bool" where
  "within A B \<longleftrightarrow> (\<forall>p n. A p = Some n \<longrightarrow> (\<exists>m. B p = Some m \<and> n \<le> m))"

lemma within_update: "within A B \<Longrightarrow> n \<le> m \<Longrightarrow> within (A(p \<mapsto> n)) (B(p \<mapsto> m))"
  by (auto simp: within_def)

lemma within_remove: "within A B \<Longrightarrow> within (A(p := None)) (B(p := None))"
  by (auto simp: within_def)

lemma usermalloc_in_task: "usermalloc lay kv n st = Inr r \<Longrightarrow> \<not> isIRQ kv"
  by (auto simp: usermalloc_def split: if_splits)

lemma userfree_in_task: "userfree lay kv p st = Inr r \<Longrightarrow> \<not> isIRQ kv"
  by (auto simp: userfree_def split: if_splits)

lemma heap_reachable_view:
  assumes "heap_reachable lay st A"
  shows "\<exists>B. heap_view lay st B \<and> within A B"
  using assms
proof induction
  case (boot st)
  then show ?case by (auto simp: heap_view_def within_def)
next
  case (malloc st A kv n p st')
  then obtain B where B: "heap_view lay st B" "within A B" by blast
  with malloc.hyps(2) obtain m where "unat n \<le> m" "heap_view lay st' (B(p \<mapsto> m))"
    using usermalloc_view [OF B(1) usermalloc_in_task [OF malloc.hyps(2)], of n] by auto
  with B(2) show ?case using within_update by blast
next
  case (store st A p n i b)
  then show ?case by (simp add: heap_view_payload)
next
  case (free st A p n kv st')
  then obtain B where V: "heap_view lay st B" "within A B" by blast
  then obtain m where "B p = Some m" using free.hyps(2) unfolding within_def by blast
  note B = V this
  have "heap_view lay st' (B(p := None))"
    using userfree_view [OF B(1,3) userfree_in_task [OF free.hyps(3)]] free.hyps(3) by auto
  with B(2) show ?case using within_remove by blast
qed

section \<open>Giving a block back undoes its allocation\<close>

lemma release_carve:
  assumes ok: "heap_ok lay st ts" and c: "carve w ts = Some (p, us)" and w: "0 < unat w" "32 dvd unat w"
  shows "release p us = ts"
  using c
proof (rule carve_SomeE)
  fix xs s ys
  assume eq: "ts = xs @ Tile p s False # ys" "us = xs @ split_tile w (Tile p s False) @ ys"
  note D = heap_okD [OF ok]
  have us: "tiled (unat (aligned_heap lay)) us (unat (pxUserEnd st))" "coalesced us"
    using carve_tiled [OF c D(1) w] carve_coalesced [OF c D(2)] .
  have co: "coalesced (xs @ Tile p s False # ys)" using D(2) eq by simp
  have id: "foldr glue xs (Tile p s False # ys) = ts"
    using foldr_glue_id [OF co] eq by simp
  show "release p us = ts"
  proof (cases "s - w > heapMINIMUM_BLOCK_SIZE")
    case True
    then have us': "us = xs @ Tile p w True # Tile (p + w) (s - w) False # ys"
      by (simp add: eq split_tile_def)
    have "coalesced (Tile (p + w) (s - w) False # ys)"
      using coalesced_append [of "xs @ [Tile p w True]" "Tile (p + w) (s - w) False # ys"] us(2) us' by simp
    then show ?thesis
      using release_split [OF us(1) [unfolded us']] us' id by simp
  next
    case False
    then have us': "us = xs @ Tile p s True # ys" by (simp add: eq split_tile_def)
    have "coalesced (Tile p s False # ys)" using coalesced_append [OF co] by simp
    then show ?thesis
      using release_split [OF us(1) [unfolded us']] us' id glue_id coalesced_tl by metis
  qed
qed

section \<open>Conservation of bytes\<close>

definition taken_bytes :: "tile list \<Rightarrow> nat" where
  "taken_bytes ts = (\<Sum>t\<leftarrow>filter taken ts. unat (tsize t))"

lemma tiled_conserves: "tiled lo ts hi \<Longrightarrow> lo + free_bytes ts + taken_bytes ts = hi"
proof (induction ts arbitrary: lo)
  case (Cons t ts)
  then have "lo + unat (tsize t) + free_bytes ts + taken_bytes ts = hi" by simp
  then show ?case by (simp add: free_bytes_def taken_bytes_def)
qed (simp add: free_bytes_def taken_bytes_def)

section \<open>Reallocation\<close>

text \<open>
  The size \<open>userrealloc\<close> compares with the request is that of the whole block, header included. A
  live pointer with \<open>m\<close> usable bytes is therefore handed back for requests up to \<open>m + 32\<close>.
\<close>

lemma userrealloc_header:
  assumes "heap_view lay st B" "B p = Some m"
  shows "p \<noteq> NULL" "xBlockSize (links st (p - xHeapStructSize)) AND xBlockAllocatedBit st \<noteq> 0"
    "pxNextFreeBlock (links st (p - xHeapStructSize)) = NULL"
    "unat (xBlockSize (links st (p - xHeapStructSize)) AND NOT (xBlockAllocatedBit st)) = m + 32"
    "xBlockSize (links st (p - xHeapStructSize)) AND NOT (xBlockAllocatedBit st) = of_nat (m + 32)"
  using assms
proof (rule_tac [!] heap_view_liveE [OF assms])
  fix ts t
  assume t: "heap_ok lay st ts" "t \<in> set ts" "taken t" "p = taddr t + xHeapStructSize" "m = unat (tsize t) - 32"
  note D = heap_okD(4,7,11) [OF t(1)]
  note P = heap_shape_tile [OF D(3) t(2)]
  have "32 \<le> unat (tsize t)" using P(3,4) by (simp add: dvd_imp_le)
  moreover have "xBlockSize (links st (p - xHeapStructSize)) = tsize t OR 0x80000000"
    "pxNextFreeBlock (links st (p - xHeapStructSize)) = NULL"
    using D(1) [OF t(2)] t(3,4) by (simp_all add: header_ok_def)
  ultimately show "p \<noteq> NULL" "xBlockSize (links st (p - xHeapStructSize)) AND xBlockAllocatedBit st \<noteq> 0"
    "pxNextFreeBlock (links st (p - xHeapStructSize)) = NULL"
    "unat (xBlockSize (links st (p - xHeapStructSize)) AND NOT (xBlockAllocatedBit st)) = m + 32"
    "xBlockSize (links st (p - xHeapStructSize)) AND NOT (xBlockAllocatedBit st) = of_nat (m + 32)"
    using payload_pointer(2) [OF D(3) t(2)] D(2) t(4,5) P(6)
    by (simp_all add: or_top_and_top or_top_clear_numeral)
qed

lemma userrealloc_short:
  assumes "heap_view lay st B" "B p = Some m" "unat n \<le> m + 32"
  shows "userrealloc lay kv p n st = Inr (p, st)"
  using userrealloc_header [OF assms(1,2)] assms(3)
  by (simp add: userrealloc_def Let_def word_le_nat_alt)

lemma userrealloc_grows:
  assumes v: "heap_view lay st B" and p: "B p = Some m" and n: "m + 32 < unat n"
    and irq: "\<not> isIRQ kv"
  shows "userrealloc lay kv p n st = Inl Aborted \<or>
     (\<exists>q k st'. userrealloc lay kv p n st = Inr (q, st') \<and> B q = None \<and> unat n \<le> k \<and>
        heap_view lay st' (B(p := None, q \<mapsto> k)) \<and>
        (\<forall>i<m. payload st' (q + of_nat i) = payload st (p + of_nat i)) \<and>
        keeps B q (payload st) (payload st'))"
proof -
  note H = userrealloc_header [OF v p]
  define c where "c = xBlockSize (links st (p - xHeapStructSize)) AND NOT (xBlockAllocatedBit st)"
  have c: "unat c = m + 32" using H(4) by (simp add: c_def)
  have kv: "in_task kv = kv" using irq by simp
  have eq: "userrealloc lay kv p n st = bind_outcome (usermalloc lay kv n st) (\<lambda>(new, st1).
      if new = NULL then Inr (NULL, st1)
      else bind_outcome (userfree lay kv p (st1\<lparr>payload := memcpy new p c (payload st1)\<rparr>))
             (\<lambda>st2. Inr (new, st2)))"
    using H(1-3) c n by (simp add: userrealloc_def Let_def c_def [symmetric] word_le_nat_alt not_le)
  show ?thesis
  proof (cases "usermalloc lay kv n st")
    case (Inl f)
    then show ?thesis using usermalloc_view [OF v irq, of n] eq by auto
  next
    case (Inr r)
    obtain q st1 where a: "usermalloc lay kv n st = Inr (q, st1)" using Inr by (cases r) auto
    have le: "unat c \<le> unat n" using c n by simp
    obtain k st2 where s2: "userfree lay kv p (st1\<lparr>payload := memcpy q p c (payload st1)\<rparr>) = Inr st2"
      "B q = None" "unat n \<le> k" "heap_view lay st2 (B(p := None, q \<mapsto> k))"
      "\<And>i. i < unat c \<Longrightarrow> payload st2 (q + of_nat i) = payload st (p + of_nat i)"
      "keeps B q (payload st) (payload st2)"
      using user_heap.alloc_copy_dispose [OF v p, of kv n q st1 c] a kv le by metis
    have "q \<noteq> NULL" using user_heap.bounds_law [OF s2(4), of q k] by simp
    then have "userrealloc lay kv p n st = Inr (q, st2)" using eq a s2(1) by simp
    then show ?thesis using s2 c by auto
  qed
qed

section \<open>Properties\<close>

text \<open>The state of the heap as a caller finds it: initialised, or not yet.\<close>

definition heap_rel :: "heap_layout \<Rightarrow> usermem \<Rightarrow> tile list \<Rightarrow> bool" where
  "heap_rel lay st ts \<longleftrightarrow>
     heap_ok lay st ts \<or> (layout_ok lay \<and> pxUserEnd st = NULL \<and> ts = initial_heap lay)"

lemma usermalloc_rel:
  assumes "heap_rel lay st ts" "\<not> isIRQ kv"
  shows "case alloc_spec n ts of
           None \<Rightarrow> usermalloc lay kv n st = Inl Aborted
         | Some (p, us) \<Rightarrow> \<exists>st'. usermalloc lay kv n st = Inr (p + xHeapStructSize, st') \<and>
                              heap_ok lay st' us \<and> payload st' = payload st"
  using assms(1) unfolding heap_rel_def
proof (elim disjE conjE)
  assume b: "layout_ok lay" "pxUserEnd st = NULL" "ts = initial_heap lay"
  show ?thesis
    unfolding usermalloc_boot [OF b(1,2)] b(3)
    using usermalloc_refines [OF prvHeapInit_ok(1) [OF b(1), of st] assms(2), of n]
    unfolding prvHeapInit_payload .
qed (rule usermalloc_refines [OF _ assms(2)])

text \<open>A concrete heap for the witnesses: 4 KiB at 0x1010, the list head at 0x100.\<close>

definition demo_layout :: heap_layout where
  "demo_layout = \<lparr>userUcHeap = 0x1010, USERMEM_TOTAL_HEAP_SIZE = 0x1000, addr_xUserStart = 0x100\<rparr>"

definition demo_kernel :: kernel_view where
  "demo_kernel = \<lparr>isIRQ = False, xTaskGetCurrentTaskHandle = 0x2000, xTaskGetTickCount = 7\<rparr>"

definition demo_boot :: usermem where
  "demo_boot = \<lparr>links = (\<lambda>_. \<lparr>ulStamp = 0, pxNextFreeBlock = 0, xBlockSize = 0, xAllocatingTask = 0,
                             xTimeAllocated = 0\<rparr>),
     payload = (\<lambda>_. 0), pxUserEnd = 0, xUserFreeBytesRemaining = 0,
     xUserMinimumEverFreeBytesRemaining = 0, xAllocationsCount = 0, xDeallocationsCount = 0,
     xAllocatedMin = - 1, xAllocatedMax = 0, xAllocatedSum = 0, xBlockAllocatedBit = 0\<rparr>"

lemma demo_layout_ok: "layout_ok demo_layout"
  by (simp add: layout_ok_def demo_layout_def)

lemma demo_rel: "heap_rel demo_layout demo_boot (initial_heap demo_layout)"
  by (simp add: heap_rel_def demo_layout_ok demo_boot_def)

lemma demo_bounds: "aligned_heap demo_layout = 0x1020" "heap_end demo_layout = 0x1FE0"
  by (simp_all add: aligned_heap_def heap_end_def demo_layout_def usermemBYTE_ALIGNMENT_MASK_def
      alignment_constants)

lemma demo_alloc:
  "alloc_spec 100 (initial_heap demo_layout) =
     Some (0x1020, [Tile 0x1020 160 True, Tile 0x10C0 0xF20 False])"
  by (simp add: alloc_spec_def initial_heap_def demo_bounds adjusted_size_def split_tile_def
      alignment_constants usermemBYTE_ALIGNMENT_MASK_def Let_def)

text \<open>
  C1. \<open>usermalloc\<close>, called from a task on a heap that represents the tiling \<open>ts\<close> (or is not initialised
  yet), is first-fit allocation: when the specification finds a block, the call returns its payload
  pointer, the new state represents the new tiling and no payload byte changes; when it finds none
  (also for size 0 and sizes with the top bit set), the malloc-failed hook aborts the program.
\<close>

theorem usermalloc_is_first_fit:
  assumes "heap_rel lay st ts" "\<not> isIRQ kv"
  shows "case alloc_spec n ts of
           None \<Rightarrow> usermalloc lay kv n st = Inl Aborted
         | Some (p, us) \<Rightarrow> \<exists>st'. usermalloc lay kv n st = Inr (p + xHeapStructSize, st') \<and>
                              heap_ok lay st' us \<and> payload st' = payload st"
  using assms by (rule usermalloc_rel)

theorem usermalloc_is_first_fit_witness:
  "\<exists>st'. usermalloc demo_layout demo_kernel 100 demo_boot = Inr (0x1040, st') \<and>
     heap_ok demo_layout st' [Tile 0x1020 160 True, Tile 0x10C0 0xF20 False]"
  using usermalloc_is_first_fit [OF demo_rel, of demo_kernel 100]
  by (auto simp: demo_alloc demo_kernel_def alignment_constants)

text \<open>
  C2. \<open>userfree\<close> of the payload pointer of a taken block succeeds (no assertion fails, no walk of the
  free list is endless) and the new state represents the tiling in which that block is free and
  merged with its free neighbours; payload bytes are kept.
\<close>

theorem userfree_releases:
  assumes "heap_ok lay st ts" "Tile p s True \<in> set ts" "\<not> isIRQ kv"
  shows "\<exists>st'. userfree lay kv (p + xHeapStructSize) st = Inr st' \<and>
           heap_ok lay st' (release p ts) \<and> payload st' = payload st"
  using assms by (rule userfree_refines)

lemma demo_malloc:
  "\<exists>st'. usermalloc demo_layout demo_kernel 100 demo_boot = Inr (0x1040, st') \<and>
     heap_ok demo_layout st' [Tile 0x1020 160 True, Tile 0x10C0 0xF20 False]"
  using usermalloc_rel [OF demo_rel, of demo_kernel 100]
  by (auto simp: demo_alloc demo_kernel_def alignment_constants)

lemma demo_release:
  "release 0x1020 [Tile 0x1020 160 True, Tile 0x10C0 0xF20 False] = [Tile 0x1020 0xFC0 False]"
  by (simp add: release_def coalesce_def)

theorem userfree_releases_witness:
  "\<exists>st st'. usermalloc demo_layout demo_kernel 100 demo_boot = Inr (0x1040, st) \<and>
     userfree demo_layout demo_kernel 0x1040 st = Inr st' \<and>
     heap_ok demo_layout st' [Tile 0x1020 0xFC0 False]"
proof -
  obtain st where st: "usermalloc demo_layout demo_kernel 100 demo_boot = Inr (0x1040, st)"
    "heap_ok demo_layout st [Tile 0x1020 160 True, Tile 0x10C0 0xF20 False]"
    using demo_malloc by blast
  then show ?thesis
    using userfree_releases [OF st(2), where p = "0x1020" and s = 160 and kv = demo_kernel]
    by (auto simp: demo_kernel_def demo_release alignment_constants)
qed

text \<open>
  C3. Safety of every heap state an application can reach: the ranges it asked for and still owns lie
  in the heap array, start on a 32-byte boundary and do not overlap each other.
\<close>

theorem reachable_blocks_disjoint:
  assumes "heap_reachable lay st A" "A p = Some n"
  shows "32 dvd unat p \<and> unat (aligned_heap lay) + 32 \<le> unat p \<and> unat p + n \<le> unat (pxUserEnd st) \<and>
    (\<forall>q k. A q = Some k \<longrightarrow> p \<noteq> q \<longrightarrow> unat p + n \<le> unat q \<or> unat q + k \<le> unat p)"
proof -
  obtain B where B: "heap_view lay st B" "within A B" using heap_reachable_view [OF assms(1)] by blast
  obtain m where m: "B p = Some m" "n \<le> m" using B(2) assms(2) unfolding within_def by blast
  have "unat p + n \<le> unat q \<or> unat q + k \<le> unat p" if q: "A q = Some k" "p \<noteq> q" for q k
  proof -
    obtain j where j: "B q = Some j" "k \<le> j" using B(2) q(1) unfolding within_def by blast
    then show ?thesis using heap_view_disjoint [OF B(1) m(1) j(1) q(2)] m(2) by linarith
  qed
  then show ?thesis using heap_view_block [OF B(1) m(1)] m(2) by auto
qed

lemma demo_reachable: "\<exists>st. heap_reachable demo_layout st (Map.empty(0x1040 \<mapsto> 100))"
proof -
  obtain st where "usermalloc demo_layout demo_kernel 100 demo_boot = Inr (0x1040, st)"
    using demo_malloc by blast
  moreover have "heap_reachable demo_layout demo_boot Map.empty"
    by (rule heap_reachable.boot) (simp_all add: demo_layout_ok demo_boot_def)
  ultimately show ?thesis using heap_reachable.malloc by fastforce
qed

theorem reachable_blocks_disjoint_witness:
  "\<exists>st. heap_reachable demo_layout st (Map.empty(0x1040 \<mapsto> 100)) \<and> 0x1040 + 100 \<le> unat (pxUserEnd st)"
proof -
  obtain st where st: "heap_reachable demo_layout st (Map.empty(0x1040 \<mapsto> 100))"
    using demo_reachable by blast
  then show ?thesis using reachable_blocks_disjoint [OF st, of "0x1040" 100] by auto
qed

text \<open>
  C4. In every reachable state an application can release any pointer it owns: \<open>userfree\<close> returns, and
  what is left is again a reachable state without that pointer.
\<close>

theorem reachable_free_succeeds:
  assumes "heap_reachable lay st A" "A p = Some n" "\<not> isIRQ kv"
  shows "\<exists>st'. userfree lay kv p st = Inr st' \<and> heap_reachable lay st' (A(p := None)) \<and>
           payload st' = payload st"
proof -
  obtain B where B: "heap_view lay st B" "within A B" using heap_reachable_view [OF assms(1)] by blast
  obtain m where m: "B p = Some m" using B(2) assms(2) unfolding within_def by blast
  obtain st' where st': "userfree lay kv p st = Inr st'" "payload st' = payload st"
    using userfree_view [OF B(1) m assms(3)] by blast
  then show ?thesis using heap_reachable.free [OF assms(1,2) st'(1)] by blast
qed

theorem reachable_free_succeeds_witness:
  "\<exists>st st'. heap_reachable demo_layout st (Map.empty(0x1040 \<mapsto> 100)) \<and>
     userfree demo_layout demo_kernel 0x1040 st = Inr st'"
proof -
  obtain st where st: "heap_reachable demo_layout st (Map.empty(0x1040 \<mapsto> 100))"
    using demo_reachable by blast
  then show ?thesis
    using reachable_free_succeeds [OF st, of "0x1040" 100 demo_kernel] by (auto simp: demo_kernel_def)
qed

text \<open>
  C5. Round trip: a block that is allocated and released at once leaves the heap with exactly the
  blocks it had before (no fragmentation) and the same number of free bytes.
\<close>

theorem malloc_free_roundtrip:
  assumes "heap_ok lay st ts" "usermalloc lay kv n st = Inr (p, st1)"
  shows "\<exists>st2. userfree lay kv p st1 = Inr st2 \<and> heap_ok lay st2 ts \<and>
           xUserFreeBytesRemaining st2 = xUserFreeBytesRemaining st"
proof -
  have irq: "\<not> isIRQ kv" using assms(2) by (rule usermalloc_in_task)
  obtain a us where c: "alloc_spec n ts = Some (a, us)" "p = a + xHeapStructSize" "heap_ok lay st1 us"
    using usermalloc_refines [OF assms(1) irq, of n] assms(2) by (auto split: option.splits)
  then have n: "0 < unat n" "unat n < 2 ^ 31" and cv: "carve (adjusted_size n) ts = Some (a, us)"
    by (auto simp: alloc_spec_def split: if_splits)
  note A = adjusted_size_bounds [OF n]
  have "\<exists>s. Tile a s True \<in> set us" using cv by (rule carve_SomeE) (auto simp: split_tile_def)
  then obtain s where s: "Tile a s True \<in> set us" by blast
  obtain st2 where st2: "userfree lay kv p st1 = Inr st2" "heap_ok lay st2 (release a us)"
    using userfree_refines [OF c(3) s irq] c(2) by blast
  have "release a us = ts" using release_carve [OF assms(1) cv _ A(3)] A(1) by simp
  then have "heap_ok lay st2 ts" using st2(2) by simp
  then show ?thesis
    using st2(1) heap_okD(5) [OF assms(1)] heap_okD(5) by (metis word_unat_eq_iff)
qed

theorem malloc_free_roundtrip_witness:
  "\<exists>st p st1 st2. heap_ok demo_layout st (initial_heap demo_layout) \<and>
     usermalloc demo_layout demo_kernel 100 st = Inr (p, st1) \<and> userfree demo_layout demo_kernel p st1 = Inr st2 \<and>
     heap_ok demo_layout st2 (initial_heap demo_layout)"
proof -
  let ?st = "prvHeapInit demo_layout demo_boot"
  have ok: "heap_ok demo_layout ?st (initial_heap demo_layout)"
    by (rule prvHeapInit_ok(1) [OF demo_layout_ok])
  obtain st1 where m: "usermalloc demo_layout demo_kernel 100 ?st = Inr (0x1040, st1)"
    using usermalloc_refines [OF ok, of demo_kernel 100]
    by (auto simp: demo_alloc demo_kernel_def alignment_constants)
  show ?thesis using malloc_free_roundtrip [OF ok m] ok m by blast
qed

text \<open>
  C7. A \<open>userrealloc\<close> that has to grow a live block either aborts (out of memory) or returns a new
  block of at least the requested size that holds the old contents; the old block is released and
  all other live blocks keep their bytes.
\<close>

theorem userrealloc_growth:
  assumes "heap_view lay st B" "B p = Some m" "m + 32 < unat n" "\<not> isIRQ kv"
  shows "userrealloc lay kv p n st = Inl Aborted \<or>
     (\<exists>q k st'. userrealloc lay kv p n st = Inr (q, st') \<and> B q = None \<and> unat n \<le> k \<and>
        heap_view lay st' (B(p := None, q \<mapsto> k)) \<and>
        (\<forall>i<m. payload st' (q + of_nat i) = payload st (p + of_nat i)) \<and>
        keeps B q (payload st) (payload st'))"
  using assms by (rule userrealloc_grows)

lemma demo_view:
  "\<exists>st. usermalloc demo_layout demo_kernel 100 demo_boot = Inr (0x1040, st) \<and>
     heap_view demo_layout st (Map.empty(0x1040 \<mapsto> 128))"
proof -
  obtain st where st: "usermalloc demo_layout demo_kernel 100 demo_boot = Inr (0x1040, st)"
    "heap_ok demo_layout st [Tile 0x1020 160 True, Tile 0x10C0 0xF20 False]"
    using demo_malloc by blast
  moreover have "live [Tile 0x1020 160 True, Tile 0x10C0 0xF20 False] = Map.empty(0x1040 \<mapsto> 128)"
    by (simp add: live_def alignment_constants)
  ultimately show ?thesis unfolding heap_view_def by metis
qed

theorem userrealloc_growth_witness:
  "\<exists>st. heap_view demo_layout st (Map.empty(0x1040 \<mapsto> 128)) \<and>
     (userrealloc demo_layout demo_kernel 0x1040 500 st = Inl Aborted \<or>
      (\<exists>q st'. userrealloc demo_layout demo_kernel 0x1040 500 st = Inr (q, st') \<and> q \<noteq> 0x1040))"
proof -
  obtain st where st: "heap_view demo_layout st (Map.empty(0x1040 \<mapsto> 128))" using demo_view by blast
  then show ?thesis
    using userrealloc_growth [OF st, of "0x1040" 128 500 demo_kernel] by (fastforce simp: demo_kernel_def)
qed

text \<open>
  C8. The flaw of \<open>userrealloc\<close>: the block size it compares with the request includes the 32-byte
  header, so for a live block of \<open>m\<close> usable bytes every request from \<open>m + 1\<close> to \<open>m + 32\<close> hands the old
  pointer back unchanged, although the block is too small for it.
\<close>

theorem userrealloc_too_small:
  assumes "heap_view lay st B" "B p = Some m" "m < unat n" "unat n \<le> m + 32"
  shows "userrealloc lay kv p n st = Inr (p, st)"
  using assms(1,2,4) by (rule userrealloc_short)

theorem userrealloc_too_small_witness:
  "\<exists>st. usermalloc demo_layout demo_kernel 100 demo_boot = Inr (0x1040, st) \<and>
     heap_view demo_layout st (Map.empty(0x1040 \<mapsto> 128)) \<and>
     userrealloc demo_layout demo_kernel 0x1040 150 st = Inr (0x1040, st)"
proof -
  obtain st where st: "usermalloc demo_layout demo_kernel 100 demo_boot = Inr (0x1040, st)"
    "heap_view demo_layout st (Map.empty(0x1040 \<mapsto> 128))" using demo_view by blast
  then show ?thesis
    using userrealloc_too_small [OF st(2), of "0x1040" 128 150 demo_kernel] by auto
qed

text \<open>
  C6. \<open>prvInsertBlockIntoFreeList\<close> ends and inserts the block at its place in the address-ordered list,
  merging it with the block in front and the block behind exactly when they touch; no stamp and no
  header of another block changes.
\<close>

theorem prvInsertBlockIntoFreeList_inserts:
  assumes "free_chain h (pxNextFreeBlock (h start)) bs e" "spread bs e"
    and "start \<notin> fst ` set bs" "start \<noteq> blk" "xBlockSize (h start) = 0"
    and "blk < e" "blk \<notin> fst ` set bs"
  shows "\<exists>h'. prvInsertBlockIntoFreeList start e blk h = Inr h' \<and>
    free_chain h' (pxNextFreeBlock (h' start)) (insert_free (blk, xBlockSize (h blk)) bs) e \<and>
    (\<forall>x. ulStamp (h' x) = ulStamp (h x)) \<and>
    (\<forall>x. x \<notin> fst ` set bs \<longrightarrow> x \<noteq> start \<longrightarrow> x \<noteq> blk \<longrightarrow> h' x = h x)"
  using prvInsertBlockIntoFreeList_chain [OF assms] by metis

definition demo_links :: "addr \<Rightarrow> block_link" where
  "demo_links = (\<lambda>a. \<lparr>ulStamp = INTEGRITY_STAMP_FREE,
     pxNextFreeBlock = (if a = 0x100 then 0x1000 else if a = 0x1000 then 0x1080 else 0x2000),
     xBlockSize = (if a = 0x100 then 0 else 0x40), xAllocatingTask = 0, xTimeAllocated = 0\<rparr>)"

theorem prvInsertBlockIntoFreeList_inserts_witness:
  "\<exists>h'. prvInsertBlockIntoFreeList 0x100 0x2000 0x1040 demo_links = Inr h' \<and>
     free_chain h' (pxNextFreeBlock (h' 0x100)) [(0x1000, 0xC0)] 0x2000"
  using prvInsertBlockIntoFreeList_inserts
    [of demo_links "0x100" "[(0x1000, 0x40), (0x1080, 0x40)]" "0x2000" "0x1040"]
  by (auto simp: demo_links_def)

end
