(* ===== verification/HeapRun.thy ===== *)
theory HeapRun
  imports UserHeap
begin

text \<open>
  The statistics of \<^verbatim>\<open>usermem.c\<close> along a run of an application: the counter of free bytes and the
  low-water mark of \<open>usermemGetFreeHeapSize\<close> and \<open>usermemGetMinimumEverFreeHeapSize\<close>, compared with the
  headers in memory and with every value that was readable before.
\<close>

section \<open>Runs\<close>

text \<open>
  A run of allocations, stores and releases from a heap that is not initialised. It records the pointers that
  the application owns and the free sizes that could be read after each allocation and release, the
  latest first.
\<close>

inductive heap_run :: "heap_layout \<Rightarrow> usermem \<Rightarrow> addr set \<Rightarrow> u32 list \<Rightarrow> bool" for lay where
  boot: "layout_ok lay \<Longrightarrow> pxUserEnd st = NULL \<Longrightarrow> heap_run lay st {} []"
| malloc: "heap_run lay st A fs \<Longrightarrow> usermalloc lay kv n st = Inr (p, st') \<Longrightarrow>
           heap_run lay st' (insert p A) (usermemGetFreeHeapSize st' # fs)"
| store: "heap_run lay st A fs \<Longrightarrow> heap_run lay (st\<lparr>payload := b\<rparr>) A fs"
| free: "heap_run lay st A fs \<Longrightarrow> p \<in> A \<Longrightarrow> userfree lay kv p st = Inr st' \<Longrightarrow>
         heap_run lay st' (A - {p}) (usermemGetFreeHeapSize st' # fs)"

text \<open>The size of the block in front of which a pointer stands, as its header in memory tells.\<close>

definition block_bytes :: "usermem \<Rightarrow> addr \<Rightarrow> nat" where
  "block_bytes st p = unat (xBlockSize (links st (p - xHeapStructSize)) AND NOT (xBlockAllocatedBit st))"

section \<open>The end marker and the low-water mark\<close>

lemma take_block_marks:
  assumes "take_block lay kv st w prev blk = Inr (p, st')"
  shows "pxUserEnd st' = pxUserEnd st \<and> xUserMinimumEverFreeBytesRemaining st' =
    min (xUserMinimumEverFreeBytesRemaining st) (xUserFreeBytesRemaining st')"
  using assms by (auto simp: take_block_def Let_def bind_outcome_Inr_iff min_def split: if_splits)

lemma usermalloc_marks:
  assumes "usermalloc lay kv n st = Inr (p, st')" "pxUserEnd st \<noteq> NULL"
  shows "pxUserEnd st' = pxUserEnd st" "xUserMinimumEverFreeBytesRemaining st' =
    min (xUserMinimumEverFreeBytesRemaining st) (xUserFreeBytesRemaining st')"
  using assms
  by (auto simp: usermalloc_def usermalloc_locked_def Let_def bind_outcome_Inr_iff vApplicationMallocFailedHook_def
      split: if_splits option.splits dest!: take_block_marks)

lemma userfree_marks:
  assumes "userfree lay kv p st = Inr st'"
  shows "pxUserEnd st' = pxUserEnd st"
    "xUserMinimumEverFreeBytesRemaining st' = xUserMinimumEverFreeBytesRemaining st"
  using assms by (auto simp: userfree_def Let_def bind_outcome_Inr_iff split: if_splits)

section \<open>The invariant of a run\<close>

definition run_ok :: "heap_layout \<Rightarrow> usermem \<Rightarrow> addr set \<Rightarrow> u32 list \<Rightarrow> bool" where
  "run_ok lay st A fs \<longleftrightarrow>
     (\<exists>ts. heap_ok lay st ts \<and> A = dom (live ts)) \<and> pxUserEnd st = heap_end lay \<and>
     fs \<noteq> [] \<and> hd fs = xUserFreeBytesRemaining st \<and> xUserMinimumEverFreeBytesRemaining st = Min (set fs)"

lemma usermalloc_dom:
  assumes ok: "heap_ok lay st ts" and m: "usermalloc lay kv n st = Inr (p, st')"
  obtains us where "heap_ok lay st' us" "dom (live us) = insert p (dom (live ts))"
proof -
  have irq: "\<not> isIRQ kv" using m by (rule usermalloc_in_task)
  obtain a us where c: "alloc_spec n ts = Some (a, us)" "p = a + xHeapStructSize" "heap_ok lay st' us"
    using usermalloc_refines [OF ok irq, of n] m by (auto split: option.splits)
  then have n: "0 < unat n" "unat n < 2 ^ 31" and cv: "carve (adjusted_size n) ts = Some (a, us)"
    by (auto simp: alloc_spec_def split: if_splits)
  have "dom (live us) = insert p (dom (live ts))"
    using live_carve [OF ok cv] adjusted_size_bounds [OF n] c(2) by auto
  with c(3) show thesis by (rule that)
qed

lemma userfree_dom:
  assumes ok: "heap_ok lay st ts" and p: "p \<in> dom (live ts)" and f: "userfree lay kv p st = Inr st'"
  obtains us where "heap_ok lay st' us" "dom (live us) = dom (live ts) - {p}"
proof -
  obtain t where t: "t \<in> taken_set ts" "p = taddr t + xHeapStructSize"
    using p live_dom [of ts p] by auto
  then have mem: "Tile (taddr t) (tsize t) True \<in> set ts" by (cases t) (auto simp: taken_set_def)
  have "heap_ok lay st' (release (taddr t) ts)"
    using userfree_refines [OF ok mem userfree_in_task [OF f]] f t(2) by auto
  moreover have "dom (live (release (taddr t) ts)) = dom (live ts) - {p}"
    using live_release [OF ok mem] t(2) by auto
  ultimately show thesis by (rule that)
qed

lemma malloc_run_ok:
  assumes ok: "run_ok lay st A fs" and m: "usermalloc lay kv n st = Inr (p, st')"
  shows "run_ok lay st' (insert p A) (usermemGetFreeHeapSize st' # fs)"
proof -
  obtain ts where ts: "heap_ok lay st ts" "A = dom (live ts)" using ok by (auto simp: run_ok_def)
  obtain us where us: "heap_ok lay st' us" "dom (live us) = insert p A"
    using usermalloc_dom [OF ts(1) m] ts(2) by metis
  note M = usermalloc_marks [OF m heap_shape_end(1) [OF heap_okD(11) [OF ts(1)]]]
  show ?thesis using ok us M unfolding run_ok_def
    by (auto simp: usermemGetFreeHeapSize_def min.commute intro!: exI [of _ us])
qed

lemma boot_run_ok:
  assumes l: "layout_ok lay" "pxUserEnd st = NULL" and m: "usermalloc lay kv n st = Inr (p, st')"
  shows "run_ok lay st' {p} [usermemGetFreeHeapSize st']"
proof -
  let ?b = "prvHeapInit lay st"
  have b: "heap_ok lay ?b (initial_heap lay)" "pxUserEnd ?b \<noteq> NULL" using prvHeapInit_ok [OF l(1)] by blast+
  have m': "usermalloc lay kv n ?b = Inr (p, st')" using m usermalloc_boot [OF l] by metis
  obtain us where us: "heap_ok lay st' us" "dom (live us) = {p}"
    using usermalloc_dom [OF b(1) m'] by auto
  note M = usermalloc_marks [OF m' b(2)]
  have e: "pxUserEnd ?b = heap_end lay" "xUserMinimumEverFreeBytesRemaining ?b = heap_end lay - aligned_heap lay"
    by (simp_all add: prvHeapInit_eq Let_def)
  have "unat (xUserFreeBytesRemaining st') \<le> unat (heap_end lay - aligned_heap lay)"
    using free_bytes_le [OF heap_okD(1) [OF us(1)]] heap_okD(5) [OF us(1)] M(1) e(1) heap_end_bounds(5) [OF l(1)] by simp
  then show ?thesis using us M e unfolding run_ok_def
    by (auto simp: usermemGetFreeHeapSize_def word_le_nat_alt intro!: exI [of _ us] min.absorb2)
qed

lemma free_run_ok:
  assumes ok: "run_ok lay st A fs" and p: "p \<in> A" and f: "userfree lay kv p st = Inr st'"
  shows "run_ok lay st' (A - {p}) (usermemGetFreeHeapSize st' # fs)"
proof -
  obtain ts where ts: "heap_ok lay st ts" "A = dom (live ts)" using ok by (auto simp: run_ok_def)
  obtain us where us: "heap_ok lay st' us" "dom (live us) = A - {p}"
    using userfree_dom [OF ts(1) _ f] p ts(2) by metis
  have "xUserMinimumEverFreeBytesRemaining st' \<le> xUserFreeBytesRemaining st'" by (rule heap_okD(6) [OF us(1)])
  then show ?thesis using ok us userfree_marks [OF f] unfolding run_ok_def
    by (auto simp: usermemGetFreeHeapSize_def min.absorb2 intro!: exI [of _ us])
qed

lemma heap_run_ok:
  "heap_run lay st A fs \<Longrightarrow> (layout_ok lay \<and> pxUserEnd st = NULL \<and> A = {} \<and> fs = []) \<or> run_ok lay st A fs"
proof (induction rule: heap_run.induct)
  case (malloc st A fs kv n p st')
  then show ?case using boot_run_ok malloc_run_ok by metis
next
  case (store st A fs b)
  then show ?case by (simp add: run_ok_def)
next
  case (free st A fs p kv st')
  then show ?case using free_run_ok by auto
qed simp

section \<open>What the headers say\<close>

lemma tiled_distinct: "tiled lo ts hi \<Longrightarrow> distinct ts"
proof (induction ts arbitrary: lo)
  case (Cons t ts)
  then show ?case using tiled_bounds [of "lo + unat (tsize t)" ts hi t] by auto
qed simp

lemma taken_bytes_headers:
  assumes ok: "heap_ok lay st ts"
  shows "(\<Sum>p\<in>dom (live ts). block_bytes st p) = taken_bytes ts"
proof -
  note D = heap_okD [OF ok]
  have d: "dom (live ts) = (\<lambda>t. taddr t + xHeapStructSize) ` taken_set ts"
    using live_iff [OF D(1)] by (auto simp: dom_def)
  have inj: "inj_on (\<lambda>t. taddr t + xHeapStructSize) (taken_set ts)"
    using tiled_address_unique [OF D(1)] by (intro inj_onI) (auto simp: taken_set_def)
  have b: "block_bytes st (taddr t + xHeapStructSize) = unat (tsize t)" if t: "t \<in> taken_set ts" for t
  proof -
    have "xBlockSize (links st (taddr t)) = tsize t OR 0x80000000" "unat (tsize t) < 2 ^ 31"
      using t D(4) [of t] heap_shape_tile(6) [OF D(11), of t] by (auto simp: taken_set_def header_ok_def)
    then show ?thesis by (simp add: block_bytes_def D(7) or_top_clear_numeral)
  qed
  have "distinct (filter taken ts)" using tiled_distinct [OF D(1)] by simp
  then show ?thesis
    unfolding d sum.reindex [OF inj] taken_bytes_def
    using b by (simp add: sum_list_distinct_conv_sum_set taken_set_def)
qed

section \<open>Accounting\<close>

text \<open>
  C9. The statistics tell the truth in every run of allocations, stores and releases: the size reported as free is what the
  blocks of the application, with their headers and as large as the headers in memory say, leave of the
  array, and the low-water mark is the smallest free size that could be read after any allocation or release so far.
\<close>

theorem free_bytes_accounting:
  assumes "heap_run lay st A fs" "fs \<noteq> []"
  shows "unat (aligned_heap lay) + unat (usermemGetFreeHeapSize st) + (\<Sum>p\<in>A. block_bytes st p) = unat (heap_end lay) \<and>
    usermemGetFreeHeapSize st = hd fs \<and>
    usermemGetMinimumEverFreeHeapSize st \<in> set fs \<and> (\<forall>f\<in>set fs. usermemGetMinimumEverFreeHeapSize st \<le> f)"
proof -
  have ok: "run_ok lay st A fs" using heap_run_ok [OF assms(1)] assms(2) by blast
  then obtain ts where ts: "heap_ok lay st ts" "A = dom (live ts)" by (auto simp: run_ok_def)
  note R = ok [unfolded run_ok_def]
  have "unat (aligned_heap lay) + unat (xUserFreeBytesRemaining st) + (\<Sum>p\<in>A. block_bytes st p) = unat (heap_end lay)"
    using tiled_conserves [OF heap_okD(1) [OF ts(1)]] heap_okD(5) [OF ts(1)] taken_bytes_headers [OF ts(1)] R ts(2) by simp
  then show ?thesis
    using R assms(2) by (simp add: usermemGetFreeHeapSize_def usermemGetMinimumEverFreeHeapSize_def)
qed

theorem free_bytes_accounting_witness:
  "\<exists>st st'. usermalloc demo_layout demo_kernel 100 demo_boot = Inr (0x1040, st) \<and>
     userfree demo_layout demo_kernel 0x1040 st = Inr st' \<and>
     unat (usermemGetFreeHeapSize st') = 0xFC0 \<and> usermemGetMinimumEverFreeHeapSize st' = 0xF20"
proof -
  obtain st where st: "usermalloc demo_layout demo_kernel 100 demo_boot = Inr (0x1040, st)"
    "heap_ok demo_layout st [Tile 0x1020 160 True, Tile 0x10C0 0xF20 False]"
    using demo_malloc by blast
  have "heap_run demo_layout demo_boot {} []"
    by (rule heap_run.boot) (simp_all add: demo_layout_ok demo_boot_def)
  from heap_run.malloc [OF this st(1)] have r: "heap_run demo_layout st {0x1040} [usermemGetFreeHeapSize st]" by simp
  obtain st' where st': "userfree demo_layout demo_kernel 0x1040 st = Inr st'"
    using userfree_refines [OF st(2), of "0x1020" 160 demo_kernel] by (auto simp: demo_kernel_def alignment_constants)
  from heap_run.free [OF r _ st'] have r': "heap_run demo_layout st' {} [usermemGetFreeHeapSize st', usermemGetFreeHeapSize st]"
    by simp
  have f: "unat (usermemGetFreeHeapSize st) = 0xF20"
    using heap_okD(5) [OF st(2)] by (simp add: usermemGetFreeHeapSize_def free_bytes_def)
  then have f': "usermemGetFreeHeapSize st = 0xF20" by (simp add: word_unat_eq_iff)
  show ?thesis using free_bytes_accounting [OF r'] st(1) st' f' by (auto simp: demo_bounds word_le_nat_alt)
qed

end
