(* ===== verification/MemWrap.thy ===== *)
theory MemWrap
  imports HeapRun
begin

text \<open>
  The C library's allocation functions on top of the user heap
  (\<^verbatim>\<open>src/board/rt1051/memwrap.c\<close>, without the leak log, which the build leaves off) and the FreeRTOS
  application hooks of \<^verbatim>\<open>src/module-os/application.c\<close>. The newlib reentrancy argument of the
  \<^verbatim>\<open>_r\<close> variants is not read by the code and is dropped.
\<close>

section \<open>memwrap.c\<close>

definition free_c :: "heap_layout \<Rightarrow> kernel_view \<Rightarrow> addr \<Rightarrow> usermem \<Rightarrow> usermem outcome" where
  "free_c lay kv pv st = userfree lay kv pv st"

definition malloc :: "heap_layout \<Rightarrow> kernel_view \<Rightarrow> u32 \<Rightarrow> usermem \<Rightarrow> (addr \<times> usermem) outcome" where
  "malloc lay kv xWantedSize st = usermalloc lay kv xWantedSize st"

definition malloc_r :: "heap_layout \<Rightarrow> kernel_view \<Rightarrow> u32 \<Rightarrow> usermem \<Rightarrow> (addr \<times> usermem) outcome" where
  "malloc_r lay kv sz st = usermalloc lay kv sz st"

definition calloc :: "heap_layout \<Rightarrow> kernel_view \<Rightarrow> u32 \<Rightarrow> u32 \<Rightarrow> usermem \<Rightarrow> (addr \<times> usermem) outcome" where
  "calloc lay kv num elsize st =
     (let total = num * elsize
      in bind_outcome (usermalloc lay kv total st) (\<lambda>(p, st').
           if p = NULL then Inr (NULL, st')
           else Inr (p, st'\<lparr>payload := memset p 0 total (payload st')\<rparr>)))"

definition realloc :: "heap_layout \<Rightarrow> kernel_view \<Rightarrow> addr \<Rightarrow> u32 \<Rightarrow> usermem \<Rightarrow> (addr \<times> usermem) outcome" where
  "realloc lay kv aptr nbytes st = userrealloc lay kv aptr nbytes st"

definition calloc_r :: "heap_layout \<Rightarrow> kernel_view \<Rightarrow> u32 \<Rightarrow> u32 \<Rightarrow> usermem \<Rightarrow> (addr \<times> usermem) outcome" where
  "calloc_r lay kv a b st =
     (let total = a * b
      in bind_outcome (usermalloc lay kv total st) (\<lambda>(p, st').
           if p = NULL then Inr (NULL, st')
           else Inr (p, st'\<lparr>payload := memset p 0 total (payload st')\<rparr>)))"

definition free_r :: "heap_layout \<Rightarrow> kernel_view \<Rightarrow> addr \<Rightarrow> usermem \<Rightarrow> usermem outcome" where
  "free_r lay kv x st = userfree lay kv x st"

definition realloc_r :: "heap_layout \<Rightarrow> kernel_view \<Rightarrow> addr \<Rightarrow> u32 \<Rightarrow> usermem \<Rightarrow> (addr \<times> usermem) outcome" where
  "realloc_r lay kv x sz st = realloc lay kv x sz st"

section \<open>application.c\<close>

text \<open>The addresses of the static task buffers, chosen by the linker, and the configured depths.\<close>

record static_tasks =
  xIdleTaskTCB :: addr
  uxIdleTaskStack :: addr
  xTimerTaskTCB :: addr
  uxTimerTaskStack :: addr
  configMINIMAL_STACK_SIZE :: u32
  configTIMER_TASK_STACK_DEPTH :: u32

text \<open>The three out-parameters, in their order.\<close>

definition vApplicationGetIdleTaskMemory :: "static_tasks \<Rightarrow> addr \<times> addr \<times> u32" where
  "vApplicationGetIdleTaskMemory s = (xIdleTaskTCB s, uxIdleTaskStack s, configMINIMAL_STACK_SIZE s)"

definition vApplicationGetTimerTaskMemory :: "static_tasks \<Rightarrow> addr \<times> addr \<times> u32" where
  "vApplicationGetTimerTaskMemory s = (xTimerTaskTCB s, uxTimerTaskStack s, configTIMER_TASK_STACK_DEPTH s)"

text \<open>Logs the task's name, then \<^verbatim>\<open>abort()\<close>.\<close>

definition vApplicationStackOverflowHook :: "string \<Rightarrow> string list \<Rightarrow> string list \<times> unit outcome" where
  "vApplicationStackOverflowHook pcTaskName log = (log @ [''Stack overflow:'' @ pcTaskName], Inl Aborted)"

section \<open>Properties\<close>

lemma calloc_total: "unat (num * elsize) = unat num * unat elsize mod 4294967296" for num elsize :: u32
  by (simp add: unat_word_ariths)

lemma calloc_rel:
  assumes r: "heap_rel lay st ts" and irq: "\<not> isIRQ kv"
  shows "case alloc_spec (num * elsize) ts of
           None \<Rightarrow> calloc lay kv num elsize st = Inl Aborted
         | Some (a, us) \<Rightarrow> \<exists>st'. calloc lay kv num elsize st = Inr (a + xHeapStructSize, st') \<and> heap_ok lay st' us \<and>
             payload st' = memset (a + xHeapStructSize) 0 (num * elsize) (payload st)"
proof (cases "alloc_spec (num * elsize) ts")
  case None
  then show ?thesis using usermalloc_rel [OF assms, of "num * elsize"] by (simp add: calloc_def Let_def)
next
  case (Some c)
  obtain a us where c: "alloc_spec (num * elsize) ts = Some (a, us)" using Some by (cases c) auto
  obtain st1 where m: "usermalloc lay kv (num * elsize) st = Inr (a + xHeapStructSize, st1)" "heap_ok lay st1 us"
    "payload st1 = payload st"
    using usermalloc_rel [OF assms, of "num * elsize"] c by auto
  have "a + xHeapStructSize \<noteq> NULL"
    using m(1) by (auto simp: usermalloc_def bind_outcome_Inr_iff vApplicationMallocFailedHook_def split: if_splits)
  then show ?thesis using c m by (simp add: calloc_def Let_def)
qed

lemma memset_elsewhere:
  assumes "\<forall>i < unat n. x \<noteq> p + of_nat i"
  shows "memset p v n b x = b x"
proof -
  have "x = p + of_nat (unat (x - p))" by simp
  then show ?thesis using assms by (metis memset_def word_less_nat_alt)
qed

text \<open>
  C10. \<open>calloc\<close> of a product that fits \<^verbatim>\<open>size_t\<close> is first-fit allocation of that many bytes: it aborts when the
  specification finds no block (also for the product 0); otherwise it returns the payload pointer of the block found,
  the first \<open>num * elsize\<close> bytes from there are zero and every other byte is what it was.
\<close>

theorem calloc_correct:
  assumes "heap_rel lay st ts" "\<not> isIRQ kv" "unat num * unat elsize < 4294967296"
  shows "case alloc_spec (num * elsize) ts of
           None \<Rightarrow> calloc lay kv num elsize st = Inl Aborted
         | Some (a, us) \<Rightarrow> \<exists>st'. calloc lay kv num elsize st = Inr (a + xHeapStructSize, st') \<and> heap_ok lay st' us \<and>
             (\<forall>i < unat num * unat elsize. payload st' (a + xHeapStructSize + of_nat i) = 0) \<and>
             (\<forall>x. (\<forall>i < unat num * unat elsize. x \<noteq> a + xHeapStructSize + of_nat i) \<longrightarrow> payload st' x = payload st x)"
proof -
  have n: "unat (num * elsize) = unat num * unat elsize" using assms(3) by (simp add: calloc_total)
  show ?thesis
    using calloc_rel [OF assms(1,2), of num elsize] unfolding n [symmetric]
    by (auto simp: memset_inside memset_elsewhere split: option.splits)
qed

theorem calloc_correct_witness:
  "\<exists>st'. calloc demo_layout demo_kernel 25 4 demo_boot = Inr (0x1040, st') \<and>
     heap_ok demo_layout st' [Tile 0x1020 160 True, Tile 0x10C0 0xF20 False] \<and>
     (\<forall>i<100. payload st' (0x1040 + of_nat i) = 0)"
  using calloc_correct [OF demo_rel, of demo_kernel 25 4]
  by (auto simp: demo_alloc demo_kernel_def alignment_constants)

text \<open>
  The flaw of \<open>calloc\<close>: the product wraps and nothing checks it, so a call for 2^32 + 4 bytes
  (as 0x40000001 elements of 4 bytes) returns the block that a request of 4 bytes gets, not an error.
\<close>

theorem calloc_wraps:
  "\<exists>st'. calloc demo_layout demo_kernel 0x40000001 4 demo_boot = Inr (0x1040, st') \<and>
     heap_ok demo_layout st' [Tile 0x1020 64 True, Tile 0x1060 0xF80 False]"
proof -
  have "alloc_spec 4 (initial_heap demo_layout) = Some (0x1020, [Tile 0x1020 64 True, Tile 0x1060 0xF80 False])"
    by (simp add: alloc_spec_def initial_heap_def demo_bounds adjusted_size_def split_tile_def
        alignment_constants usermemBYTE_ALIGNMENT_MASK_def Let_def)
  then obtain st' where "usermalloc demo_layout demo_kernel 4 demo_boot = Inr (0x1040, st')"
    "heap_ok demo_layout st' [Tile 0x1020 64 True, Tile 0x1060 0xF80 False]"
    using usermalloc_rel [OF demo_rel, of demo_kernel 4] by (auto simp: demo_kernel_def alignment_constants)
  moreover have wrap: "(0x40000001 :: u32) * 4 = 4" by (simp add: word_unat_eq_iff)
  ultimately show ?thesis unfolding calloc_def Let_def wrap by simp
qed

end
