(* ===== verification/Fifo.thy ===== *)
theory Fifo
  imports Prelude
begin

text \<open>
  The contract of a first-in first-out buffer, shared by the buffers of the board support code: an abstract
  queue with the reply of every call, refusals included, and the law that any sequence of calls on an
  implementation gets the replies of the abstract queue.
\<close>

section \<open>The abstract queue\<close>

datatype 'a call = Put 'a | Get

datatype ('r, 'a) reply = PutReply 'r | GetReply "'a option"

text \<open>
  \<open>verdict xs x\<close> is what adding \<open>x\<close> to the elements \<open>xs\<close> answers; the element is taken in if the answer is
  \<open>okay\<close>, and refused otherwise. Taking from an empty queue gives nothing.
\<close>

fun queue_call :: "('a list \<Rightarrow> 'a \<Rightarrow> 'r) \<Rightarrow> 'r \<Rightarrow> 'a call \<Rightarrow> 'a list \<Rightarrow> ('r, 'a) reply \<times> 'a list" where
  "queue_call verdict okay (Put x) xs = (PutReply (verdict xs x), if verdict xs x = okay then xs @ [x] else xs)"
| "queue_call verdict okay Get [] = (GetReply None, [])"
| "queue_call verdict okay Get (x # xs) = (GetReply (Some x), xs)"

fun queue_run :: "('a list \<Rightarrow> 'a \<Rightarrow> 'r) \<Rightarrow> 'r \<Rightarrow> 'a call list \<Rightarrow> 'a list \<Rightarrow> ('r, 'a) reply list \<times> 'a list" where
  "queue_run verdict okay [] xs = ([], xs)"
| "queue_run verdict okay (c # cs) xs =
     (let (r, ys) = queue_call verdict okay c xs; (rs, zs) = queue_run verdict okay cs ys in (r # rs, zs))"

text \<open>A sequence of calls in which every added element may be added at that moment.\<close>

fun legal_calls :: "('a list \<Rightarrow> 'a \<Rightarrow> bool) \<Rightarrow> ('a list \<Rightarrow> 'a \<Rightarrow> 'r) \<Rightarrow> 'r \<Rightarrow> 'a call list \<Rightarrow> 'a list \<Rightarrow> bool" where
  "legal_calls legal verdict okay [] xs \<longleftrightarrow> True"
| "legal_calls legal verdict okay (Put x # cs) xs \<longleftrightarrow>
     legal xs x \<and> legal_calls legal verdict okay cs (if verdict xs x = okay then xs @ [x] else xs)"
| "legal_calls legal verdict okay (Get # cs) xs \<longleftrightarrow> legal_calls legal verdict okay cs (tl xs)"

lemma all_calls_legal [simp]: "legal_calls (\<lambda>xs x. True) verdict okay cs xs"
proof (induction cs arbitrary: xs)
  case (Cons c cs)
  then show ?case by (cases c) simp_all
qed simp

text \<open>What a run took in and what it gave out, in order.\<close>

fun taken_in :: "'r \<Rightarrow> 'a call list \<Rightarrow> ('r, 'a) reply list \<Rightarrow> 'a list" where
  "taken_in okay (Put x # cs) (PutReply r # rs) = (if r = okay then x # taken_in okay cs rs else taken_in okay cs rs)"
| "taken_in okay (c # cs) (r # rs) = taken_in okay cs rs"
| "taken_in okay _ _ = []"

fun given_out :: "('r, 'a) reply list \<Rightarrow> 'a list" where
  "given_out [] = []"
| "given_out (GetReply (Some x) # rs) = x # given_out rs"
| "given_out (r # rs) = given_out rs"

text \<open>Nothing is lost, repeated or reordered.\<close>

lemma queue_run_conserves:
  "queue_run verdict okay cs xs = (rs, zs) \<Longrightarrow> given_out rs @ zs = xs @ taken_in okay cs rs"
proof (induction cs arbitrary: xs rs)
  case (Cons c cs)
  obtain r ys where c: "queue_call verdict okay c xs = (r, ys)" by fastforce
  obtain qs where q: "queue_run verdict okay cs ys = (qs, zs)" "rs = r # qs"
    using Cons.prems c by (auto split: prod.splits)
  have "given_out qs @ zs = ys @ taken_in okay cs qs" using q(1) by (rule Cons.IH)
  then show ?case using c q(2) by (cases c; cases xs) (auto split: if_splits)
qed simp

section \<open>The calls on an implementation\<close>

fun impl_call :: "('a \<Rightarrow> 's \<Rightarrow> ('r \<times> 's) outcome) \<Rightarrow> ('s \<Rightarrow> ('a option \<times> 's) outcome) \<Rightarrow>
    'a call \<Rightarrow> 's \<Rightarrow> (('r, 'a) reply \<times> 's) outcome" where
  "impl_call put get (Put x) s = bind_outcome (put x s) (\<lambda>(r, s'). Inr (PutReply r, s'))"
| "impl_call put get Get s = bind_outcome (get s) (\<lambda>(x, s'). Inr (GetReply x, s'))"

fun impl_run :: "('a \<Rightarrow> 's \<Rightarrow> ('r \<times> 's) outcome) \<Rightarrow> ('s \<Rightarrow> ('a option \<times> 's) outcome) \<Rightarrow>
    'a call list \<Rightarrow> 's \<Rightarrow> (('r, 'a) reply list \<times> 's) outcome" where
  "impl_run put get [] s = Inr ([], s)"
| "impl_run put get (c # cs) s =
     bind_outcome (impl_call put get c s) (\<lambda>(r, s'). bind_outcome (impl_run put get cs s') (\<lambda>(rs, s''). Inr (r # rs, s'')))"

locale fifo =
  fixes rep :: "'s \<Rightarrow> 'a list \<Rightarrow> bool"
    and legal :: "'a list \<Rightarrow> 'a \<Rightarrow> bool"
    and verdict :: "'a list \<Rightarrow> 'a \<Rightarrow> 'r"
    and okay :: 'r
    and put :: "'a \<Rightarrow> 's \<Rightarrow> ('r \<times> 's) outcome"
    and get :: "'s \<Rightarrow> ('a option \<times> 's) outcome"
  assumes put_law: "rep s xs \<Longrightarrow> legal xs x \<Longrightarrow>
      \<exists>s'. put x s = Inr (verdict xs x, s') \<and> rep s' (if verdict xs x = okay then xs @ [x] else xs)"
    and get_empty_law: "rep s [] \<Longrightarrow> \<exists>s'. get s = Inr (None, s') \<and> rep s' []"
    and get_law: "rep s (x # xs) \<Longrightarrow> \<exists>s'. get s = Inr (Some x, s') \<and> rep s' xs"
begin

lemma call_law:
  assumes "rep s xs" "legal_calls legal verdict okay (c # cs) xs"
  shows "\<exists>r ys s'. impl_call put get c s = Inr (r, s') \<and> queue_call verdict okay c xs = (r, ys) \<and> rep s' ys \<and>
    legal_calls legal verdict okay cs ys"
proof (cases c)
  case (Put x)
  then show ?thesis using put_law [OF assms(1)] assms(2) by fastforce
next
  case Get
  then show ?thesis using get_empty_law [of s] get_law [of s] assms by (cases xs) fastforce+
qed

lemma run_law:
  "rep s xs \<Longrightarrow> legal_calls legal verdict okay cs xs \<Longrightarrow>
   \<exists>s'. impl_run put get cs s = Inr (fst (queue_run verdict okay cs xs), s') \<and> rep s' (snd (queue_run verdict okay cs xs))"
proof (induction cs arbitrary: s xs)
  case (Cons c cs)
  obtain r ys s1 where 1: "impl_call put get c s = Inr (r, s1)" "queue_call verdict okay c xs = (r, ys)" "rep s1 ys"
    "legal_calls legal verdict okay cs ys"
    using call_law [OF Cons.prems] by blast
  from Cons.IH [OF 1(3,4)] 1(1,2) show ?case by (auto simp: case_prod_beta)
qed simp

text \<open>
  The replies of an implementation are those of the abstract queue, and what is given out and what remains
  is what was there and what was taken in, in this order.
\<close>

lemma run_refines:
  assumes "rep s xs" "legal_calls legal verdict okay cs xs"
  shows "\<exists>s' rs zs. impl_run put get cs s = Inr (rs, s') \<and> queue_run verdict okay cs xs = (rs, zs) \<and> rep s' zs \<and>
    given_out rs @ zs = xs @ taken_in okay cs rs"
  using run_law [OF assms] queue_run_conserves [of verdict okay cs xs]
  by (cases "queue_run verdict okay cs xs") auto

end

end
