(* ===== verification/GenericList.thy ===== *)
theory GenericList
  imports Fifo
begin

text \<open>
  The intrusive singly linked list of \<^verbatim>\<open>fsl_component_generic_list.c\<close>
  (under \<^verbatim>\<open>src/module-bsp/board/rt1051/bsp/eMMC\<close>) in its light variant without duplicate check, as
  \<^verbatim>\<open>GENERIC_LIST_LIGHT\<close> and \<^verbatim>\<open>GENERIC_LIST_DUPLICATED_CHECKING\<close> select it. The OS abstraction layer
  keeps its tasks in such a list. List labels and elements are objects of a store, named by their
  addresses; the critical sections make each operation atomic.
\<close>

section \<open>Data\<close>

datatype list_status = kLIST_Ok | kLIST_DuplicateError | kLIST_Full | kLIST_Empty | kLIST_OrphanElement | kLIST_NotSupport

record list_label =
  head :: addr
  tail :: addr
  lsize :: u32
  lmax :: u32

record list_element =
  enext :: addr
  elist :: addr

record list_store =
  labels :: "addr \<Rightarrow> list_label"
  elements :: "addr \<Rightarrow> list_element"

definition upd_label :: "addr \<Rightarrow> (list_label \<Rightarrow> list_label) \<Rightarrow> list_store \<Rightarrow> list_store" where
  "upd_label l f w = w\<lparr>labels := (labels w)(l := f (labels w l))\<rparr>"

definition upd_element :: "addr \<Rightarrow> (list_element \<Rightarrow> list_element) \<Rightarrow> list_store \<Rightarrow> list_store" where
  "upd_element e f w = w\<lparr>elements := (elements w)(e := f (elements w e))\<rparr>"

section \<open>Operations\<close>

definition LIST_Error_Check :: "addr \<Rightarrow> addr \<Rightarrow> list_store \<Rightarrow> list_status" where
  "LIST_Error_Check l newElement w =
     (if lmax (labels w l) \<noteq> 0 \<and> lmax (labels w l) = lsize (labels w l) then kLIST_Full else kLIST_Ok)"

definition LIST_Init :: "addr \<Rightarrow> u32 \<Rightarrow> list_store \<Rightarrow> list_store" where
  "LIST_Init l maximum = upd_label l (\<lambda>b. b\<lparr>head := NULL, tail := NULL, lmax := maximum, lsize := 0\<rparr>)"

definition LIST_GetList :: "addr \<Rightarrow> list_store \<Rightarrow> addr" where
  "LIST_GetList e w = elist (elements w e)"

definition LIST_AddTail :: "addr \<Rightarrow> addr \<Rightarrow> list_store \<Rightarrow> (list_status \<times> list_store) outcome" where
  "LIST_AddTail l e w =
     (let st = LIST_Error_Check l e w
      in if st \<noteq> kLIST_Ok then Inr (st, w)
         else bind_outcome
                (if lsize (labels w l) = 0 then Inr (upd_label l (\<lambda>b. b\<lparr>head := e\<rparr>) w)
                 else if tail (labels w l) = NULL then Inl NullDeref
                 else Inr (upd_element (tail (labels w l)) (\<lambda>x. x\<lparr>enext := e\<rparr>) w))
                (\<lambda>w1. Inr (st, upd_label l (\<lambda>b. b\<lparr>tail := e, lsize := lsize b + 1\<rparr>)
                                 (upd_element e (\<lambda>x. x\<lparr>elist := l, enext := NULL\<rparr>) w1))))"

definition LIST_AddHead :: "addr \<Rightarrow> addr \<Rightarrow> list_store \<Rightarrow> list_status \<times> list_store" where
  "LIST_AddHead l e w =
     (let st = LIST_Error_Check l e w
      in if st \<noteq> kLIST_Ok then (st, w)
         else (let w1 = (if lsize (labels w l) = 0 then upd_label l (\<lambda>b. b\<lparr>tail := e\<rparr>) w else w);
                   w2 = upd_element e (\<lambda>x. x\<lparr>elist := l, enext := head (labels w1 l)\<rparr>) w1
               in (st, upd_label l (\<lambda>b. b\<lparr>head := e, lsize := lsize b + 1\<rparr>) w2)))"

definition LIST_RemoveHead :: "addr \<Rightarrow> list_store \<Rightarrow> (addr \<times> list_store) outcome" where
  "LIST_RemoveHead l w =
     (if l = NULL \<or> lsize (labels w l) = 0 then Inr (NULL, w)
      else (let e = head (labels w l);
                w1 = upd_label l (\<lambda>b. b\<lparr>lsize := lsize b - 1\<rparr>) w;
                w2 = (if lsize (labels w1 l) = 0 then upd_label l (\<lambda>b. b\<lparr>tail := NULL\<rparr>) w1 else w1)
            in if e = NULL then Inl NullDeref
               else Inr (e, upd_label l (\<lambda>b. b\<lparr>head := enext (elements w2 e)\<rparr>)
                              (upd_element e (\<lambda>x. x\<lparr>elist := NULL\<rparr>) w2))))"

definition LIST_GetHead :: "addr \<Rightarrow> list_store \<Rightarrow> addr" where
  "LIST_GetHead l w = head (labels w l)"

definition LIST_GetNext :: "addr \<Rightarrow> list_store \<Rightarrow> addr" where
  "LIST_GetNext e w = enext (elements w e)"

definition LIST_GetPrev :: "addr \<Rightarrow> list_store \<Rightarrow> addr" where
  "LIST_GetPrev e w = NULL"

text \<open>The search loop of \<open>LIST_RemoveElement\<close> and the one of \<open>LIST_AddPrevElement\<close>.\<close>

partial_function (option) unlink_walk :: "addr \<Rightarrow> addr \<Rightarrow> addr \<Rightarrow> list_store \<Rightarrow> list_store option" where
  "unlink_walk l e it w =
     (if it = NULL then Some w
      else if head (labels w l) = e then Some (upd_label l (\<lambda>b. b\<lparr>head := enext (elements w it)\<rparr>) w)
      else if enext (elements w it) = e
           then Some (upd_element it (\<lambda>x. x\<lparr>enext := enext (elements w e)\<rparr>) w)
      else unlink_walk l e (enext (elements w it)) w)"

partial_function (option) insert_walk :: "addr \<Rightarrow> addr \<Rightarrow> addr \<Rightarrow> addr \<Rightarrow> list_store \<Rightarrow> list_store option" where
  "insert_walk l e new it w =
     (if it = NULL then Some w
      else if enext (elements w it) = e \<or> it = e
      then Some (let w1 = (if it = e then upd_label l (\<lambda>b. b\<lparr>head := new\<rparr>) w
                           else upd_element it (\<lambda>x. x\<lparr>enext := new\<rparr>) w);
                     w2 = upd_element new (\<lambda>x. x\<lparr>elist := elist (elements w1 e)\<rparr>) w1;
                     w3 = upd_element new (\<lambda>x. x\<lparr>enext := e\<rparr>) w2
                 in upd_label (elist (elements w3 e)) (\<lambda>b. b\<lparr>lsize := lsize b + 1\<rparr>) w3)
      else insert_walk l e new (enext (elements w it)) w)"

declare unlink_walk.simps [code] insert_walk.simps [code]

definition LIST_RemoveElement :: "addr \<Rightarrow> list_store \<Rightarrow> (list_status \<times> list_store) outcome" where
  "LIST_RemoveElement e w =
     (let l = elist (elements w e)
      in if l = NULL then Inr (kLIST_OrphanElement, w)
         else bind_outcome (of_option Diverged (unlink_walk l e (head (labels w l)) w)) (\<lambda>w1.
                Inr (kLIST_Ok, upd_element e (\<lambda>x. x\<lparr>elist := NULL\<rparr>)
                                 (upd_label l (\<lambda>b. b\<lparr>lsize := lsize b - 1\<rparr>) w1))))"

definition LIST_AddPrevElement :: "addr \<Rightarrow> addr \<Rightarrow> list_store \<Rightarrow> (list_status \<times> list_store) outcome" where
  "LIST_AddPrevElement e new w =
     (let l = elist (elements w e)
      in if l = NULL then Inr (kLIST_OrphanElement, w)
         else (let st = LIST_Error_Check l new w
               in if st \<noteq> kLIST_Ok then Inr (st, w)
                  else bind_outcome (of_option Diverged (insert_walk l e new (head (labels w l)) w))
                         (\<lambda>w1. Inr (st, w1))))"

definition LIST_GetSize :: "addr \<Rightarrow> list_store \<Rightarrow> u32" where
  "LIST_GetSize l w = lsize (labels w l)"

definition LIST_GetAvailableSize :: "addr \<Rightarrow> list_store \<Rightarrow> u32" where
  "LIST_GetAvailableSize l w = lmax (labels w l) - lsize (labels w l)"

section \<open>The sequence a list stands for\<close>

primrec chain :: "(addr \<Rightarrow> list_element) \<Rightarrow> addr \<Rightarrow> addr list \<Rightarrow> bool" where
  "chain f p [] \<longleftrightarrow> p = NULL"
| "chain f p (x # xs) \<longleftrightarrow> p = x \<and> x \<noteq> NULL \<and> chain f (enext (f x)) xs"

definition list_rep :: "addr \<Rightarrow> list_store \<Rightarrow> addr list \<Rightarrow> bool" where
  "list_rep l w xs \<longleftrightarrow>
     l \<noteq> NULL \<and> chain (elements w) (head (labels w l)) xs \<and> distinct xs \<and>
     (\<forall>x\<in>set xs. elist (elements w x) = l) \<and>
     unat (lsize (labels w l)) = length xs \<and> (xs \<noteq> [] \<longrightarrow> tail (labels w l) = last xs)"

lemma list_repD:
  assumes "list_rep l w xs"
  shows "l \<noteq> NULL" "chain (elements w) (head (labels w l)) xs" "distinct xs"
    "\<And>x. x \<in> set xs \<Longrightarrow> elist (elements w x) = l"
    "unat (lsize (labels w l)) = length xs" "xs \<noteq> [] \<Longrightarrow> tail (labels w l) = last xs"
  using assms by (simp_all add: list_rep_def)

lemma upd_simps [simp]:
  "labels (upd_label l f w) = (labels w)(l := f (labels w l))" "elements (upd_label l f w) = elements w"
  "elements (upd_element e g w) = (elements w)(e := g (elements w e))" "labels (upd_element e g w) = labels w"
  by (simp_all add: upd_label_def upd_element_def)

lemma chain_cong: "(\<And>x. x \<in> set xs \<Longrightarrow> enext (g x) = enext (f x)) \<Longrightarrow> chain g p xs = chain f p xs"
  by (induction xs arbitrary: p) auto

lemma chain_nonnull: "chain f p xs \<Longrightarrow> x \<in> set xs \<Longrightarrow> x \<noteq> NULL"
  by (induction xs arbitrary: p) auto

lemma chain_unique: "chain f p xs \<Longrightarrow> chain f p ys \<Longrightarrow> xs = ys"
proof (induction xs arbitrary: p ys)
  case Nil
  then show ?case by (cases ys) auto
next
  case (Cons x xs)
  then show ?case by (cases ys) auto
qed

lemma chain_snoc:
  assumes "chain f p (xs @ [t])" "distinct (xs @ [t])" "e \<notin> set (xs @ [t])" "e \<noteq> NULL"
    and "enext (g t) = e" "enext (g e) = NULL" "\<And>x. x \<in> set xs \<Longrightarrow> enext (g x) = enext (f x)"
  shows "chain g p (xs @ [t, e])"
  using assms by (induction xs arbitrary: p) auto

lemma chain_middle:
  "chain f p (as @ x # bs) \<Longrightarrow> chain f (enext (f x)) bs"
  by (induction as arbitrary: p) auto

lemma chain_replace:
  assumes "chain f p (as @ a # bs)" "a \<notin> set as" "\<And>x. x \<in> set as \<Longrightarrow> enext (g x) = enext (f x)"
    and "chain g (enext (g a)) cs"
  shows "chain g p (as @ a # cs)"
  using assms by (induction as arbitrary: p) auto

section \<open>The operations on the sequence\<close>

text \<open>Not full, and the counter does not wrap.\<close>

definition list_room :: "addr \<Rightarrow> list_store \<Rightarrow> bool" where
  "list_room l w \<longleftrightarrow>
     (lmax (labels w l) = 0 \<or> lmax (labels w l) \<noteq> lsize (labels w l)) \<and>
     unat (lsize (labels w l)) + 1 < 2 ^ 32"

lemma list_room_ok: "list_room l w \<Longrightarrow> LIST_Error_Check l e w = kLIST_Ok"
  by (auto simp: LIST_Error_Check_def list_room_def)

lemma size_increment: "list_room l w \<Longrightarrow> unat (lsize (labels w l) + 1) = unat (lsize (labels w l)) + 1"
  unfolding list_room_def by (subst unat_add_no_wrap) simp_all

lemma LIST_Init_rep: "l \<noteq> NULL \<Longrightarrow> list_rep l (LIST_Init l maximum w) []"
  by (simp add: LIST_Init_def list_rep_def)

lemma LIST_AddTail_rep:
  assumes rep: "list_rep l w xs" and e: "e \<noteq> NULL" "e \<notin> set xs" and room: "list_room l w"
  shows "\<exists>w'. LIST_AddTail l e w = Inr (kLIST_Ok, w') \<and> list_rep l w' (xs @ [e]) \<and>
           lmax (labels w' l) = lmax (labels w l)"
proof -
  note R = list_repD [OF rep] and S = size_increment [OF room] and K = list_room_ok [OF room]
  show ?thesis
  proof (cases xs rule: rev_cases)
    case Nil
    then have "lsize (labels w l) = 0" using R(5) by (simp add: unat_eq_0)
    with R(1,5) S K e Nil show ?thesis
      by (simp add: LIST_AddTail_def list_rep_def)
  next
    case (snoc ys t)
    have "t \<noteq> NULL" using R(2) snoc by (intro chain_nonnull [of "elements w" "head (labels w l)" xs]) simp_all
    moreover have "tail (labels w l) = t" using R(6) snoc by simp
    moreover have "lsize (labels w l) \<noteq> 0" using R(5) snoc by auto
    ultimately have t: "tail (labels w l) = t" "t \<noteq> NULL" "lsize (labels w l) \<noteq> 0" by simp_all
    define g where "g = (elements w)(t := (elements w t)\<lparr>enext := e\<rparr>)"
    define f' where "f' = g(e := (g e)\<lparr>elist := l, enext := NULL\<rparr>)"
    have ne: "t \<noteq> e" "t \<notin> set ys" "e \<notin> set ys" using e(2) R(3) snoc by auto
    have "chain f' (head (labels w l)) (ys @ [t, e])"
      using R(2,3) e ne unfolding snoc
      by (intro chain_snoc [of "elements w"]) (auto simp: f'_def g_def)
    moreover have "elist (f' x) = l" if "x \<in> set (xs @ [e])" for x
      using R(4) [of x] that e by (auto simp: f'_def g_def)
    ultimately have "list_rep l (upd_label l (\<lambda>b. b\<lparr>tail := e, lsize := lsize b + 1\<rparr>) (w\<lparr>elements := f'\<rparr>)) (xs @ [e])"
      using R(1,3,5) S e ne(1) snoc by (simp add: list_rep_def)
    moreover have "LIST_AddTail l e w =
        Inr (kLIST_Ok, upd_label l (\<lambda>b. b\<lparr>tail := e, lsize := lsize b + 1\<rparr>) (w\<lparr>elements := f'\<rparr>))"
      using K t by (simp add: LIST_AddTail_def f'_def g_def upd_element_def)
    ultimately show ?thesis by simp
  qed
qed

lemma LIST_AddHead_rep:
  assumes rep: "list_rep l w xs" and e: "e \<noteq> NULL" "e \<notin> set xs" and room: "list_room l w"
  shows "\<exists>w'. LIST_AddHead l e w = (kLIST_Ok, w') \<and> list_rep l w' (e # xs)"
proof -
  note R = list_repD [OF rep] and S = size_increment [OF room] and K = list_room_ok [OF room]
  define f' where "f' = (elements w)(e := (elements w e)\<lparr>elist := l, enext := head (labels w l)\<rparr>)"
  have "chain f' (head (labels w l)) xs"
    using R(2) e by (subst chain_cong [of xs _ "elements w"]) (auto simp: f'_def)
  moreover have "lsize (labels w l) = 0 \<longleftrightarrow> xs = []" using R(5) by (simp add: unat_eq_0 [symmetric])
  moreover have "elist (f' x) = l" if "x \<in> set (e # xs)" for x
    using R(4) [of x] that by (auto simp: f'_def)
  moreover have "f' e = (elements w e)\<lparr>elist := l, enext := head (labels w l)\<rparr>" by (simp add: f'_def)
  ultimately show ?thesis
    using R(1,3,5,6) S K e
    by (cases "xs = []") (simp_all add: LIST_AddHead_def list_rep_def Let_def f'_def [symmetric])
qed

lemma LIST_RemoveHead_rep:
  assumes rep: "list_rep l w (x # xs)"
  shows "\<exists>w'. LIST_RemoveHead l w = Inr (x, w') \<and> list_rep l w' xs \<and> elist (elements w' x) = NULL \<and>
           lmax (labels w' l) = lmax (labels w l)"
proof -
  note R = list_repD [OF rep]
  have s: "lsize (labels w l) \<noteq> 0" using R(5) by auto
  then have s1: "unat (lsize (labels w l) - 1) = length xs"
    using R(5) by (subst unat_sub_no_wrap) auto
  have z: "lsize (labels w l) - 1 = 0 \<longleftrightarrow> xs = []" using s1 unat_eq_0 [of "lsize (labels w l) - 1"] by auto
  define f' where "f' = (elements w)(x := (elements w x)\<lparr>elist := NULL\<rparr>)"
  have "chain f' (enext (elements w x)) xs"
    using R(2,3) by (subst chain_cong [of xs _ "elements w"]) (auto simp: f'_def)
  moreover have "elist (f' y) = l" if "y \<in> set xs" for y
    using R(4) [of y] R(3) that by (auto simp: f'_def)
  moreover have "head (labels w l) = x" "x \<noteq> 0" using R(2) by simp_all
  moreover have "elist (f' x) = 0" "enext (f' x) = enext (elements w x)" by (simp_all add: f'_def)
  ultimately show ?thesis
    using R(1,3,6) s s1 z
    by (cases "xs = []") (simp_all add: LIST_RemoveHead_def list_rep_def Let_def f'_def [symmetric])
qed

text \<open>The walks stop at the predecessor of the element they look for.\<close>

lemma unlink_walk_found:
  assumes "chain (elements w) p (as @ a # e # bs)" "head (labels w l) \<noteq> e" "distinct (as @ a # e # bs)"
  shows "unlink_walk l e p w = Some (upd_element a (\<lambda>x. x\<lparr>enext := enext (elements w e)\<rparr>) w)"
  using assms
proof (induction as arbitrary: p)
  case Nil
  then show ?case by (subst unlink_walk.simps) auto
next
  case (Cons b as)
  have "enext (elements w b) \<noteq> e" using Cons.prems by (cases as) auto
  then show ?case using Cons by (subst unlink_walk.simps) auto
qed

lemma insert_walk_found:
  assumes "chain (elements w) p (as @ a # e # bs)" "distinct (as @ a # e # bs)"
  shows "insert_walk l e new p w = insert_walk l e new a w"
  using assms
proof (induction as arbitrary: p)
  case (Cons b as)
  have ne: "enext (elements w b) \<noteq> e" "b \<noteq> e" using Cons.prems by (cases as; auto)+
  have "insert_walk l e new (enext (elements w b)) w = insert_walk l e new a w"
    using Cons by simp
  then show ?case using Cons.prems ne by (subst insert_walk.simps) auto
qed simp

text \<open>Removing an element that is not the last one.\<close>

lemma LIST_RemoveElement_inner:
  assumes rep: "list_rep l w (as @ e # b # bs)"
  shows "\<exists>w'. LIST_RemoveElement e w = Inr (kLIST_Ok, w') \<and> list_rep l w' (as @ b # bs) \<and>
           elist (elements w' e) = NULL"
proof -
  note R = list_repD [OF rep]
  let ?n = "enext (elements w e)"
  have l: "elist (elements w e) = l" using R(4) [of e] by simp
  have s1: "unat (lsize (labels w l) - 1) = length (as @ b # bs)"
    using R(5) by (subst unat_sub_no_wrap) auto
  have tl: "chain (elements w) ?n (b # bs)" using R(2) by (rule chain_middle)
  have last: "tail (labels w l) = last (as @ b # bs)" using R(6) by simp
  show ?thesis
  proof (cases as rule: rev_cases)
    case Nil
    then have h: "head (labels w l) = e" "e \<noteq> NULL" using R(2) by auto
    have walk: "unlink_walk l e e w = Some (upd_label l (\<lambda>x. x\<lparr>head := ?n\<rparr>) w)"
      using h by (subst unlink_walk.simps) simp
    define f' where "f' = (elements w)(e := (elements w e)\<lparr>elist := NULL\<rparr>)"
    have "chain f' ?n (b # bs)"
      using tl R(3) Nil by (subst chain_cong [of "b # bs" _ "elements w"]) (auto simp: f'_def)
    moreover have "elist (f' y) = l" if "y \<in> set (b # bs)" for y
      using R(4) [of y] R(3) Nil that by (auto simp: f'_def)
    ultimately show ?thesis
      using R(1,3) s1 last Nil h l walk
      by (simp add: LIST_RemoveElement_def list_rep_def f'_def [symmetric] del: chain.simps)
        (simp add: f'_def)
  next
    case (snoc zs a)
    have dist: "distinct (zs @ a # e # b # bs)" and ch: "chain (elements w) (head (labels w l)) (zs @ a # e # b # bs)"
      using R(2,3) snoc by simp_all
    have h: "head (labels w l) \<noteq> e" using ch dist by (cases zs) auto
    note walk = unlink_walk_found [OF ch h dist]
    define g where "g = (elements w)(a := (elements w a)\<lparr>enext := ?n\<rparr>)"
    define f' where "f' = g(e := (g e)\<lparr>elist := NULL\<rparr>)"
    have eq: "enext (f' x) = enext (elements w x)" if "x \<in> set zs" for x
      using that dist by (auto simp: f'_def g_def)
    have "chain f' (enext (f' a)) (b # bs)"
      using tl dist by (subst chain_cong [of "b # bs" _ "elements w"]) (auto simp: f'_def g_def)
    then have "chain f' (head (labels w l)) (zs @ a # b # bs)"
      using dist by (intro chain_replace [OF ch _ eq]) simp_all
    moreover have "elist (f' y) = l" if "y \<in> set (as @ b # bs)" for y
      using R(4) [of y] R(3) snoc that by (auto simp: f'_def g_def)
    moreover have "LIST_RemoveElement e w =
        Inr (kLIST_Ok, upd_label l (\<lambda>b. b\<lparr>lsize := lsize b - 1\<rparr>) (w\<lparr>elements := f'\<rparr>))"
      using l R(1) walk by (simp add: LIST_RemoveElement_def f'_def g_def upd_element_def upd_label_def)
    moreover have "elist (f' e) = NULL" by (simp add: f'_def)
    ultimately show ?thesis
      using R(1,3) s1 last snoc by (simp add: list_rep_def)
  qed
qed

text \<open>
  Removing the last of several elements: the element leaves the chain and the counter goes down, but
  the tail pointer still names it, so the result stands for no sequence at all.
\<close>

lemma LIST_RemoveElement_last:
  assumes rep: "list_rep l w (as @ [a, e])"
  shows "\<exists>w'. LIST_RemoveElement e w = Inr (kLIST_Ok, w') \<and>
           chain (elements w') (head (labels w' l)) (as @ [a]) \<and> lsize (labels w' l) = lsize (labels w l) - 1 \<and>
           tail (labels w' l) = e \<and> lmax (labels w' l) = lmax (labels w l)"
proof -
  note R = list_repD [OF rep]
  have l: "elist (elements w e) = l" using R(4) [of e] by simp
  have h: "head (labels w l) \<noteq> e" using R(2,3) by (cases as) auto
  have n: "enext (elements w e) = NULL" using chain_middle [of "elements w" _ "as @ [a]" e "[]"] R(2) by auto
  note walk = unlink_walk_found [OF R(2) h R(3)]
  define g where "g = (elements w)(a := (elements w a)\<lparr>enext := NULL\<rparr>)"
  define f' where "f' = g(e := (g e)\<lparr>elist := NULL\<rparr>)"
  have "LIST_RemoveElement e w =
      Inr (kLIST_Ok, upd_label l (\<lambda>b. b\<lparr>lsize := lsize b - 1\<rparr>) (w\<lparr>elements := f'\<rparr>))"
    using l R(1) walk n by (simp add: LIST_RemoveElement_def f'_def g_def upd_element_def upd_label_def)
  moreover have "chain f' (head (labels w l)) (as @ [a])"
  proof (rule chain_replace [OF R(2)])
    show "a \<notin> set as" using R(3) by simp
    show "enext (f' x) = enext (elements w x)" if "x \<in> set as" for x
      using that R(3) by (auto simp: f'_def g_def)
    show "chain f' (enext (f' a)) []" using R(3) by (simp add: f'_def g_def)
  qed
  moreover have "tail (labels w l) = e" using R(6) by simp
  ultimately show ?thesis by simp
qed

text \<open>The only element of a list can be removed: an empty list does not read its tail.\<close>

lemma LIST_RemoveElement_only:
  assumes rep: "list_rep l w [e]"
  shows "\<exists>w'. LIST_RemoveElement e w = Inr (kLIST_Ok, w') \<and> list_rep l w' []"
proof -
  note R = list_repD [OF rep]
  have l: "elist (elements w e) = l" "head (labels w l) = e" "e \<noteq> NULL" "enext (elements w e) = NULL"
    using R(2) R(4) [of e] by auto
  have "unlink_walk l e e w = Some (upd_label l (\<lambda>x. x\<lparr>head := NULL\<rparr>) w)"
    using l by (subst unlink_walk.simps) simp
  moreover have "unat (lsize (labels w l) - 1) = 0" using R(5) by (subst unat_sub_no_wrap) auto
  ultimately show ?thesis
    using l R(1) by (simp add: LIST_RemoveElement_def list_rep_def)
qed

lemma LIST_AddPrevElement_rep:
  assumes rep: "list_rep l w (as @ e # bs)" and new: "new \<noteq> NULL" "new \<notin> set (as @ e # bs)"
    and room: "list_room l w"
  shows "\<exists>w'. LIST_AddPrevElement e new w = Inr (kLIST_Ok, w') \<and> list_rep l w' (as @ new # e # bs)"
proof -
  note R = list_repD [OF rep] and S = size_increment [OF room] and K = list_room_ok [OF room]
  have l: "elist (elements w e) = l" using R(4) [of e] by simp
  have e0: "e \<noteq> NULL" using R(2) by (rule chain_nonnull) simp
  have tl: "chain (elements w) (enext (elements w e)) bs" using R(2) by (rule chain_middle)
  have ne: "new \<noteq> e" "new \<notin> set as" "new \<notin> set bs" using new by auto
  show ?thesis
  proof (cases as rule: rev_cases)
    case Nil
    then have h: "head (labels w l) = e" using R(2) by simp
    define f' where "f' = (elements w)(new := (elements w new)\<lparr>elist := l, enext := e\<rparr>)"
    have "LIST_AddPrevElement e new w =
        Inr (kLIST_Ok, upd_label l (\<lambda>b. b\<lparr>head := new, lsize := lsize b + 1\<rparr>) (w\<lparr>elements := f'\<rparr>))"
      using l R(1) K h e0 ne
      by (simp add: LIST_AddPrevElement_def insert_walk.simps [of l e new e] Let_def f'_def upd_element_def
          upd_label_def)
    moreover have "chain f' new (new # e # bs)"
      using tl new ne e0 by (simp add: f'_def) (subst chain_cong [of bs _ "elements w"], auto)
    moreover have "elist (f' x) = l" if "x \<in> set (new # e # bs)" for x
      using R(4) [of x] that Nil by (auto simp: f'_def)
    ultimately show ?thesis
      using R(1,3,5) R(6) S Nil ne by (simp add: list_rep_def del: chain.simps)
  next
    case (snoc zs a)
    have ch: "chain (elements w) (head (labels w l)) (zs @ a # e # bs)" and dist: "distinct (zs @ a # e # bs)"
      using R(2,3) snoc by simp_all
    have a: "enext (elements w a) = e" "a \<noteq> e" "a \<noteq> new" "a \<noteq> NULL"
      using chain_middle [OF ch] dist new snoc chain_nonnull [OF ch, of a] by auto
    define g where "g = (elements w)(a := (elements w a)\<lparr>enext := new\<rparr>)"
    define f' where "f' = g(new := (g new)\<lparr>elist := l, enext := e\<rparr>)"
    have "insert_walk l e new a w = Some (upd_label l (\<lambda>b. b\<lparr>lsize := lsize b + 1\<rparr>) (w\<lparr>elements := f'\<rparr>))"
      using a l ne by (subst insert_walk.simps) (simp add: Let_def f'_def g_def upd_element_def upd_label_def)
    then have "LIST_AddPrevElement e new w =
        Inr (kLIST_Ok, upd_label l (\<lambda>b. b\<lparr>lsize := lsize b + 1\<rparr>) (w\<lparr>elements := f'\<rparr>))"
      using l R(1) K by (simp add: LIST_AddPrevElement_def Let_def insert_walk_found [OF ch dist])
    moreover have "chain f' (head (labels w l)) (zs @ a # new # e # bs)"
    proof (rule chain_replace [OF ch])
      show "a \<notin> set zs" using dist by simp
      show "enext (f' x) = enext (elements w x)" if "x \<in> set zs" for x
        using that dist ne snoc by (auto simp: f'_def g_def)
      have "chain f' (enext (elements w e)) bs"
        using tl dist ne by (subst chain_cong [of bs _ "elements w"]) (auto simp: f'_def g_def)
      then show "chain f' (enext (f' a)) (new # e # bs)"
        using a ne new e0 by (simp add: f'_def g_def)
    qed
    moreover have "elist (f' x) = l" if "x \<in> set (as @ new # e # bs)" for x
      using R(4) [of x] that snoc by (auto simp: f'_def g_def)
    moreover have "last (zs @ a # new # e # bs) = last (zs @ a # e # bs)" by simp
    ultimately show ?thesis
      using R(1,3,5) R(6) S snoc ne a(3) by (simp add: list_rep_def)
  qed
qed

section \<open>A first-in first-out queue\<close>

text \<open>A maximum of zero means that the list has none.\<close>

definition queue_rep :: "addr \<Rightarrow> u32 \<Rightarrow> list_store \<Rightarrow> addr list \<Rightarrow> bool" where
  "queue_rep l mx w xs \<longleftrightarrow> list_rep l w xs \<and> lmax (labels w l) = mx \<and> (mx = 0 \<or> length xs \<le> unat mx)"

text \<open>
  An element may be added if it is an object that is not in the list yet (the light variant does not check
  this), and the counter of an unbounded list does not wrap.
\<close>

definition queue_legal :: "u32 \<Rightarrow> addr list \<Rightarrow> addr \<Rightarrow> bool" where
  "queue_legal mx xs x \<longleftrightarrow> x \<noteq> NULL \<and> x \<notin> set xs \<and> (mx = 0 \<longrightarrow> length xs + 1 < 2 ^ 32)"

definition queue_status :: "u32 \<Rightarrow> addr list \<Rightarrow> addr \<Rightarrow> list_status" where
  "queue_status mx xs x = (if mx = 0 \<or> length xs < unat mx then kLIST_Ok else kLIST_Full)"

definition dequeue :: "addr \<Rightarrow> list_store \<Rightarrow> (addr option \<times> list_store) outcome" where
  "dequeue l w = bind_outcome (LIST_RemoveHead l w) (\<lambda>(x, w'). Inr (if x = NULL then None else Some x, w'))"

lemma queue_repD:
  assumes "queue_rep l mx w xs"
  shows "list_rep l w xs" "lmax (labels w l) = mx" "mx = 0 \<or> length xs \<le> unat mx" "unat (lsize (labels w l)) = length xs"
  using assms by (simp_all add: queue_rep_def list_rep_def)

lemma queue_rep_init: "l \<noteq> NULL \<Longrightarrow> queue_rep l mx (LIST_Init l mx w) []"
  using LIST_Init_rep [of l mx w] by (simp add: queue_rep_def LIST_Init_def)

lemma queue_room:
  assumes rep: "queue_rep l mx w xs" and legal: "queue_legal mx xs x" and room: "mx = 0 \<or> length xs < unat mx"
  shows "list_room l w"
proof -
  have "length xs + 1 < 2 ^ 32" using legal room u32_bound [of mx] by (auto simp: queue_legal_def)
  moreover have "mx \<noteq> lsize (labels w l) \<or> mx = 0" using queue_repD(4) [OF rep] room by auto
  ultimately show ?thesis using queue_repD(2,4) [OF rep] by (auto simp: list_room_def)
qed

lemma queue_full:
  assumes rep: "queue_rep l mx w xs" and full: "mx \<noteq> 0" "\<not> length xs < unat mx"
  shows "LIST_AddTail l x w = Inr (kLIST_Full, w)"
proof -
  have "unat (lsize (labels w l)) = unat mx" using queue_repD(3,4) [OF rep] full by simp
  then have "lsize (labels w l) = mx" by (simp only: word_unat_eq_iff)
  then show ?thesis using queue_repD(2) [OF rep] full(1) by (simp add: LIST_AddTail_def LIST_Error_Check_def)
qed

lemma queue_add:
  assumes rep: "queue_rep l mx w xs" and legal: "queue_legal mx xs x"
  shows "\<exists>w'. LIST_AddTail l x w = Inr (queue_status mx xs x, w') \<and>
    queue_rep l mx w' (if queue_status mx xs x = kLIST_Ok then xs @ [x] else xs)"
proof (cases "mx = 0 \<or> length xs < unat mx")
  case True
  obtain w' where "LIST_AddTail l x w = Inr (kLIST_Ok, w')" "list_rep l w' (xs @ [x])"
    "lmax (labels w' l) = lmax (labels w l)"
    using LIST_AddTail_rep [OF queue_repD(1) [OF rep] _ _ queue_room [OF rep legal True]] legal
    by (auto simp: queue_legal_def)
  then show ?thesis using rep True by (auto simp: queue_rep_def queue_status_def)
next
  case False
  then show ?thesis using queue_full [OF rep] rep by (simp add: queue_status_def)
qed

lemma queue_take_empty: "queue_rep l mx w [] \<Longrightarrow> dequeue l w = Inr (None, w)"
  using queue_repD(4) [of l mx w "[]"] by (simp add: dequeue_def LIST_RemoveHead_def unat_eq_0)

lemma queue_take:
  assumes rep: "queue_rep l mx w (x # xs)"
  shows "\<exists>w'. dequeue l w = Inr (Some x, w') \<and> queue_rep l mx w' xs"
proof -
  have "x \<noteq> NULL" using list_repD(2) [OF queue_repD(1) [OF rep]] by simp
  then show ?thesis
    using LIST_RemoveHead_rep [OF queue_repD(1) [OF rep]] queue_repD(2,3) [OF rep]
    by (auto simp: dequeue_def queue_rep_def)
qed

interpretation task_queue: fifo "queue_rep l mx" "queue_legal mx" "queue_status mx" kLIST_Ok "LIST_AddTail l" "dequeue l"
  for l mx
  by (unfold_locales; (rule queue_add queue_take | simp add: queue_take_empty))

section \<open>Properties\<close>

text \<open>A list of two elements, 32 and 64, under the label 16.\<close>

definition demo_list :: list_store where
  "demo_list = \<lparr>labels = (\<lambda>_. \<lparr>head = 32, tail = 64, lsize = 2, lmax = 0\<rparr>),
     elements = (\<lambda>a. \<lparr>enext = (if a = 32 then 64 else 0), elist = 16\<rparr>)\<rparr>"

lemma demo_list_rep: "list_rep 16 demo_list [32, 64]" "list_room 16 demo_list"
  by (simp_all add: list_rep_def demo_list_def list_room_def)

text \<open>
  C32. The list used as a queue is first in, first out, and bounded by its maximum: for every sequence of
  \<open>LIST_AddTail\<close> and \<open>LIST_RemoveHead\<close> calls, in any interleaving (each added element an object not in
  the list at that moment), an addition answers \<open>kLIST_Full\<close> and leaves the element out exactly if the list
  has a maximum and holds that many elements, and \<open>kLIST_Ok\<close> otherwise; a removal gives the oldest
  element, or the null pointer on an empty list; and the elements removed, followed by the elements left,
  are those that were there and those accepted, in that order.
\<close>

theorem list_fifo:
  assumes "queue_rep l mx w xs" "legal_calls (queue_legal mx) (queue_status mx) kLIST_Ok calls xs"
  shows "\<exists>w' replies left. impl_run (LIST_AddTail l) (dequeue l) calls w = Inr (replies, w') \<and>
    queue_run (queue_status mx) kLIST_Ok calls xs = (replies, left) \<and> queue_rep l mx w' left \<and>
    given_out replies @ left = xs @ taken_in kLIST_Ok calls replies"
  using assms by (rule task_queue.run_refines)

theorem list_fifo_witness:
  "\<exists>w'. impl_run (LIST_AddTail 16) (dequeue 16) [Put 32, Put 64, Put 48, Get, Put 32, Get, Get, Get]
          (LIST_Init 16 2 demo_list) =
        Inr ([PutReply kLIST_Ok, PutReply kLIST_Ok, PutReply kLIST_Full, GetReply (Some 32), PutReply kLIST_Ok,
              GetReply (Some 64), GetReply (Some 32), GetReply None], w') \<and> queue_rep 16 2 w' []"
proof -
  have "queue_rep 16 2 (LIST_Init 16 2 demo_list) []" by (rule queue_rep_init) simp
  moreover have "legal_calls (queue_legal 2) (queue_status 2) kLIST_Ok [Put 32, Put 64, Put 48, Get, Put 32, Get, Get, Get] []"
    by (simp add: queue_legal_def queue_status_def)
  ultimately show ?thesis
    using list_fifo [of 16 2 "LIST_Init 16 2 demo_list" "[]" "[Put 32, Put 64, Put 48, Get, Put 32, Get, Get, Get]"]
    by (simp add: queue_status_def)
qed

text \<open>
  C31. Insertion in the middle: \<open>LIST_AddPrevElement\<close> on a list that has room (no maximum, or a size that has not
  reached it) finds the given member from the head, wherever it is, puts an object that is not in the list directly
  in front of it, keeps the order of all other elements, and leaves a well-formed list whose head, tail and size
  fit the new sequence.
\<close>

theorem list_insert_before:
  assumes "list_rep l w (as @ e # bs)" "new \<noteq> NULL" "new \<notin> set (as @ e # bs)" "list_room l w"
  shows "\<exists>w'. LIST_AddPrevElement e new w = Inr (kLIST_Ok, w') \<and> list_rep l w' (as @ new # e # bs)"
  using assms by (rule LIST_AddPrevElement_rep)

theorem list_insert_before_witness:
  "\<exists>w'. LIST_AddPrevElement 64 80 demo_list = Inr (kLIST_Ok, w') \<and> list_rep 16 w' [32, 80, 64]"
  using list_insert_before [of 16 demo_list "[32]" 64 "[]" 80] demo_list_rep by simp

text \<open>
  The flaw of \<open>LIST_RemoveElement\<close> in the light variant: removing the last of several elements
  leaves the tail pointer on it. The next \<open>LIST_AddTail\<close> reports success and counts the new element,
  but the element is not reachable from the head: the chain is still the old one.
\<close>

theorem list_remove_last_loses_next:
  assumes "list_rep l w (as @ [a, e])" "n \<noteq> NULL" "n \<notin> set (as @ [a, e])"
    and "lmax (labels w l) = 0"
  shows "\<exists>w1 w2. LIST_RemoveElement e w = Inr (kLIST_Ok, w1) \<and> LIST_AddTail l n w1 = Inr (kLIST_Ok, w2) \<and>
     chain (elements w2) (head (labels w2 l)) (as @ [a]) \<and> lsize (labels w2 l) = lsize (labels w l)"
proof -
  note R = list_repD [OF assms(1)]
  obtain w1 where w1: "LIST_RemoveElement e w = Inr (kLIST_Ok, w1)"
    "chain (elements w1) (head (labels w1 l)) (as @ [a])" "lsize (labels w1 l) = lsize (labels w l) - 1"
    "tail (labels w1 l) = e" "lmax (labels w1 l) = 0"
    using LIST_RemoveElement_last [OF assms(1)] assms(4) by metis
  have e: "e \<noteq> NULL" using R(2) by (rule chain_nonnull) simp
  have "unat (lsize (labels w1 l)) = length as + 1"
    unfolding w1(3) using R(5) by (subst unat_sub_no_wrap) auto
  then have nz: "lsize (labels w1 l) \<noteq> 0" by auto
  define g where "g = (elements w1)(e := (elements w1 e)\<lparr>enext := n\<rparr>)"
  define f' where "f' = g(n := (g n)\<lparr>elist := l, enext := NULL\<rparr>)"
  have add: "LIST_AddTail l n w1 =
      Inr (kLIST_Ok, upd_label l (\<lambda>b. b\<lparr>tail := n, lsize := lsize b + 1\<rparr>) (w1\<lparr>elements := f'\<rparr>))"
    using w1(4,5) nz e by (simp add: LIST_AddTail_def LIST_Error_Check_def f'_def g_def upd_element_def)
  have "chain f' (head (labels w1 l)) (as @ [a])"
    using w1(2) assms(3) R(3) by (subst chain_cong [of _ _ "elements w1"]) (auto simp: f'_def g_def)
  then show ?thesis using w1(1,3) add by simp
qed

theorem list_remove_last_loses_next_witness:
  "\<exists>w1 w2. LIST_RemoveElement 64 demo_list = Inr (kLIST_Ok, w1) \<and> LIST_AddTail 16 80 w1 = Inr (kLIST_Ok, w2) \<and>
     chain (elements w2) (head (labels w2 16)) [32] \<and> LIST_GetSize 16 w2 = 2"
  using list_remove_last_loses_next [of 16 demo_list "[]" 32 64 80] demo_list_rep
  by (auto simp: LIST_GetSize_def) (auto simp: demo_list_def)

end
