(* ===== verification/GenArgs.thy ===== *)
theory GenArgs
  imports Prelude
begin

text \<open>
  The command line of the image builder, \<^verbatim>\<open>src/host-tools/genlittlefs/parse_args.c\<close>. \<^verbatim>\<open>getopt_long\<close> is a
  library function: what it returns for the arguments (the sequence of recognised options and the
  positional arguments left at the end) is an input of the model. Printed messages are represented by
  the constructors of \<open>arg_error\<close>; the warning about wear levelling does not stop the program and is
  left out. \<^verbatim>\<open>int\<close> is 32 and \<^verbatim>\<open>long\<close>, \<^verbatim>\<open>long long\<close> are 64 bits wide on the host.
\<close>

section \<open>Numbers\<close>

abbreviation ord :: "char \<Rightarrow> nat" where
  "ord c \<equiv> of_char c"

fun is_number :: "string \<Rightarrow> bool" where
  "is_number [] = True"
| "is_number (c # s) = (if ord c < 48 \<or> ord c > 57 then False else is_number s)"

fun hex_tail :: "string \<Rightarrow> bool" where
  "hex_tail [] = True"
| "hex_tail (c # s) =
     (if (ord c < 48 \<or> ord c > 57) \<and> (ord c < 65 \<or> ord c > 70) \<and> (ord c < 97 \<or> ord c > 102)
      then False else hex_tail s)"

fun is_hex :: "string \<Rightarrow> bool" where
  "is_hex (c # d # s) = (if c \<noteq> CHR ''0'' then False else if d \<noteq> CHR ''x'' then False else hex_tail s)"
| "is_hex _ = False"

text \<open>
  \<^verbatim>\<open>strtol\<close> and \<^verbatim>\<open>strtoll\<close> on a string of digits: the value, saturated at the largest 64-bit number;
  \<^verbatim>\<open>atoi\<close> and \<^verbatim>\<open>atoll\<close> are these functions in base 10. The conversion to \<^verbatim>\<open>int\<close> keeps the low 32 bits.
\<close>

definition digit_value :: "char \<Rightarrow> int" where
  "digit_value c =
     (if ord c \<le> 57 then int (ord c) - 48 else if ord c \<le> 70 then int (ord c) - 55 else int (ord c) - 87)"

definition digits_value :: "int \<Rightarrow> string \<Rightarrow> int" where
  "digits_value base s = foldl (\<lambda>a c. base * a + digit_value c) 0 s"

definition LONG_MAX :: int where
  "LONG_MAX = 2 ^ 63 - 1"

definition strtol :: "int \<Rightarrow> string \<Rightarrow> int" where
  "strtol base s = min (digits_value base s) LONG_MAX"

definition cast_int :: "int \<Rightarrow> int" where
  "cast_int v = sint (word_of_int v :: 32 word)"

definition to_int :: "string option \<Rightarrow> int" where
  "to_int s = (case s of None \<Rightarrow> - 1 | Some s \<Rightarrow>
     if is_number s then cast_int (strtol 10 s)
     else if is_hex s then cast_int (strtol 16 (drop 2 s))
     else - 1)"

definition to_longlong :: "string option \<Rightarrow> int" where
  "to_longlong s = (case s of None \<Rightarrow> - 1 | Some s \<Rightarrow>
     if is_number s then strtol 10 s
     else if is_hex s then strtol 16 (drop 2 s)
     else - 1)"

section \<open>Options\<close>

datatype littlefs_opts_mode = littlefs_opts_listparts | littlefs_opts_parts | littlefs_opts_file

record littlefs_opts =
  read_size :: int
  block_size :: int
  prog_size :: int
  cache_size :: int
  lockahead_size :: int
  block_cycles :: int
  mode :: littlefs_opts_mode
  filesystem_size :: int
  partition_num :: int
  src_dirs_siz :: nat
  src_dirs :: "string list"
  dst_image :: "string option"
  overwrite_existing :: bool
  verbose :: bool

text \<open>\<^verbatim>\<open>memset\<close> to zero.\<close>

definition zero_opts :: littlefs_opts where
  "zero_opts = \<lparr>read_size = 0, block_size = 0, prog_size = 0, cache_size = 0, lockahead_size = 0,
     block_cycles = 0, mode = littlefs_opts_listparts, filesystem_size = 0, partition_num = 0,
     src_dirs_siz = 0, src_dirs = [], dst_image = None, overwrite_existing = False, verbose = False\<rparr>"

text \<open>One return of \<^verbatim>\<open>getopt_long\<close>: 0 with a long option, an option character, or an unknown one.\<close>

datatype opt_event =
    Long_option string "string option"
  | Short_option char "string option"
  | Bad_option

record scan =
  opts :: littlefs_opts
  is_help :: bool
  is_listpart :: bool
  is_unknown :: bool

definition long_option :: "string \<Rightarrow> string option \<Rightarrow> littlefs_opts \<Rightarrow> littlefs_opts" where
  "long_option optname optarg o1 =
     (if optname = ''overwrite'' then o1\<lparr>overwrite_existing := True\<rparr>
      else if optname = ''verbose'' then o1\<lparr>verbose := True\<rparr>
      else if optname = ''block_cycles'' then o1\<lparr>block_cycles := to_int optarg\<rparr>
      else if optname = ''lockahead_size'' then o1\<lparr>lockahead_size := to_int optarg\<rparr>
      else if optname = ''cache_size'' then o1\<lparr>cache_size := to_int optarg\<rparr>
      else if optname = ''prog_size'' then o1\<lparr>prog_size := to_int optarg\<rparr>
      else if optname = ''read_size'' then o1\<lparr>read_size := to_int optarg\<rparr>
      else o1)"

fun scan_option :: "opt_event \<Rightarrow> scan \<Rightarrow> scan" where
  "scan_option (Long_option n a) s = s\<lparr>opts := long_option n a (opts s)\<rparr>"
| "scan_option (Short_option c a) s =
     (if c = CHR ''i'' then s\<lparr>opts := (opts s)\<lparr>dst_image := a\<rparr>\<rparr>
      else if c = CHR ''b'' then s\<lparr>opts := (opts s)\<lparr>block_size := to_int a\<rparr>\<rparr>
      else if c = CHR ''s'' then s\<lparr>opts := (opts s)\<lparr>filesystem_size := to_longlong a\<rparr>\<rparr>
      else if c = CHR ''p'' then s\<lparr>opts := (opts s)\<lparr>partition_num := to_int a\<rparr>\<rparr>
      else if c = CHR ''l'' then s\<lparr>is_listpart := True\<rparr>
      else if c = CHR ''h'' then s\<lparr>is_help := True\<rparr>
      else s\<lparr>is_unknown := True\<rparr>)"
| "scan_option Bad_option s = s\<lparr>is_unknown := True\<rparr>"

definition scan_options :: "opt_event list \<Rightarrow> scan" where
  "scan_options evs =
     fold scan_option evs \<lparr>opts = zero_opts, is_help = False, is_listpart = False, is_unknown = False\<rparr>"

section \<open>Validation\<close>

datatype arg_error =
    Show_usage | Show_help | Unknown_option | No_image
  | Too_many_cycles | No_block_size | Bad_block_size | Bad_read_size | Bad_prog_size
  | Bad_cache_size | Bad_lockahead_size | Bad_filesystem_size | Bad_partition_num
  | No_size_or_partition | Size_and_partition | Size_not_multiple

type_synonym 'a arg_result = "arg_error + 'a"

fun bind_arg :: "'a arg_result \<Rightarrow> ('a \<Rightarrow> 'b arg_result) \<Rightarrow> 'b arg_result" where
  "bind_arg (Inl e) f = Inl e"
| "bind_arg (Inr x) f = f x"

definition check_block_cycles :: "littlefs_opts \<Rightarrow> littlefs_opts arg_result" where
  "check_block_cycles o1 =
     (if block_cycles o1 < 0 then Inr (o1\<lparr>block_cycles := - 1\<rparr>)
      else if block_cycles o1 > 1000 then Inl Too_many_cycles
      else if block_cycles o1 = 0 then Inr (o1\<lparr>block_cycles := 512\<rparr>)
      else Inr o1)"

definition check_block_size :: "littlefs_opts \<Rightarrow> littlefs_opts arg_result" where
  "check_block_size o1 =
     (if block_size o1 = 0 then Inl No_block_size
      else if block_size o1 < 0 then Inl Bad_block_size else Inr o1)"

definition check_read_size :: "littlefs_opts \<Rightarrow> littlefs_opts arg_result" where
  "check_read_size o1 =
     (if read_size o1 = 0 then Inr (o1\<lparr>read_size := block_size o1\<rparr>)
      else if read_size o1 < 0 then Inl Bad_read_size else Inr o1)"

definition check_prog_size :: "littlefs_opts \<Rightarrow> littlefs_opts arg_result" where
  "check_prog_size o1 =
     (if prog_size o1 = 0 then Inr (o1\<lparr>prog_size := block_size o1\<rparr>)
      else if prog_size o1 < 0 then Inl Bad_prog_size else Inr o1)"

definition check_cache_size :: "littlefs_opts \<Rightarrow> littlefs_opts arg_result" where
  "check_cache_size o1 =
     (if cache_size o1 = 0 then Inr (o1\<lparr>cache_size := block_size o1\<rparr>)
      else if cache_size o1 < 0 then Inl Bad_cache_size else Inr o1)"

definition check_lockahead_size :: "littlefs_opts \<Rightarrow> littlefs_opts arg_result" where
  "check_lockahead_size o1 =
     (if lockahead_size o1 = 0 then Inr (o1\<lparr>lockahead_size := 8192\<rparr>)
      else if cache_size o1 < 0 then Inl Bad_lockahead_size else Inr o1)"

definition check_target :: "littlefs_opts \<Rightarrow> littlefs_opts arg_result" where
  "check_target o1 =
     (if dst_image o1 = None then Inl No_image
      else if filesystem_size o1 < 0 then Inl Bad_filesystem_size
      else if partition_num o1 < 0 then Inl Bad_partition_num
      else if filesystem_size o1 = 0 \<and> partition_num o1 = 0 then Inl No_size_or_partition
      else if filesystem_size o1 > 0 \<and> partition_num o1 > 0 then Inl Size_and_partition
      else if filesystem_size o1 > 0
      then (if filesystem_size o1 mod block_size o1 \<noteq> 0 then Inl Size_not_multiple
            else Inr (o1\<lparr>mode := littlefs_opts_file\<rparr>))
      else if partition_num o1 > 0 then Inr (o1\<lparr>mode := littlefs_opts_parts\<rparr>)
      else Inr o1)"

definition check_opts :: "littlefs_opts \<Rightarrow> littlefs_opts arg_result" where
  "check_opts o1 =
     bind_arg (check_block_cycles o1) (\<lambda>o2. bind_arg (check_block_size o2) (\<lambda>o3.
     bind_arg (check_read_size o3) (\<lambda>o4. bind_arg (check_prog_size o4) (\<lambda>o5.
     bind_arg (check_cache_size o5) (\<lambda>o6. bind_arg (check_lockahead_size o6) check_target)))))"

text \<open>
  The trailing slash of a source directory is cut off. The index of the last character is computed
  without looking at the length, so the empty argument is read in front of its first byte.
\<close>

definition strip_slash :: "string \<Rightarrow> string outcome" where
  "strip_slash arg =
     (if arg = [] then Inl OutOfBounds
      else Inr (if last arg = CHR ''/'' then butlast arg else arg))"

fun strip_all :: "string list \<Rightarrow> string list outcome" where
  "strip_all [] = Inr []"
| "strip_all (a # as) =
     bind_outcome (strip_slash a) (\<lambda>b. bind_outcome (strip_all as) (\<lambda>bs. Inr (b # bs)))"

definition parse_program_args ::
  "nat \<Rightarrow> opt_event list \<Rightarrow> string list \<Rightarrow> littlefs_opts arg_result outcome" where
  "parse_program_args argc evs positional =
     (let s = scan_options evs
      in if argc = 1 then Inr (Inl Show_usage)
         else if is_help s then Inr (Inl Show_help)
         else if is_unknown s then Inr (Inl Unknown_option)
         else if is_listpart s
         then (let o1 = (opts s)\<lparr>mode := littlefs_opts_listparts\<rparr>
               in Inr (if dst_image o1 = None then Inl No_image else Inr o1))
         else (case check_opts (opts s) of
                 Inl e \<Rightarrow> Inr (Inl e)
               | Inr o1 \<Rightarrow>
                   bind_outcome (strip_all positional) (\<lambda>dirs.
                     Inr (if dst_image o1 = None then Inl No_image
                          else Inr (o1\<lparr>src_dirs_siz := length dirs, src_dirs := dirs\<rparr>)))))"

text \<open>The values \<open>print_config_options\<close> prints, with the labels of its format string.\<close>

definition print_config_options :: "littlefs_opts \<Rightarrow> (string \<times> int) list" where
  "print_config_options o1 =
     [(''LFS read size'', read_size o1), (''LFS block size'', block_size o1),
      (''LFS prog size'', prog_size o1), (''LFS cache size'', cache_size o1),
      (''LFS lookahead size'', lockahead_size o1), (''LFS block cycles'', block_cycles o1),
      (''Filesystem size'', filesystem_size o1), (''Partition number'', partition_num o1),
      (''Overwrite existing fs'', if overwrite_existing o1 then 1 else 0)]"

section \<open>Properties\<close>

lemma bind_arg_Inr_iff: "bind_arg r f = Inr y \<longleftrightarrow> (\<exists>x. r = Inr x \<and> f x = Inr y)"
  by (cases r) auto

lemmas check_defs = check_block_cycles_def check_block_size_def check_read_size_def check_prog_size_def
  check_cache_size_def check_lockahead_size_def check_target_def

text \<open>What a complete set of options for building an image looks like.\<close>

definition sizes_ok :: "littlefs_opts \<Rightarrow> bool" where
  "sizes_ok o1 \<longleftrightarrow>
     0 < block_size o1 \<and> 0 < read_size o1 \<and> 0 < prog_size o1 \<and> 0 < cache_size o1 \<and>
     (block_cycles o1 = - 1 \<or> 1 \<le> block_cycles o1 \<and> block_cycles o1 \<le> 1000)"

definition target_ok :: "littlefs_opts \<Rightarrow> bool" where
  "target_ok o1 \<longleftrightarrow> dst_image o1 \<noteq> None \<and>
     (mode o1 = littlefs_opts_file \<and> 0 < filesystem_size o1 \<and> partition_num o1 = 0 \<and>
        block_size o1 dvd filesystem_size o1 \<or>
      mode o1 = littlefs_opts_parts \<and> 0 < partition_num o1 \<and> filesystem_size o1 = 0)"

lemma check_sizes:
  assumes "check_block_cycles o1 = Inr o2" "check_block_size o2 = Inr o3" "check_read_size o3 = Inr o4"
    "check_prog_size o4 = Inr o5" "check_cache_size o5 = Inr o6" "check_lockahead_size o6 = Inr o7"
  shows "sizes_ok o7" "lockahead_size o7 \<noteq> 0"
proof -
  have 2: "block_cycles o2 = - 1 \<or> 1 \<le> block_cycles o2 \<and> block_cycles o2 \<le> 1000"
    using assms(1) by (auto simp: check_block_cycles_def split: if_splits)
  have 3: "o3 = o2" "0 < block_size o3" using assms(2) by (auto simp: check_block_size_def split: if_splits)
  have 4: "0 < read_size o4" "block_size o4 = block_size o3" "block_cycles o4 = block_cycles o3"
    using assms(3) 3 by (auto simp: check_read_size_def split: if_splits)
  have 5: "0 < prog_size o5" "block_size o5 = block_size o4" "block_cycles o5 = block_cycles o4"
    "read_size o5 = read_size o4"
    using assms(4) 3 4 by (auto simp: check_prog_size_def split: if_splits)
  have 6: "0 < cache_size o6" "block_size o6 = block_size o5" "block_cycles o6 = block_cycles o5"
    "read_size o6 = read_size o5" "prog_size o6 = prog_size o5"
    using assms(5) 3 4 5 by (auto simp: check_cache_size_def split: if_splits)
  have "o7 = o6 \<or> o7 = o6\<lparr>lockahead_size := 8192\<rparr>"
    using assms(6) by (auto simp: check_lockahead_size_def split: if_splits)
  then show "sizes_ok o7" using 2 3 4 5 6 by (auto simp: sizes_ok_def)
  show "lockahead_size o7 \<noteq> 0" using assms(6) by (auto simp: check_lockahead_size_def split: if_splits)
qed

lemma check_target_ok:
  assumes "check_target o1 = Inr o2"
  shows "target_ok o2" "sizes_ok o2 = sizes_ok o1" "lockahead_size o2 = lockahead_size o1"
proof -
  have "o2 = o1\<lparr>mode := littlefs_opts_file\<rparr> \<and> 0 < filesystem_size o1 \<and> partition_num o1 = 0 \<and>
          filesystem_size o1 mod block_size o1 = 0 \<or>
        o2 = o1\<lparr>mode := littlefs_opts_parts\<rparr> \<and> 0 < partition_num o1 \<and> filesystem_size o1 = 0"
    and "dst_image o1 \<noteq> None"
    using assms by (auto simp: check_target_def split: if_splits)
  then show "target_ok o2" "sizes_ok o2 = sizes_ok o1" "lockahead_size o2 = lockahead_size o1"
    by (auto simp: target_ok_def sizes_ok_def mod_eq_0_iff_dvd)
qed

lemma check_opts_ok:
  assumes "check_opts o1 = Inr o2"
  shows "sizes_ok o2 \<and> target_ok o2 \<and> lockahead_size o2 \<noteq> 0"
proof -
  obtain p1 p2 p3 p4 p5 p6 where "check_block_cycles o1 = Inr p1" "check_block_size p1 = Inr p2" "check_read_size p2 = Inr p3"
    "check_prog_size p3 = Inr p4" "check_cache_size p4 = Inr p5" "check_lockahead_size p5 = Inr p6" "check_target p6 = Inr o2"
    using assms unfolding check_opts_def bind_arg_Inr_iff by blast
  then show ?thesis using check_sizes [of o1 p1 p2 p3 p4 p5 p6] check_target_ok [of p6 o2] by simp
qed

text \<open>
  C33. Options the parser accepts for building an image are complete and consistent: the block, read, program
  and cache sizes are positive, the number of erase cycles is legal, there is an image name, and there is either
  a file size that is a positive multiple of the block size or a positive partition number, never both, matching
  the selected mode; the list of directories has its length. The lookahead size is only known not to be zero: the
  code does not check its sign, although its message says that it needs to be positive.
\<close>

theorem accepted_options_valid:
  assumes "parse_program_args argc evs dirs = Inr (Inr o1)" "mode o1 \<noteq> littlefs_opts_listparts"
  shows "sizes_ok o1 \<and> target_ok o1 \<and> lockahead_size o1 \<noteq> 0 \<and> src_dirs_siz o1 = length (src_dirs o1)"
proof -
  obtain o2 ds where "check_opts (opts (scan_options evs)) = Inr o2"
    "o1 = o2\<lparr>src_dirs_siz := length ds, src_dirs := ds\<rparr>"
    using assms by (auto simp: parse_program_args_def Let_def bind_outcome_Inr_iff split: if_splits sum.splits)
  then show ?thesis using check_opts_ok [of _ o2] by (auto simp: sizes_ok_def target_ok_def)
qed

theorem accepted_options_valid_witness:
  "\<exists>o1. parse_program_args 7 [Short_option CHR ''i'' (Some ''disk.img''), Short_option CHR ''b'' (Some ''0x1000''),
      Short_option CHR ''s'' (Some ''40960'')] [''sys/''] = Inr (Inr o1) \<and>
     sizes_ok o1 \<and> target_ok o1 \<and> src_dirs o1 = [''sys'']"
proof -
  let ?evs = "[Short_option CHR ''i'' (Some ''disk.img''), Short_option CHR ''b'' (Some ''0x1000''),
      Short_option CHR ''s'' (Some ''40960'')]"
  let ?o = "zero_opts\<lparr>dst_image := Some ''disk.img'', block_size := 4096, filesystem_size := 40960,
      block_cycles := 512, read_size := 4096, prog_size := 4096, cache_size := 4096, lockahead_size := 8192,
      mode := littlefs_opts_file, src_dirs_siz := 1, src_dirs := [''sys'']\<rparr>"
  have "parse_program_args 7 ?evs [''sys/''] = Inr (Inr ?o)"
    by (simp add: parse_program_args_def scan_options_def to_int_def to_longlong_def strtol_def cast_int_def
        digits_value_def digit_value_def LONG_MAX_def check_opts_def check_defs strip_slash_def zero_opts_def)
  then show ?thesis using accepted_options_valid [of 7 ?evs "[''sys/'']" ?o] by (auto simp: zero_opts_def)
qed

text \<open>
  The flaw in the lookahead check: the code tests the cache size (already known to be positive)
  instead of the lookahead size, so any non-zero lookahead size is accepted, also a negative one:
  changing it never changes whether the options are accepted.
\<close>

theorem lockahead_size_unchecked:
  assumes "v \<noteq> 0" "v' \<noteq> 0"
  shows "check_opts (o1\<lparr>lockahead_size := v\<rparr>) =
    map_sum id (\<lambda>o2. o2\<lparr>lockahead_size := v\<rparr>) (check_opts (o1\<lparr>lockahead_size := v'\<rparr>))"
  using assms unfolding check_opts_def
  by (cases "block_cycles o1 < 0"; cases "block_size o1 \<le> 0"; cases "read_size o1 = 0"; cases "prog_size o1 = 0";
      cases "cache_size o1 = 0") (simp_all add: check_defs)

theorem lockahead_size_unchecked_witness:
  "check_opts (zero_opts\<lparr>block_size := 512, dst_image := Some ''a'', partition_num := 1, lockahead_size := - 1\<rparr>) =
   Inr (zero_opts\<lparr>block_size := 512, dst_image := Some ''a'', partition_num := 1, lockahead_size := - 1,
     block_cycles := 512, read_size := 512, prog_size := 512, cache_size := 512, mode := littlefs_opts_parts\<rparr>)"
  using lockahead_size_unchecked [of "- 1" 16 "zero_opts\<lparr>block_size := 512, dst_image := Some ''a'', partition_num := 1\<rparr>"]
  by (simp add: check_opts_def check_defs zero_opts_def)

lemma cast_int_small: "0 \<le> v \<Longrightarrow> v < 2 ^ 31 \<Longrightarrow> cast_int v = v"
  by (simp add: cast_int_def int_word_sint)

lemma hex_tail_digits: "hex_tail s \<Longrightarrow> c \<in> set s \<Longrightarrow> 0 \<le> digit_value c"
proof (induction s)
  case (Cons d s)
  have "0 \<le> digit_value d" using Cons.prems(1) by (auto simp: digit_value_def split: if_splits)
  with Cons show ?case by (auto split: if_splits)
qed simp

lemma digits_value_nonneg:
  assumes "0 \<le> base" "hex_tail s"
  shows "0 \<le> digits_value base s"
proof -
  have "0 \<le> foldl (\<lambda>a c. base * a + digit_value c) a t" if "0 \<le> a" "\<forall>c\<in>set t. 0 \<le> digit_value c" for a t
    using that assms(1) by (induction t arbitrary: a) simp_all
  then show ?thesis
    using hex_tail_digits [OF assms(2)] by (simp add: digits_value_def)
qed

lemma is_number_hex_tail: "is_number s \<Longrightarrow> hex_tail s"
  by (induction s) (auto split: if_splits)

text \<open>
  Number arguments: a string of decimal digits, or \<^verbatim>\<open>0x\<close> and hexadecimal digits, whose value is
  below 2^31 is read as exactly that value; anything that is neither is read as -1.
\<close>

theorem to_int_reads_numbers:
  shows "(is_number s \<and> digits_value 10 s < 2 ^ 31 \<longrightarrow> to_int (Some s) = digits_value 10 s) \<and>
    (hex_tail s \<and> digits_value 16 s < 2 ^ 31 \<longrightarrow> to_int (Some (''0x'' @ s)) = digits_value 16 s) \<and>
    (\<not> is_number s \<and> \<not> is_hex s \<longrightarrow> to_int (Some s) = - 1)"
proof -
  have "cast_int (strtol base s) = digits_value base s"
    if "hex_tail s" "digits_value base s < 2 ^ 31" "0 \<le> base" for base
    using that digits_value_nonneg [of base s] by (simp add: strtol_def LONG_MAX_def min_def cast_int_small)
  then show ?thesis using is_number_hex_tail [of s] by (simp add: to_int_def)
qed

theorem to_int_reads_numbers_witness:
  "to_int (Some ''4096'') = 4096 \<and> to_int (Some ''0x1F'') = 31 \<and> to_int (Some ''12k'') = - 1"
  using to_int_reads_numbers [of "''4096''"] to_int_reads_numbers [of "''1F''"] to_int_reads_numbers [of "''12k''"]
  by (simp add: digits_value_def digit_value_def)

end
