(* ===== verification/HostFile.thy ===== *)
theory HostFile
  imports Prelude
begin

text \<open>
  The part of the POSIX file interface the host tools use: an open file with its contents and offset.
  How much a call of \<^verbatim>\<open>read\<close> or \<^verbatim>\<open>write\<close> transfers, and whether it fails, is decided by the entries of
  \<open>sched\<close>, one per call: a negative entry makes the call return -1, another entry is the largest number
  of bytes the call moves; when the entries are used up every call moves all it can.
\<close>

record hfile =
  content :: "u8 list"
  fpos :: nat
  sched :: "int list"

definition posix_read :: "nat \<Rightarrow> hfile \<Rightarrow> int \<times> u8 list \<times> hfile" where
  "posix_read n f =
     (case sched f of
        [] \<Rightarrow> (let d = take n (drop (fpos f) (content f))
               in (int (length d), d, f\<lparr>fpos := fpos f + length d\<rparr>))
      | k # ks \<Rightarrow>
          if k < 0 then (- 1, [], f\<lparr>sched := ks\<rparr>)
          else (let d = take (min n (nat k)) (drop (fpos f) (content f))
                in (int (length d), d, f\<lparr>fpos := fpos f + length d, sched := ks\<rparr>)))"

text \<open>Bytes written at an offset; a gap behind the old end is filled with zeros.\<close>

definition write_at :: "nat \<Rightarrow> u8 list \<Rightarrow> u8 list \<Rightarrow> u8 list" where
  "write_at p d c = take p (c @ replicate (p - length c) 0) @ d @ drop (p + length d) c"

definition posix_write :: "u8 list \<Rightarrow> hfile \<Rightarrow> int \<times> hfile" where
  "posix_write d f =
     (case sched f of
        [] \<Rightarrow> (int (length d), f\<lparr>content := write_at (fpos f) d (content f), fpos := fpos f + length d\<rparr>)
      | k # ks \<Rightarrow>
          if k < 0 then (- 1, f\<lparr>sched := ks\<rparr>)
          else (let e = take (nat k) d
                in (int (length e),
                    f\<lparr>content := write_at (fpos f) e (content f), fpos := fpos f + length e, sched := ks\<rparr>)))"

text \<open>\<^verbatim>\<open>lseek\<close> with \<^verbatim>\<open>SEEK_SET\<close>: a negative offset is refused with \<^verbatim>\<open>EINVAL\<close>.\<close>

definition posix_lseek :: "int \<Rightarrow> hfile \<Rightarrow> int \<times> hfile" where
  "posix_lseek off f = (if off < 0 then (- 1, f) else (off, f\<lparr>fpos := nat off\<rparr>))"

definition EINVAL :: int where
  "EINVAL = 22"

section \<open>Facts about the file operations\<close>

lemma take_clip [simp]:
  "take (min (length xs) n) xs = take n xs" "take (min (length c - p) n) (drop p c) = take n (drop p c)"
  by (simp_all add: min_def)

lemma posix_read_count:
  assumes "posix_read n f = (r, d, f')"
  shows "r \<le> int n" "0 \<le> r \<Longrightarrow> r = int (length d)" "content f' = content f"
    "0 \<le> r \<Longrightarrow> fpos f' = fpos f + length d \<and> d = take (length d) (drop (fpos f) (content f))"
  using assms by (auto simp: posix_read_def Let_def split: list.splits if_splits)

text \<open>A read that moves bytes leaves fewer to read.\<close>

lemma posix_read_progress:
  assumes "posix_read n f = (r, d, f')" "0 < r"
  shows "length (content f') - fpos f' < length (content f) - fpos f" "length d \<le> length (content f) - fpos f"
proof -
  note c = posix_read_count [OF assms(1)]
  have d: "0 < length d" "d = take (length d) (drop (fpos f) (content f))" using c(2,4) assms(2) by auto
  show le: "length d \<le> length (content f) - fpos f"
    by (metis d(2) length_drop length_take min.cobounded1)
  have "a - (b + k) < a - b" if "0 < k" "k \<le> a - b" for a b k :: nat using that by linarith
  then show "length (content f') - fpos f' < length (content f) - fpos f"
    using c(3,4) assms(2) d(1) le by simp
qed

lemma posix_write_count:
  assumes "posix_write d f = (r, f')"
  shows "r \<le> int (length d)"
    "0 \<le> r \<Longrightarrow> content f' = write_at (fpos f) (take (nat r) d) (content f) \<and> fpos f' = fpos f + nat r"
    "r < 0 \<Longrightarrow> content f' = content f"
  using assms by (auto simp: posix_write_def Let_def split: list.splits if_splits)

lemma length_write_at: "length (write_at p d c) = max (length c) (p + length d)"
  by (auto simp: write_at_def)

lemma write_at_inside: "p + length d \<le> length c \<Longrightarrow> write_at p d c = take p c @ d @ drop (p + length d) c"
  by (simp add: write_at_def)

lemma write_at_append:
  assumes "p + length d + length e \<le> length c"
  shows "write_at (p + length d) e (write_at p d c) = write_at p (d @ e) c"
proof -
  have "write_at p d c = take p c @ d @ drop (p + length d) c" using assms by (intro write_at_inside) simp
  moreover have "p + length d + length e \<le> length (write_at p d c)" using assms by (simp add: length_write_at)
  ultimately show ?thesis
    using assms by (simp add: write_at_inside add.assoc) (simp add: min_def add.commute add.left_commute)
qed

lemma write_at_empty [simp]: "p \<le> length c \<Longrightarrow> write_at p [] c = c"
  by (simp add: write_at_def)

lemma read_back: "p + length d \<le> length c \<Longrightarrow> take (length d) (drop p (write_at p d c)) = d"
  by (simp add: write_at_inside)

lemma write_at_other:
  "p + length d \<le> length c \<Longrightarrow> i < p \<or> p + length d \<le> i \<Longrightarrow> i < length c \<Longrightarrow> write_at p d c ! i = c ! i"
  by (auto simp: write_at_inside nth_append min_def)

lemma write_back_prefix:
  assumes "i < n" "n \<le> length c"
  shows "write_at 0 ((take n c)[i := b]) c = c[i := b]"
proof -
  have "c[i := b] = (take n c @ drop n c)[i := b]" by simp
  also have "\<dots> = (take n c)[i := b] @ drop n c"
    using assms by (simp only: list_update_append length_take) simp
  finally show ?thesis using assms by (simp add: write_at_def)
qed

text \<open>A schedule without failures and empty transfers.\<close>

definition steady :: "hfile \<Rightarrow> bool" where
  "steady f \<longleftrightarrow> (\<forall>k\<in>set (sched f). 0 < k)"

lemma posix_read_steady:
  assumes "steady f" "0 < n" "fpos f + n \<le> length (content f)"
  shows "\<exists>d f'. posix_read n f = (int (length d), d, f') \<and> 0 < length d \<and> length d \<le> n \<and> steady f' \<and>
     content f' = content f \<and> fpos f' = fpos f + length d \<and> d = take (length d) (drop (fpos f) (content f))"
proof -
  obtain r d f' where rd: "posix_read n f = (r, d, f')" by (cases "posix_read n f") auto
  have "0 < r" "steady f'" "length d \<le> n"
    using rd assms by (auto simp: posix_read_def Let_def steady_def min_def split: list.splits if_splits)
  then show ?thesis using rd posix_read_count [OF rd] by auto
qed

lemma posix_write_steady:
  assumes "steady f" "d \<noteq> []"
  shows "\<exists>n f'. posix_write d f = (int n, f') \<and> 0 < n \<and> n \<le> length d \<and> steady f' \<and>
     content f' = write_at (fpos f) (take n d) (content f) \<and> fpos f' = fpos f + n"
proof -
  obtain r f' where wr: "posix_write d f = (r, f')" by (cases "posix_write d f") auto
  have "0 < r" "steady f'"
    using wr assms by (auto simp: posix_write_def Let_def steady_def split: list.splits if_splits)
  then show ?thesis using wr posix_write_count [OF wr] by (intro exI [of _ "nat r"]) auto
qed

end
