(* ===== verification/GenPart.thy ===== *)
theory GenPart
  imports HostFile
begin

text \<open>
  Partition tables of the image builder, \<^verbatim>\<open>src/host-tools/genlittlefs/parse_partitions.c\<close>: the list of
  partitions found by libblkid (a library: its answer is an input), and the logarithm of the block size
  written into the boot sector for the boot loader.
\<close>

section \<open>Listing partitions\<close>

record partition =
  pstart :: int
  pend :: int
  ptype :: int

text \<open>What libblkid reports of one partition, in sectors.\<close>

record blkid_partition =
  blk_start :: nat
  blk_size :: nat
  blk_type :: int

datatype blkid_answer = No_probe | No_partlist | Partlist "blkid_partition list"

definition sector_size :: int where
  "sector_size = 512"

definition bootstrap_offset :: nat where
  "bootstrap_offset = 0xE0"

definition scan_all_partitions :: int where
  "scan_all_partitions = - 1"

definition partition_of :: "blkid_partition \<Rightarrow> partition" where
  "partition_of par =
     \<lparr>pstart = int (blk_start par) * sector_size,
      pend = (int (blk_start par) + int (blk_size par) - 1) * sector_size,
      ptype = blk_type par\<rparr>"

text \<open>
  The result pointer with the elements filled in and the number of them, which is left as it was
  (\<open>nelems\<close>) when the probe cannot be created.
\<close>

definition find_partitions :: "blkid_answer \<Rightarrow> int \<Rightarrow> nat \<Rightarrow> partition list option \<times> nat" where
  "find_partitions ans pt nelems =
     (case ans of
        No_probe \<Rightarrow> (None, nelems)
      | No_partlist \<Rightarrow> (None, 0)
      | Partlist ps \<Rightarrow>
          if length ps < 1 then (None, 0)
          else (let sel = map partition_of (filter (\<lambda>p. pt = scan_all_partitions \<or> blk_type p = pt) ps)
                in (Some sel, length sel)))"

text \<open>The lines printed: number, type, start and end in kilobytes. The type is that of the first entry.\<close>

definition print_partitions :: "partition list option \<Rightarrow> nat \<Rightarrow> (nat \<times> int \<times> int \<times> int) list outcome" where
  "print_partitions part nparts =
     (case part of
        None \<Rightarrow> Inr []
      | Some ps \<Rightarrow>
          if nparts > length ps then Inl OutOfBounds
          else Inr (map (\<lambda>s. (s + 1, ptype (ps ! 0), pstart (ps ! s) div 1024, pend (ps ! s) div 1024))
                      [0..<nparts]))"

section \<open>The boot unit\<close>

definition mult_bruijn_bit_position :: "nat list" where
  "mult_bruijn_bit_position =
     [0, 9, 1, 10, 13, 21, 2, 29, 11, 14, 16, 18, 22, 25, 3, 30,
      8, 12, 20, 28, 15, 17, 24, 7, 19, 27, 23, 6, 26, 5, 4, 31]"

definition smear :: "u32 \<Rightarrow> u32" where
  "smear v0 =
     (let v1 = v0 OR drop_bit 1 v0; v2 = v1 OR drop_bit 2 v1; v3 = v2 OR drop_bit 4 v2;
          v4 = v3 OR drop_bit 8 v3
      in v4 OR drop_bit 16 v4)"

definition calculate_shift :: "u32 \<Rightarrow> nat" where
  "calculate_shift v = mult_bruijn_bit_position ! unat (drop_bit 27 (smear v * 0x07C4ACDD))"

text \<open>
  What the system calls on the image answer: \<^verbatim>\<open>fstat\<close>, whether it is a block device, the \<^verbatim>\<open>ioctl\<close> with
  the sector size, and whether \<^verbatim>\<open>open\<close>, \<^verbatim>\<open>malloc\<close> and \<^verbatim>\<open>close\<close> succeed.
\<close>

record image_env =
  open_ok :: bool
  fstat_ret :: int
  is_block_device :: bool
  ioctl_ret :: int
  device_sector :: int
  malloc_ok :: bool
  close_ret :: int

definition sector_block_size :: "image_env \<Rightarrow> int" where
  "sector_block_size env =
     (if fstat_ret env < 0 then fstat_ret env
      else if is_block_device env
      then (if ioctl_ret env < 0 then ioctl_ret env else device_sector env)
      else 512)"

definition write_partition_bootunit ::
  "image_env \<Rightarrow> bool \<Rightarrow> nat \<Rightarrow> u32 \<Rightarrow> hfile \<Rightarrow> (int \<times> hfile) outcome" where
  "write_partition_bootunit env filename_given part_num block_size f =
     (if \<not> filename_given then Inr (- 1, f)
      else if \<not> open_ok env then Inr (- 1, f)
      else (let sz = sector_block_size env
            in if sz \<le> 0 then Inr (- 1, f)
               else if \<not> malloc_ok env then Inr (- 1, f)
               else (case posix_read (nat sz) (f\<lparr>fpos := 0\<rparr>) of
                 (ret, sect_buf, f1) \<Rightarrow>
                   if ret \<noteq> sz then Inr (- 1, f1)
                   else if bootstrap_offset + part_num \<ge> nat sz then Inl OutOfBounds
                   else (let buf = sect_buf[bootstrap_offset + part_num := of_nat (calculate_shift block_size)]
                         in case posix_lseek 0 f1 of
                              (r, f2) \<Rightarrow>
                                if r < 0 then Inr (- 1, f2)
                                else (case posix_write buf f2 of
                                        (w, f3) \<Rightarrow> if w \<noteq> sz then Inr (- 1, f3)
                                                   else Inr (close_ret env, f3))))))"

section \<open>The logarithm\<close>

text \<open>Each round of \<open>smear\<close> doubles the number of places a set bit has been copied down.\<close>

lemma smear_step:
  fixes w v :: u32
  assumes "\<And>n. bit w n = (\<exists>i<m. bit v (n + i))"
  shows "bit (w OR drop_bit m w) n = (\<exists>i<m + m. bit v (n + i))"
proof -
  have "bit (w OR drop_bit m w) n = ((\<exists>i<m. bit v (n + i)) \<or> (\<exists>i<m. bit v (m + n + i)))"
    by (simp add: bit_or_iff bit_drop_bit_eq assms)
  also have "\<dots> = (\<exists>i<m + m. bit v (n + i))"
  proof
    assume "(\<exists>i<m. bit v (n + i)) \<or> (\<exists>i<m. bit v (m + n + i))"
    then show "\<exists>i<m + m. bit v (n + i)"
    proof
      assume "\<exists>i<m. bit v (m + n + i)"
      then obtain i where "i < m" "bit v (m + n + i)" by blast
      then show ?thesis by (intro exI [of _ "m + i"]) (simp add: ac_simps)
    qed (auto intro: trans_less_add1)
  next
    assume "\<exists>i<m + m. bit v (n + i)"
    then obtain i where i: "i < m + m" "bit v (n + i)" by blast
    show "(\<exists>i<m. bit v (n + i)) \<or> (\<exists>i<m. bit v (m + n + i))"
    proof (cases "i < m")
      case False
      then have "i - m < m" "m + n + (i - m) = n + i" using i(1) by auto
      then show ?thesis using i(2) by metis
    qed (use i(2) in blast)
  qed
  finally show ?thesis .
qed

lemma smear_bit: "bit (smear v) n = (\<exists>i<32. bit v (n + i))"
proof -
  define v1 where "v1 = v OR drop_bit 1 v"
  define v2 where "v2 = v1 OR drop_bit 2 v1"
  define v3 where "v3 = v2 OR drop_bit 4 v2"
  define v4 where "v4 = v3 OR drop_bit 8 v3"
  have "bit v1 n = (\<exists>i<2. bit v (n + i))" for n
    using smear_step [of v 1 v n] by (simp add: v1_def numeral_2_eq_2)
  then have "bit v2 n = (\<exists>i<4. bit v (n + i))" for n
    using smear_step [of v1 2 v n] by (simp add: v2_def)
  then have "bit v3 n = (\<exists>i<8. bit v (n + i))" for n
    using smear_step [of v2 4 v n] by (simp add: v3_def)
  then have "bit v4 n = (\<exists>i<16. bit v (n + i))" for n
    using smear_step [of v3 8 v n] by (simp add: v4_def)
  then have "bit (v4 OR drop_bit 16 v4) n = (\<exists>i<32. bit v (n + i))" for n
    using smear_step [of v4 16 v n] by simp
  then show ?thesis by (simp add: smear_def Let_def v1_def v2_def v3_def v4_def)
qed

lemma smear_mask:
  assumes "2 ^ k \<le> unat v" "unat v < 2 ^ Suc k"
  shows "smear v = mask (Suc k)"
proof -
  have k: "k < 32"
  proof (rule ccontr)
    assume "\<not> k < 32"
    then have "(2 :: nat) ^ 32 \<le> 2 ^ k" by (intro power_increasing) auto
    then show False using assms(1) u32_bound [of v] by simp
  qed
  have bit: "bit v j = odd (unat v div 2 ^ j)" for j
    by (subst bit_iff_odd [of "unat v", symmetric]) (simp add: bit_unsigned_iff bit_imp_le_length)
  have top: "bit v k"
  proof -
    have "unat v div 2 ^ k = 1" using assms by (simp add: div_nat_eqI)
    then show ?thesis by (simp add: bit)
  qed
  have above: "\<not> bit v j" if "k < j" for j
  proof -
    have "(2 :: nat) ^ Suc k \<le> 2 ^ j" using that by (intro power_increasing) auto
    then have "unat v div 2 ^ j = 0" using assms(2) by simp
    then show ?thesis by (simp add: bit)
  qed
  show ?thesis
  proof (rule bit_word_eqI)
    fix n assume "n < LENGTH(32)"
    have "(\<exists>i<32. bit v (n + i)) = (n \<le> k)"
    proof
      assume "n \<le> k"
      then show "\<exists>i<32. bit v (n + i)" using top k by (intro exI [of _ "k - n"]) simp
    qed (use above in \<open>meson le_add1 le_trans not_le\<close>)
    then show "bit (smear v) n = bit (mask (Suc k) :: u32) n"
      using \<open>n < LENGTH(32)\<close> by (simp add: smear_bit bit_mask_iff less_Suc_eq_le)
  qed
qed

lemma bruijn_table:
  "list_all (\<lambda>k. mult_bruijn_bit_position ! unat (drop_bit 27 ((mask (Suc k) :: u32) * 0x07C4ACDD)) = k) [0..<32]"
  by code_simp

lemma calculate_shift_log:
  assumes "2 ^ k \<le> unat v" "unat v < 2 ^ Suc k"
  shows "calculate_shift v = k"
proof -
  have "(2 :: nat) ^ k < 2 ^ 32" using assms(1) u32_bound [of v] by simp
  then have "k < 32" by (rule power_less_imp_less_exp [rotated]) simp
  then have "k \<in> set [0..<32]" by simp
  then show ?thesis
    using bruijn_table smear_mask [OF assms] unfolding list_all_iff calculate_shift_def by metis
qed

section \<open>Properties\<close>

text \<open>
  C35. The table lookup of \<open>calculate_shift\<close> computes the integer part of the binary logarithm of every
  non-zero 32-bit block size.
\<close>

theorem calculate_shift_is_log2:
  assumes "v \<noteq> 0"
  shows "2 ^ calculate_shift v \<le> unat v \<and> unat v < 2 ^ Suc (calculate_shift v)"
proof -
  have "1 \<le> unat v" using assms unat_eq_0 [of v] by linarith
  then obtain k where "2 ^ k \<le> unat v" "unat v < 2 ^ Suc k"
    using ex_power_ivl1 [of 2 "unat v"] by auto
  then show ?thesis using calculate_shift_log by metis
qed

theorem calculate_shift_is_log2_witness:
  "2 ^ calculate_shift 5000 \<le> (5000 :: nat) \<and> (5000 :: nat) < 2 ^ Suc (calculate_shift 5000)"
  using calculate_shift_is_log2 [of 5000] by simp

lemma posix_write_all: "sched f = [] \<Longrightarrow> posix_write d f =
    (int (length d), f\<lparr>content := write_at (fpos f) d (content f), fpos := fpos f + length d\<rparr>)"
  by (simp add: posix_write_def)

lemma write_back_part:
  assumes "i < n" "n \<le> length c"
  shows "write_at 0 (take w ((take n c)[i := b])) c = c[i := b] \<or> write_at 0 (take w ((take n c)[i := b])) c = c"
proof -
  define m where "m = min w n"
  have part: "take w ((take n c)[i := b]) = (take m c)[i := b]"
    by (simp add: m_def take_update_swap)
  show ?thesis
  proof (cases "i < m")
    case True
    have "m \<le> length c" using assms(2) by (simp add: m_def)
    with True show ?thesis unfolding part by (intro disjI1 write_back_prefix)
  next
    case False
    then have "(take m c)[i := b] = take m c" by (intro list_update_beyond) simp
    then show ?thesis unfolding part by (simp add: write_at_def min_def)
  qed
qed

text \<open>
  C34. On an image that can be opened and has its first sector, \<open>write_partition_bootunit\<close> changes no byte
  except the one at offset 0xE0 plus the partition number, which lies in the boot code in front of the partition
  table, and it stores the binary logarithm of the block size there: however much the reads and writes transfer,
  the image either has this byte set, or is unchanged and the result is -1. When every transfer is whole the byte
  is set and the result is that of \<^verbatim>\<open>close\<close>. The image is a regular file, or a block device whose sectors
  are large enough to hold the byte.
\<close>

theorem bootunit_written:
  assumes "open_ok env" "malloc_ok env" "sector_block_size env = int sz" "sz \<le> length (content f)" "0xE0 + part_num < sz"
  shows "\<exists>r f'. write_partition_bootunit env True part_num block_size f = Inr (r, f') \<and>
    (content f' = (content f)[0xE0 + part_num := of_nat (calculate_shift block_size)] \<and> (r = close_ret env \<or> r = - 1) \<or>
     content f' = content f \<and> r = - 1) \<and>
    (sched f = [] \<longrightarrow>
       content f' = (content f)[0xE0 + part_num := of_nat (calculate_shift block_size)] \<and> r = close_ret env)"
proof -
  let ?c = "content f" and ?i = "0xE0 + part_num" and ?b = "of_nat (calculate_shift block_size) :: u8"
  obtain n d f1 where rd: "posix_read sz (f\<lparr>fpos := 0\<rparr>) = (n, d, f1)" by (metis prod_cases3)
  have c1: "content f1 = ?c" using posix_read_count(3) [OF rd] by simp
  have whole: "n = int sz \<and> d = take sz ?c \<and> sched f1 = []" if "sched f = []"
    using rd assms(4) that by (auto simp: posix_read_def Let_def)
  note unfolded = write_partition_bootunit_def bootstrap_offset_def posix_lseek_def Let_def
  show ?thesis
  proof (cases "n = int sz")
    case False
    then have "write_partition_bootunit env True part_num block_size f = Inr (- 1, f1)"
      using assms rd by (simp add: unfolded)
    then show ?thesis using c1 whole False by auto
  next
    case True
    have d: "d = take sz ?c" using posix_read_count(2,4) [OF rd] True by simp
    obtain w f3 where wr: "posix_write (d[?i := ?b]) (f1\<lparr>fpos := 0\<rparr>) = (w, f3)" by fastforce
    have res: "write_partition_bootunit env True part_num block_size f = Inr (if w \<noteq> int sz then - 1 else close_ret env, f3)"
      using assms rd True wr by (simp add: unfolded)
    have all: "take sz (d[?i := ?b]) = d[?i := ?b]" using d assms(4) by simp
    have set: "write_at 0 (d[?i := ?b]) ?c = ?c[?i := ?b]" unfolding d by (rule write_back_prefix [OF assms(5,4)])
    note wc = posix_write_count [OF wr]
    have "content f3 = ?c[?i := ?b] \<or> content f3 = ?c \<and> w \<noteq> int sz"
    proof (cases "0 \<le> w")
      case nonneg: True
      then have "content f3 = write_at 0 (take (nat w) (d[?i := ?b])) ?c" using wc(2) c1 by simp
      then show ?thesis using write_back_part [OF assms(5,4), of "nat w" ?b] set all by (cases "w = int sz") (auto simp: d)
    next
      case False
      then show ?thesis using wc(3) c1 by auto
    qed
    moreover have "w = int sz \<and> content f3 = ?c[?i := ?b]" if "sched f = []"
    proof -
      have "length d = sz" using d assms(4) by simp
      then show ?thesis using wr whole that set c1 by (auto simp: posix_write_all)
    qed
    ultimately show ?thesis unfolding res by auto
  qed
qed

definition demo_image :: hfile where
  "demo_image = \<lparr>content = replicate 1024 0, fpos = 0, sched = []\<rparr>"

definition demo_env :: image_env where
  "demo_env = \<lparr>open_ok = True, fstat_ret = 0, is_block_device = False, ioctl_ret = 0, device_sector = 512,
     malloc_ok = True, close_ret = 0\<rparr>"

theorem bootunit_written_witness:
  "\<exists>f'. write_partition_bootunit demo_env True 3 4096 demo_image = Inr (0, f') \<and>
     content f' = (replicate 1024 0)[0xE3 := of_nat (calculate_shift 4096)]"
  using bootunit_written [of demo_env 512 demo_image 3 4096] by (auto simp: demo_env_def demo_image_def sector_block_size_def)

text \<open>
  The extent of a partition is computed one sector short: the end is the offset of its last
  sector, not of the byte behind it, so a partition of \<open>n\<close> sectors is given \<open>n - 1\<close> sectors of room
  (\<^verbatim>\<open>main\<close> divides the difference by the block size to get the number of blocks).
\<close>

theorem partition_extent:
  "pend (partition_of par) - pstart (partition_of par) = (int (blk_size par) - 1) * 512"
  by (simp add: partition_of_def sector_size_def algebra_simps)

end
