(* ===== verification/GenIo.thy ===== *)
theory GenIo
  imports GenPart
begin

text \<open>
  The block device littlefs sees while an image is built,
  \<^verbatim>\<open>src/host-tools/genlittlefs/lfs_ioaccess.c\<close>: reading, programming and erasing blocks of a file or of a
  partition in it. Offsets (\<^verbatim>\<open>off_t\<close>) are 64 bits wide and are modelled as integers.
\<close>

section \<open>Data\<close>

definition LFS_ERR_IO :: int where
  "LFS_ERR_IO = - 5"

record lfs_ioaccess_context =
  file_des :: hfile
  part_offs :: int
  last_offs :: int
  empty_flash_mem :: "u8 list"
  last_sync :: "int \<times> int"

section \<open>Transfers\<close>

lemma posix_read_le: "posix_read n f = (r, d, f') \<Longrightarrow> 0 < r \<Longrightarrow> nat r \<le> n"
  using posix_read_count(1) by fastforce

text \<open>
  The read loop: the code it returns when a call fails (0 otherwise), the number of bytes missing, the
  bytes read.
\<close>

function read_loop :: "nat \<Rightarrow> hfile \<Rightarrow> int \<times> nat \<times> u8 list \<times> hfile" where
  "read_loop sz f =
     (case posix_read sz f of
        (ret, d, f1) \<Rightarrow>
          if ret > 0
          then (let left = sz - nat ret
                in if left > 0
                   then (case read_loop left f1 of (e, l, ds, f2) \<Rightarrow> (e, l, d @ ds, f2))
                   else (0, left, d, f1))
          else if ret = 0 then (0, sz, [], f1)
          else (ret, sz, [], f1))"
  by pat_completeness auto
termination
  by (relation "measure fst") (use posix_read_le in \<open>auto simp: diff_less\<close>)

function prog_loop :: "u8 list \<Rightarrow> hfile \<Rightarrow> int \<times> nat \<times> hfile" where
  "prog_loop d f =
     (case posix_write d f of
        (ret, f1) \<Rightarrow>
          if ret > 0
          then (let rest = drop (nat ret) d
                in if length rest > 0 then prog_loop rest f1 else (0, length rest, f1))
          else if ret = 0 then (0, length d, f1)
          else (ret, length d, f1))"
  by pat_completeness auto
termination
  by (relation "measure (length o fst)") auto

text \<open>
  The erase loop sets the size back to a whole block at the start of every round, while the pointer
  into the block of 0xFF bytes moves on: \<open>p\<close> is that pointer's offset.
\<close>

lemma posix_write_le: "posix_write d f = (r, f') \<Longrightarrow> 0 < r \<Longrightarrow> nat r \<le> length d"
  using posix_write_count(1) by fastforce

function erase_loop :: "nat \<Rightarrow> u8 list \<Rightarrow> nat \<Rightarrow> hfile \<Rightarrow> (int \<times> nat \<times> hfile) outcome" where
  "erase_loop bs mem p f =
     (if p + bs > length mem then Inl OutOfBounds
      else (case posix_write (take bs (drop p mem)) f of
              (ret, f1) \<Rightarrow>
                if ret > 0
                then (let left = bs - nat ret
                      in if left > 0 then erase_loop bs mem (p + nat ret) f1 else Inr (0, left, f1))
                else if ret = 0 then Inr (0, bs, f1)
                else Inr (ret, bs, f1)))"
  by pat_completeness auto
termination
  by (relation "measure (\<lambda>(bs, mem, p, f). length mem - p)") (auto dest: posix_write_le [OF sym])

text \<open>
  The offset of an access and the test the three operations make on it. \<^verbatim>\<open>lseek\<close> fails only for a
  negative offset, with \<^verbatim>\<open>EINVAL\<close>.
\<close>

definition request_offset :: "nat \<Rightarrow> nat \<Rightarrow> nat \<Rightarrow> lfs_ioaccess_context \<Rightarrow> int" where
  "request_offset block_size block off ctx = int block * int block_size + int off + part_offs ctx"

definition lfs_read ::
  "nat \<Rightarrow> nat \<Rightarrow> nat \<Rightarrow> nat \<Rightarrow> lfs_ioaccess_context option \<Rightarrow> int \<times> u8 list \<times> lfs_ioaccess_context option" where
  "lfs_read block_size block off sz ctx =
     (case ctx of
        None \<Rightarrow> (LFS_ERR_IO, [], None)
      | Some c \<Rightarrow>
          (let offrq = request_offset block_size block off c
           in if offrq > last_offs c + int sz then (LFS_ERR_IO, [], ctx)
              else (case posix_lseek offrq (file_des c) of
                      (err, f1) \<Rightarrow>
                        if err < 0 then (- EINVAL, [], Some (c\<lparr>file_des := f1\<rparr>))
                        else if err \<noteq> offrq then (LFS_ERR_IO, [], Some (c\<lparr>file_des := f1\<rparr>))
                        else (case read_loop sz f1 of
                                (e, left, d, f2) \<Rightarrow>
                                  ((if e < 0 then e else if left > 0 then LFS_ERR_IO else 0), d,
                                   Some (c\<lparr>file_des := f2\<rparr>))))))"

definition lfs_prog ::
  "nat \<Rightarrow> nat \<Rightarrow> nat \<Rightarrow> u8 list \<Rightarrow> lfs_ioaccess_context option \<Rightarrow> int \<times> lfs_ioaccess_context option" where
  "lfs_prog block_size block off buffer ctx =
     (case ctx of
        None \<Rightarrow> (LFS_ERR_IO, None)
      | Some c \<Rightarrow>
          (let offrq = request_offset block_size block off c
           in if offrq > last_offs c + int (length buffer) then (LFS_ERR_IO, ctx)
              else (case posix_lseek offrq (file_des c) of
                      (err, f1) \<Rightarrow>
                        if err < 0 then (- EINVAL, Some (c\<lparr>file_des := f1\<rparr>))
                        else if err \<noteq> offrq then (LFS_ERR_IO, Some (c\<lparr>file_des := f1\<rparr>))
                        else (case prog_loop buffer f1 of
                                (e, left, f2) \<Rightarrow>
                                  ((if e < 0 then e else if left > 0 then LFS_ERR_IO else 0),
                                   Some (c\<lparr>file_des := f2\<rparr>))))))"

definition lfs_erase ::
  "nat \<Rightarrow> nat \<Rightarrow> lfs_ioaccess_context option \<Rightarrow> (int \<times> lfs_ioaccess_context option) outcome" where
  "lfs_erase block_size block ctx =
     (case ctx of
        None \<Rightarrow> Inr (LFS_ERR_IO, None)
      | Some c \<Rightarrow>
          (let offrq = request_offset block_size block 0 c
           in if offrq > last_offs c + int block_size then Inr (LFS_ERR_IO, ctx)
              else (case posix_lseek offrq (file_des c) of
                      (err, f1) \<Rightarrow>
                        if err < 0 then Inr (- EINVAL, Some (c\<lparr>file_des := f1\<rparr>))
                        else if err \<noteq> offrq then Inr (LFS_ERR_IO, Some (c\<lparr>file_des := f1\<rparr>))
                        else bind_outcome (erase_loop block_size (empty_flash_mem c) 0 f1)
                               (\<lambda>(e, left, f2).
                                  Inr ((if e < 0 then e else if left > 0 then LFS_ERR_IO else 0),
                                       Some (c\<lparr>file_des := f2\<rparr>))))))"

text \<open>\<^verbatim>\<open>timersub\<close> on seconds and microseconds; the file is synchronised at most once a second.\<close>

definition timersub :: "int \<times> int \<Rightarrow> int \<times> int \<Rightarrow> int \<times> int" where
  "timersub a b =
     (if snd a - snd b < 0 then (fst a - fst b - 1, snd a - snd b + 1000000)
      else (fst a - fst b, snd a - snd b))"

definition lfs_sync :: "(int \<times> int) option \<Rightarrow> int \<Rightarrow> lfs_ioaccess_context \<Rightarrow> int \<times> lfs_ioaccess_context" where
  "lfs_sync now fsync_ret c =
     (case now of
        None \<Rightarrow> (- 1, c)
      | Some curr_msync \<Rightarrow>
          if fst (timersub curr_msync (last_sync c)) \<ge> 1 then (fsync_ret, c\<lparr>last_sync := curr_msync\<rparr>) else (0, c))"

definition lfs_lock_unlock :: int where
  "lfs_lock_unlock = 0"

section \<open>Opening, closing, probing\<close>

record open_env =
  calloc_ok :: bool
  memm_ok :: bool
  opened :: "hfile option"
  fstat_err :: int
  st_size :: int
  S_ISBLK :: bool
  blkgetsize_ret :: int
  device_size :: int

definition lfs_ioaccess_open ::
  "open_env \<Rightarrow> nat \<Rightarrow> partition option \<Rightarrow> lfs_ioaccess_context option" where
  "lfs_ioaccess_open env block_size part =
     (if \<not> calloc_ok env then None
      else if \<not> memm_ok env then None
      else (case opened env of
              None \<Rightarrow> None
            | Some fd \<Rightarrow>
                if fstat_err env < 0 then None
                else if S_ISBLK env \<and> blkgetsize_ret env < 0 then None
                else (let total = (if S_ISBLK env then device_size env else st_size env);
                          ctx = \<lparr>file_des = fd, part_offs = 0, last_offs = total,
                                 empty_flash_mem = replicate block_size 0xFF, last_sync = (0, 0)\<rparr>
                      in case part of
                           None \<Rightarrow> Some ctx
                         | Some p \<Rightarrow>
                             if pend p > total then None
                             else Some (ctx\<lparr>last_offs := pend p, part_offs := pstart p\<rparr>))))"

definition lfs_ioaccess_close :: "lfs_ioaccess_context option \<Rightarrow> int \<Rightarrow> int" where
  "lfs_ioaccess_close ctx close_result = (case ctx of None \<Rightarrow> - 1 | Some c \<Rightarrow> close_result)"

definition lfs_id :: "u8 list" where
  "lfs_id = [0x6C, 0x69, 0x74, 0x74, 0x6C, 0x65, 0x66, 0x73]"

text \<open>
  The number of bytes compared is \<^verbatim>\<open>sizeof(lfs_id) - sizeof('\0')\<close>. A character constant has type
  \<^verbatim>\<open>int\<close> in C, so that is 9 - 4 = 5.
\<close>

definition memcmp_length :: nat where
  "memcmp_length = 9 - 4"

definition lfs_ioaccess_is_lfs_filesystem ::
  "lfs_ioaccess_context option \<Rightarrow> int \<times> lfs_ioaccess_context option" where
  "lfs_ioaccess_is_lfs_filesystem ctx =
     (case ctx of
        None \<Rightarrow> (- 1, None)
      | Some c \<Rightarrow>
          (case posix_lseek (part_offs c + 8) (file_des c) of
             (offs, f1) \<Rightarrow>
               if offs < 0 then (- 1, Some (c\<lparr>file_des := f1\<rparr>))
               else if offs \<noteq> part_offs c + 8 then (- 1, Some (c\<lparr>file_des := f1\<rparr>))
               else (case read_loop 32 f1 of
                       (e, left, d, f2) \<Rightarrow>
                         ((if e < 0 then e else if left > 0 then - 1
                           else if take memcmp_length d = take memcmp_length lfs_id then 1 else 0),
                          Some (c\<lparr>file_des := f2\<rparr>)))))"

declare read_loop.simps [simp del] prog_loop.simps [simp del] erase_loop.simps [simp del]

section \<open>The loops\<close>

lemma read_loop_steady:
  assumes "steady f" "fpos f + n \<le> length (content f)"
  shows "\<exists>f'. read_loop n f = (0, 0, take n (drop (fpos f) (content f)), f') \<and> content f' = content f \<and> steady f'"
  using assms
proof (induction n f rule: read_loop.induct)
  case (1 n f)
  show ?case
  proof (cases "n = 0")
    case True
    then show ?thesis
      using "1.prems" by (auto simp: read_loop.simps posix_read_def steady_def split: list.splits)
  next
    case False
    then obtain d f1 where rd: "posix_read n f = (int (length d), d, f1)" "0 < length d" "length d \<le> n"
      "steady f1" "content f1 = content f" "fpos f1 = fpos f + length d"
      "d = take (length d) (drop (fpos f) (content f))"
      using posix_read_steady [OF "1.prems"(1) _ "1.prems"(2)] by auto
    show ?thesis
    proof (cases "length d = n")
      case True
      then show ?thesis using rd by (subst read_loop.simps) auto
    next
      case less: False
      then have "0 < n - length d" using rd(3) by simp
      then obtain f2 where f2: "read_loop (n - length d) f1 =
          (0, 0, take (n - length d) (drop (fpos f + length d) (content f)), f2)"
        "content f2 = content f" "steady f2"
        using "1.IH" [OF rd(1) [symmetric] refl] rd "1.prems" by auto
      have "take n (drop (fpos f) (content f)) = d @ take (n - length d) (drop (fpos f + length d) (content f))"
        using rd(3,7) take_add [of "length d" "n - length d" "drop (fpos f) (content f)"]
        by (simp add: add.commute)
      then show ?thesis
        using rd(1,2) f2 \<open>0 < n - length d\<close> by (subst read_loop.simps) auto
    qed
  qed
qed

lemma prog_loop_steady:
  assumes "steady f" "fpos f + length d \<le> length (content f)"
  shows "\<exists>f'. prog_loop d f = (0, 0, f') \<and> content f' = write_at (fpos f) d (content f) \<and> steady f'"
  using assms
proof (induction d f rule: prog_loop.induct)
  case (1 d f)
  show ?case
  proof (cases "d = []")
    case True
    then show ?thesis
      using "1.prems" by (auto simp: prog_loop.simps posix_write_def steady_def split: list.splits)
  next
    case False
    then obtain n f1 where wr: "posix_write d f = (int n, f1)" "0 < n" "n \<le> length d" "steady f1"
      "content f1 = write_at (fpos f) (take n d) (content f)" "fpos f1 = fpos f + n"
      using posix_write_steady [OF "1.prems"(1)] by blast
    show ?thesis
    proof (cases "n = length d")
      case True
      then show ?thesis using wr by (subst prog_loop.simps) auto
    next
      case less: False
      have "fpos f1 + length (drop n d) \<le> length (content f1)"
        using wr(3,5,6) "1.prems"(2) by (simp add: length_write_at)
      then obtain f2 where f2: "prog_loop (drop n d) f1 = (0, 0, f2)" "steady f2"
        "content f2 = write_at (fpos f + n) (drop n d) (write_at (fpos f) (take n d) (content f))"
        using "1.IH" [OF wr(1) [symmetric]] wr less by auto
      have "content f2 = write_at (fpos f) d (content f)"
        using f2(3) write_at_append [of "fpos f" "take n d" "drop n d" "content f"] wr(3) "1.prems"(2) by simp
      then show ?thesis using wr f2 less by (subst prog_loop.simps) auto
    qed
  qed
qed

section \<open>Block access\<close>

text \<open>An access of \<open>n\<close> bytes at \<open>q\<close> that lies inside the file and passes the range test.\<close>

definition access_ok :: "lfs_ioaccess_context \<Rightarrow> int \<Rightarrow> nat \<Rightarrow> bool" where
  "access_ok c q n \<longleftrightarrow>
     0 \<le> q \<and> nat q + n \<le> length (content (file_des c)) \<and> q \<le> last_offs c + int n \<and> steady (file_des c)"

lemma lfs_read_ok:
  assumes "access_ok c (request_offset bs b off c) n"
  shows "\<exists>c'. lfs_read bs b off n (Some c) =
      (0, take n (drop (nat (request_offset bs b off c)) (content (file_des c))), Some c') \<and>
     content (file_des c') = content (file_des c)"
proof -
  let ?q = "request_offset bs b off c"
  define f1 where "f1 = (file_des c)\<lparr>fpos := nat ?q\<rparr>"
  have "steady f1" "fpos f1 + n \<le> length (content f1)"
    using assms by (simp_all add: access_ok_def f1_def steady_def)
  then obtain f2 where f2: "read_loop n f1 = (0, 0, take n (drop (nat ?q) (content (file_des c))), f2)"
    "content f2 = content (file_des c)"
    using read_loop_steady [of f1 n] by (auto simp: f1_def)
  have "posix_lseek ?q (file_des c) = (?q, f1)" using assms by (simp add: posix_lseek_def access_ok_def f1_def)
  then show ?thesis using assms f2 by (simp add: lfs_read_def access_ok_def Let_def)
qed

lemma lfs_prog_ok:
  assumes "access_ok c (request_offset bs b off c) (length d)"
  shows "\<exists>f'. lfs_prog bs b off d (Some c) = (0, Some (c\<lparr>file_des := f'\<rparr>)) \<and>
     content f' = write_at (nat (request_offset bs b off c)) d (content (file_des c)) \<and> steady f'"
proof -
  let ?q = "request_offset bs b off c"
  define f1 where "f1 = (file_des c)\<lparr>fpos := nat ?q\<rparr>"
  have "steady f1" "fpos f1 + length d \<le> length (content f1)"
    using assms by (simp_all add: access_ok_def f1_def steady_def)
  then obtain f2 where f2: "prog_loop d f1 = (0, 0, f2)"
    "content f2 = write_at (nat ?q) d (content (file_des c))" "steady f2"
    using prog_loop_steady [of f1 d] by (auto simp: f1_def)
  have "posix_lseek ?q (file_des c) = (?q, f1)" using assms by (simp add: posix_lseek_def access_ok_def f1_def)
  then have "lfs_prog bs b off d (Some c) = (0, Some (c\<lparr>file_des := f2\<rparr>))"
    using assms f2(1) by (simp add: lfs_prog_def access_ok_def Let_def)
  then show ?thesis using f2(2,3) by blast
qed

section \<open>Properties\<close>

definition demo_ctx :: lfs_ioaccess_context where
  "demo_ctx = \<lparr>file_des = \<lparr>content = replicate 2048 0, fpos = 0, sched = [3, 1]\<rparr>, part_offs = 512,
     last_offs = 1536, empty_flash_mem = replicate 512 0xFF, last_sync = (0, 0)\<rparr>"

text \<open>
  C36. Round trip through the block device: what \<open>lfs_prog\<close> stored in a block, however the system split
  the transfer into short writes and reads, \<open>lfs_read\<close> of the same place returns, both with code 0;
  and no byte of the file outside the written range changed.
\<close>

theorem prog_read_roundtrip:
  assumes "access_ok c (request_offset bs b off c) (length d)"
  shows "\<exists>c1 c2. lfs_prog bs b off d (Some c) = (0, Some c1) \<and>
     lfs_read bs b off (length d) (Some c1) = (0, d, Some c2) \<and>
     (\<forall>i < length (content (file_des c)).
        int i < request_offset bs b off c \<or> request_offset bs b off c + int (length d) \<le> int i \<longrightarrow>
        content (file_des c2) ! i = content (file_des c) ! i)"
proof -
  let ?q = "request_offset bs b off c" and ?c = "content (file_des c)"
  obtain f' where f': "lfs_prog bs b off d (Some c) = (0, Some (c\<lparr>file_des := f'\<rparr>))"
    "content f' = write_at (nat ?q) d ?c" "steady f'"
    using lfs_prog_ok [OF assms] by blast
  let ?c1 = "c\<lparr>file_des := f'\<rparr>"
  have q: "request_offset bs b off ?c1 = ?q" by (simp add: request_offset_def)
  have "access_ok ?c1 ?q (length d)" using assms f' by (simp add: access_ok_def length_write_at)
  then obtain c2 where c2: "lfs_read bs b off (length d) (Some ?c1) = (0, take (length d) (drop (nat ?q) (content f')), Some c2)"
    "content (file_des c2) = content f'"
    using lfs_read_ok [of ?c1 bs b off "length d"] q by auto
  have fits: "nat ?q + length d \<le> length ?c" "0 \<le> ?q" using assms by (simp_all add: access_ok_def)
  have "content (file_des c2) ! i = ?c ! i"
    if "i < length ?c" "int i < ?q \<or> ?q + int (length d) \<le> int i" for i
    unfolding c2(2) f'(2) using that fits by (intro write_at_other) auto
  moreover have "take (length d) (drop (nat ?q) (content f')) = d" using read_back [OF fits(1)] f'(2) by simp
  ultimately show ?thesis using f'(1) c2(1) by auto
qed

theorem prog_read_roundtrip_witness:
  "\<exists>c1 c2. lfs_prog 256 1 4 [7, 8, 9] (Some demo_ctx) = (0, Some c1) \<and>
     lfs_read 256 1 4 3 (Some c1) = (0, [7, 8, 9], Some c2)"
  using prog_read_roundtrip [of demo_ctx 256 1 4 "[7, 8, 9]"]
  by (auto simp: access_ok_def request_offset_def demo_ctx_def steady_def numeral_3_eq_3)

text \<open>
  The flaw of the range test: it compares the start of the access with the end of the partition
  \<^emph>\<open>plus\<close> the size, so an access that starts at the partition's end, or as far behind it as it is long,
  is carried out, and programming overwrites the bytes that follow the partition.
\<close>

theorem prog_beyond_partition:
  assumes "request_offset bs b off c = last_offs c" "0 \<le> last_offs c" "steady (file_des c)"
    and "nat (last_offs c) + length d \<le> length (content (file_des c))"
  shows "\<exists>c1. lfs_prog bs b off d (Some c) = (0, Some c1) \<and>
     take (length d) (drop (nat (last_offs c)) (content (file_des c1))) = d"
proof -
  have "access_ok c (request_offset bs b off c) (length d)" using assms by (simp add: access_ok_def)
  from lfs_prog_ok [OF this] obtain f' where "lfs_prog bs b off d (Some c) = (0, Some (c\<lparr>file_des := f'\<rparr>))"
    "content f' = write_at (nat (last_offs c)) d (content (file_des c))"
    using assms(1) by auto
  then show ?thesis using read_back [OF assms(4)] by auto
qed

theorem prog_beyond_partition_witness:
  "\<exists>c1. lfs_prog 512 2 0 [1, 2] (Some demo_ctx) = (0, Some c1) \<and>
     take 2 (drop 1536 (content (file_des c1))) = [1, 2]"
  using prog_beyond_partition [of 512 2 0 demo_ctx "[1, 2]"]
  by (auto simp: request_offset_def demo_ctx_def steady_def numeral_2_eq_2)

text \<open>
  Erasing: when the first write moves a whole block, \<open>lfs_erase\<close> returns 0 with the block filled with
  0xFF; when it moves less, the next round reads behind the end of the 0xFF buffer.
\<close>

theorem erase_block:
  assumes q: "request_offset bs b 0 c = q" "0 \<le> q" "q \<le> last_offs c + int bs"
    and mem: "empty_flash_mem c = replicate bs 0xFF" and bs: "0 < bs"
    and sched: "sched (file_des c) = k # ks" "0 < k"
  shows "if int bs \<le> k
         then \<exists>f'. lfs_erase bs b (Some c) = Inr (0, Some (c\<lparr>file_des := f'\<rparr>)) \<and>
                content f' = write_at (nat q) (replicate bs 0xFF) (content (file_des c))
         else lfs_erase bs b (Some c) = Inl OutOfBounds"
proof -
  define f1 where "f1 = (file_des c)\<lparr>fpos := nat q\<rparr>"
  have seek: "posix_lseek q (file_des c) = (q, f1)" using q(2) by (simp add: posix_lseek_def f1_def)
  have go: "lfs_erase bs b (Some c) = bind_outcome (erase_loop bs (empty_flash_mem c) 0 f1)
      (\<lambda>(e, left, f2). Inr ((if e < 0 then e else if left > 0 then LFS_ERR_IO else 0),
                            Some (c\<lparr>file_des := f2\<rparr>)))"
    using q seek by (simp add: lfs_erase_def Let_def)
  define f2 where "f2 = f1\<lparr>content := write_at (nat q) (take (nat k) (replicate bs 0xFF)) (content f1),
      fpos := nat q + min bs (nat k), sched := ks\<rparr>"
  have w: "posix_write (replicate bs 0xFF) f1 = (int (min bs (nat k)), f2)"
    using sched by (simp add: posix_write_def f1_def f2_def Let_def)
  show ?thesis
  proof (cases "int bs \<le> k")
    case True
    then have "min bs (nat k) = bs" "take (nat k) (replicate bs (0xFF :: u8)) = replicate bs 0xFF" by auto
    then have "erase_loop bs (empty_flash_mem c) 0 f1 = Inr (0, 0, f2)"
      using w bs mem by (subst erase_loop.simps) (simp add: Let_def)
    then have "lfs_erase bs b (Some c) = Inr (0, Some (c\<lparr>file_des := f2\<rparr>))" using go by simp
    moreover have "content f2 = write_at (nat q) (replicate bs 0xFF) (content (file_des c))"
      using \<open>take (nat k) _ = _\<close> by (simp add: f1_def f2_def)
    ultimately show ?thesis using True by auto
  next
    case False
    then have m: "min bs (nat k) = nat k" "0 < nat k" "nat k < bs" using sched(2) by auto
    have "erase_loop bs (empty_flash_mem c) (nat k) f2 = Inl OutOfBounds"
      using m mem by (subst erase_loop.simps) simp
    then have "erase_loop bs (empty_flash_mem c) 0 f1 = Inl OutOfBounds"
      using w m mem by (subst erase_loop.simps) (simp add: Let_def)
    then show ?thesis using go False by simp
  qed
qed

theorem erase_block_witness:
  "lfs_erase 512 0 (Some demo_ctx) = Inl OutOfBounds"
  using erase_block [of 512 0 demo_ctx 512 3 "[1]"] by (simp add: request_offset_def demo_ctx_def)

text \<open>
  Probing for an existing file system compares only the first five bytes of the signature, so any
  data with \<^verbatim>\<open>littl\<close> at offset 8 is taken for a littlefs image.
\<close>

theorem is_lfs_five_bytes:
  assumes "0 \<le> part_offs c" "steady (file_des c)" "nat (part_offs c) + 40 \<le> length (content (file_des c))"
  shows "\<exists>c'. lfs_ioaccess_is_lfs_filesystem (Some c) =
    ((if take 5 (drop (nat (part_offs c) + 8) (content (file_des c))) = [0x6C, 0x69, 0x74, 0x74, 0x6C]
      then 1 else 0), Some c')"
proof -
  define f1 where "f1 = (file_des c)\<lparr>fpos := nat (part_offs c) + 8\<rparr>"
  have "steady f1" "fpos f1 + 32 \<le> length (content f1)" using assms by (simp_all add: f1_def steady_def)
  then obtain f2 where "read_loop 32 f1 = (0, 0, take 32 (drop (nat (part_offs c) + 8) (content (file_des c))), f2)"
    using read_loop_steady [of f1 32] by (auto simp: f1_def)
  moreover have "posix_lseek (part_offs c + 8) (file_des c) = (part_offs c + 8, f1)"
    using assms(1) by (simp add: posix_lseek_def f1_def nat_add_distrib)
  ultimately show ?thesis
    using assms(1) by (simp add: lfs_ioaccess_is_lfs_filesystem_def memcmp_length_def lfs_id_def min_def)
qed

theorem is_lfs_five_bytes_witness:
  "\<exists>c'. lfs_ioaccess_is_lfs_filesystem (Some \<lparr>file_des = \<lparr>content = replicate 8 0 @ [0x6C, 0x69, 0x74, 0x74, 0x6C] @
       replicate 27 0, fpos = 0, sched = [3, 1]\<rparr>, part_offs = 0, last_offs = 40, empty_flash_mem = [],
       last_sync = (0, 0)\<rparr>) = (1, Some c')"
  using is_lfs_five_bytes [of "\<lparr>file_des = \<lparr>content = replicate 8 0 @ [0x6C, 0x69, 0x74, 0x74, 0x6C] @
       replicate 27 0, fpos = 0, sched = [3, 1]\<rparr>, part_offs = 0, last_offs = 40, empty_flash_mem = [],
       last_sync = (0, 0)\<rparr>"]
  by (simp add: steady_def)

end
