(* ===== verification/MkLfs.thy ===== *)
theory MkLfs
  imports GenArgs GenIo
begin

text \<open>
  The image builder itself, \<^verbatim>\<open>src/host-tools/genlittlefs/mklfs.c\<close>: copying host directories into a littlefs
  image, and \<^verbatim>\<open>main\<close>. The littlefs library is not part of the repository's sources: its functions are a
  parameter (\<open>lfs_api\<close>) over a state \<open>'l\<close> of the library's own. The host file system is a tree; messages
  on the terminal are left out.
\<close>

section \<open>The library and the host\<close>

record 'l lfs_api =
  lfs_format :: "'l \<Rightarrow> int \<times> 'l"
  lfs_mount :: "'l \<Rightarrow> int \<times> 'l"
  lfs_unmount :: "'l \<Rightarrow> int \<times> 'l"
  lfs_mkdir :: "string \<Rightarrow> 'l \<Rightarrow> int \<times> 'l"
  lfs_file_open :: "string \<Rightarrow> 'l \<Rightarrow> int \<times> 'l"
  lfs_file_write :: "string \<Rightarrow> u8 list \<Rightarrow> 'l \<Rightarrow> int \<times> 'l"
  lfs_file_close :: "string \<Rightarrow> 'l \<Rightarrow> int \<times> 'l"
  lfs_fs_size :: "'l \<Rightarrow> int"

text \<open>
  An entry of a host directory: a directory with its entries in the order \<^verbatim>\<open>readdir\<close> gives them
  (\<open>None\<close> when it cannot be opened), a regular file (\<open>None\<close> likewise) with the size that \<^verbatim>\<open>stat\<close>
  reports after it has been copied (\<open>None\<close> when that fails), or anything else.
\<close>

datatype host_node =
    Dir "(string \<times> host_node) list option"
  | Reg "hfile option" "nat option"
  | Other

record lfs_info_summary =
  files_added :: nat
  directories_added :: nat
  bytes_transferred :: nat

section \<open>Files and directories\<close>

definition create_dir_in_lfs :: "'l lfs_api \<Rightarrow> string \<Rightarrow> 'l \<Rightarrow> int \<times> 'l" where
  "create_dir_in_lfs api lfs_path l =
     (case lfs_mkdir api lfs_path l of (ret, l1) \<Rightarrow> (if ret < 0 then ret else 0, l1))"

text \<open>The inner loop: \<open>Inl\<close> carries the code of a write that did not move any byte.\<close>

function write_chunk :: "'l lfs_api \<Rightarrow> string \<Rightarrow> u8 list \<Rightarrow> 'l \<Rightarrow> (int \<times> 'l) + 'l" where
  "write_chunk api path d l =
     (case lfs_file_write api path d l of
        (ret, l1) \<Rightarrow>
          if ret \<le> 0 then Inl (ret, l1)
          else if int (length d) - ret > 0 then write_chunk api path (drop (nat ret) d) l1
          else Inr l1)"
  by pat_completeness auto
termination
  by (relation "measure (\<lambda>(api, path, d, l). length d)") auto

text \<open>The outer loop: the code that ends the function early, or the state to close the file in.\<close>

function copy_loop :: "'l lfs_api \<Rightarrow> string \<Rightarrow> hfile \<Rightarrow> 'l \<Rightarrow> (int \<times> 'l) + 'l" where
  "copy_loop api path src l =
     (case posix_read 16384 src of
        (ret, d, src1) \<Rightarrow>
          if ret < 0 then Inl (ret, snd (lfs_file_close api path l))
          else if ret = 0 then Inr l
          else (case write_chunk api path d l of
                  Inl (e, l1) \<Rightarrow> Inl (e, snd (lfs_file_close api path l1))
                | Inr l1 \<Rightarrow> copy_loop api path src1 l1))"
  by pat_completeness auto
termination
  by (relation "measure (\<lambda>(api, path, src, l). length (content src) - fpos src)")
    (auto intro: posix_read_progress(1) [OF sym])

definition create_file_in_lfs :: "'l lfs_api \<Rightarrow> hfile option \<Rightarrow> string \<Rightarrow> 'l \<Rightarrow> int \<times> 'l" where
  "create_file_in_lfs api host_file lfs_file l =
     (case host_file of
        None \<Rightarrow> (- 1, l)
      | Some src \<Rightarrow>
          (case lfs_file_open api lfs_file l of
             (ret, l1) \<Rightarrow>
               if ret < 0 then (ret, l1)
               else (case copy_loop api lfs_file src l1 of
                       Inl (e, l2) \<Rightarrow> (e, l2)
                     | Inr l2 \<Rightarrow> lfs_file_close api lfs_file l2)))"

definition PATH_MAX :: nat where
  "PATH_MAX = 4096"

text \<open>\<^verbatim>\<open>strcpy\<close>, \<^verbatim>\<open>strcat\<close>, \<^verbatim>\<open>strcat\<close> into a buffer of \<^verbatim>\<open>PATH_MAX\<close> bytes.\<close>

definition join_path :: "string \<Rightarrow> string \<Rightarrow> string outcome" where
  "join_path p name =
     (if length p + 1 + length name + 1 > PATH_MAX then Inl OutOfBounds else Inr (p @ ''/'' @ name))"

text \<open>The directory walk; \<open>err\<close> is the code of the last step, returned at the end.\<close>

fun add_entries ::
  "'l lfs_api \<Rightarrow> string \<Rightarrow> string \<Rightarrow> (string \<times> host_node) list \<Rightarrow> int \<Rightarrow> lfs_info_summary \<Rightarrow> 'l \<Rightarrow>
   (int \<times> lfs_info_summary \<times> 'l) outcome" where
  "add_entries api host_path lfs_path [] err sm l = Inr (err, sm, l)"
| "add_entries api host_path lfs_path ((name, node) # ents) err sm l =
     (if name = ''.'' \<or> name = ''..'' then add_entries api host_path lfs_path ents err sm l
      else bind_outcome (join_path lfs_path name) (\<lambda>lfs_curr_path.
           bind_outcome (join_path host_path name) (\<lambda>host_curr_path.
             (case node of
                Dir sub \<Rightarrow>
                  (case create_dir_in_lfs api lfs_curr_path l of
                     (e, l1) \<Rightarrow>
                       if e \<noteq> 0 then Inr (e, sm, l1)
                       else bind_outcome
                              (case sub of
                                 None \<Rightarrow> Inr (0, sm\<lparr>directories_added := directories_added sm + 1\<rparr>, l1)
                               | Some es \<Rightarrow> add_entries api host_curr_path lfs_curr_path es 0
                                              (sm\<lparr>directories_added := directories_added sm + 1\<rparr>) l1)
                              (\<lambda>(e2, sm2, l2).
                                 if e2 \<noteq> 0 then Inr (e2, sm2, l2)
                                 else add_entries api host_path lfs_path ents e2 sm2 l2))
              | Reg src stat_size \<Rightarrow>
                  (case create_file_in_lfs api src lfs_curr_path l of
                     (e, l1) \<Rightarrow>
                       if e \<noteq> 0 then Inr (e, sm, l1)
                       else add_entries api host_path lfs_path ents e
                              (sm\<lparr>files_added := files_added sm + 1,
                                  bytes_transferred := bytes_transferred sm +
                                    (case stat_size of None \<Rightarrow> 0 | Some n \<Rightarrow> n)\<rparr>) l1)
              | Other \<Rightarrow> add_entries api host_path lfs_path ents err sm l))))"

definition add_directory_to_lfs ::
  "'l lfs_api \<Rightarrow> string \<Rightarrow> string \<Rightarrow> (string \<times> host_node) list option \<Rightarrow> lfs_info_summary \<Rightarrow> 'l \<Rightarrow>
   (int \<times> lfs_info_summary \<times> 'l) outcome" where
  "add_directory_to_lfs api host_path lfs_path dir sm l =
     (case dir of None \<Rightarrow> Inr (0, sm, l) | Some es \<Rightarrow> add_entries api host_path lfs_path es 0 sm l)"

text \<open>
  One source argument. \<open>resolve\<close> stands for \<^verbatim>\<open>canonicalize_file_name\<close> and \<^verbatim>\<open>stat\<close>: the canonical path, the
  mode bits, the size and the node, or nothing when either fails. The mode is tested with the bits of
  \<^verbatim>\<open>S_IFDIR\<close> and \<^verbatim>\<open>S_IFREG\<close>.
\<close>

record host_stat =
  canonical :: string
  st_mode :: u32
  st_bytes :: nat
  node :: host_node

definition S_IFDIR :: u32 where
  "S_IFDIR = 0x4000"

definition S_IFREG :: u32 where
  "S_IFREG = 0x8000"

text \<open>What follows the last slash (\<^verbatim>\<open>strrchr\<close>); a path without one is a null pointer plus one.\<close>

definition base_name :: "string \<Rightarrow> string outcome" where
  "base_name p =
     (if CHR ''/'' \<in> set p then Inr (rev (takeWhile (\<lambda>c. c \<noteq> CHR ''/'') (rev p))) else Inl NullDeref)"

definition add_to_lfs ::
  "'l lfs_api \<Rightarrow> host_stat option \<Rightarrow> bool \<Rightarrow> lfs_info_summary \<Rightarrow> 'l \<Rightarrow> (int \<times> lfs_info_summary \<times> 'l) outcome" where
  "add_to_lfs api resolved malloc_succeeds sm l =
     (case resolved of
        None \<Rightarrow> Inr (- 1, sm, l)
      | Some h \<Rightarrow>
          (let is_dir = (st_mode h AND S_IFDIR \<noteq> 0); is_file = (st_mode h AND S_IFREG \<noteq> 0)
           in if \<not> is_dir \<and> \<not> is_file then Inr (- 1, sm, l)
              else bind_outcome (base_name (canonical h)) (\<lambda>base.
                if \<not> malloc_succeeds then Inr (- 1, sm, l)
                else (let tgt_dir = ''/'' @ base
                      in if is_dir
                         then (case create_dir_in_lfs api tgt_dir l of
                                 (err, l1) \<Rightarrow>
                                   if err \<noteq> 0 then Inr (err, sm, l1)
                                   else bind_outcome
                                          (add_directory_to_lfs api (canonical h) tgt_dir
                                             (case node h of Dir es \<Rightarrow> es | _ \<Rightarrow> None) sm l1)
                                          (\<lambda>(e2, sm2, l2).
                                             Inr (e2, if e2 = 0 then sm2\<lparr>directories_added := directories_added sm2 + 1\<rparr>
                                                      else sm2, l2)))
                         else (case create_file_in_lfs api (case node h of Reg f _ \<Rightarrow> f | _ \<Rightarrow> None) tgt_dir l of
                                 (err, l1) \<Rightarrow>
                                   Inr (err, if err = 0
                                             then sm\<lparr>files_added := files_added sm + 1,
                                                     bytes_transferred := bytes_transferred sm + st_bytes h\<rparr>
                                             else sm, l1))))))"

section \<open>Configuration and main\<close>

record lfs_config =
  cfg_block_size :: u32
  cfg_read_size :: u32
  cfg_prog_size :: u32
  cfg_lookahead_size :: u32
  cfg_cache_size :: u32
  cfg_block_cycles :: int
  cfg_block_count :: u32

definition configure_lfs_params :: "littlefs_opts \<Rightarrow> lfs_config" where
  "configure_lfs_params o1 =
     \<lparr>cfg_block_size = word_of_int (block_size o1), cfg_read_size = word_of_int (read_size o1),
      cfg_prog_size = word_of_int (prog_size o1), cfg_lookahead_size = word_of_int (lockahead_size o1),
      cfg_cache_size = word_of_int (cache_size o1), cfg_block_cycles = block_cycles o1,
      cfg_block_count = 0\<rparr>"

text \<open>Division of the C language: rounds towards zero.\<close>

definition c_div :: "int \<Rightarrow> int \<Rightarrow> int" where
  "c_div a b = sgn a * sgn b * (\<bar>a\<bar> div \<bar>b\<bar>)"

text \<open>What the rest of the system answers to \<^verbatim>\<open>main\<close>.\<close>

record main_env =
  partition_answer :: blkid_answer
  elems_before :: nat
  image_open :: open_env
  image_sys :: image_env
  image_file :: hfile
  create_fd :: int
  ftruncate_ret :: int
  resolve :: "string \<Rightarrow> host_stat option"
  tgt_malloc :: bool

definition EXIT_SUCCESS :: int where
  "EXIT_SUCCESS = 0"

definition EXIT_FAILURE :: int where
  "EXIT_FAILURE = 1"

text \<open>
  The branch of \<^verbatim>\<open>main\<close> for a partition: the number is checked against the number of partitions, the
  partition's extent gives the number of blocks, and the boot unit is written. \<open>Inl\<close> is the exit code.
\<close>

definition setup_partition ::
  "main_env \<Rightarrow> littlefs_opts \<Rightarrow> lfs_config \<Rightarrow> (int + lfs_config \<times> lfs_ioaccess_context) outcome" where
  "setup_partition env o1 cfg =
     (case find_partitions (partition_answer env) scan_all_partitions (elems_before env) of
        (None, _) \<Rightarrow> Inr (Inl EXIT_FAILURE)
      | (Some parts, elems) \<Rightarrow>
          if partition_num o1 - 1 > int elems then Inr (Inl EXIT_FAILURE)
          else if nat (partition_num o1 - 1) \<ge> length parts then Inl OutOfBounds
          else (let curr_part = parts ! nat (partition_num o1 - 1);
                    cfg1 = cfg\<lparr>cfg_block_count := word_of_int (c_div (pend curr_part - pstart curr_part) (block_size o1))\<rparr>
                in case lfs_ioaccess_open (image_open env) (unat (cfg_block_size cfg1)) (Some curr_part) of
                     None \<Rightarrow> Inr (Inl EXIT_FAILURE)
                   | Some ioctx \<Rightarrow>
                       bind_outcome
                         (write_partition_bootunit (image_sys env) True (nat (partition_num o1))
                            (word_of_int (block_size o1)) (image_file env))
                         (\<lambda>(ret, _). Inr (if ret \<noteq> 0 then Inl EXIT_FAILURE else Inr (cfg1, ioctx)))))"

definition setup_file ::
  "main_env \<Rightarrow> littlefs_opts \<Rightarrow> lfs_config \<Rightarrow> (int + lfs_config \<times> lfs_ioaccess_context) outcome" where
  "setup_file env o1 cfg =
     (if create_fd env < 0 then Inr (Inl EXIT_FAILURE)
      else if ftruncate_ret env \<noteq> 0 then Inr (Inl EXIT_FAILURE)
      else (let cfg1 = cfg\<lparr>cfg_block_count := word_of_int (c_div (filesystem_size o1) (block_size o1))\<rparr>
            in case lfs_ioaccess_open (image_open env) (unat (cfg_block_size cfg1)) None of
                 None \<Rightarrow> Inr (Inl EXIT_FAILURE)
               | Some ioctx \<Rightarrow> Inr (Inr (cfg1, ioctx))))"

fun add_all ::
  "'l lfs_api \<Rightarrow> main_env \<Rightarrow> string list \<Rightarrow> lfs_info_summary \<Rightarrow> 'l \<Rightarrow> (int \<times> lfs_info_summary \<times> 'l) outcome" where
  "add_all api env [] sm l = Inr (0, sm, l)"
| "add_all api env (d # ds) sm l =
     bind_outcome (add_to_lfs api (resolve env d) (tgt_malloc env) sm l) (\<lambda>(err, sm1, l1).
       if err \<noteq> 0 then Inr (err, sm1, l1) else add_all api env ds sm1 l1)"

text \<open>Format, mount, copy, unmount: the part of \<^verbatim>\<open>main\<close> both modes share.\<close>

definition build_image ::
  "'l lfs_api \<Rightarrow> main_env \<Rightarrow> littlefs_opts \<Rightarrow> lfs_ioaccess_context \<Rightarrow> 'l \<Rightarrow>
   (int \<times> lfs_info_summary \<times> 'l) outcome" where
  "build_image api env o1 ioctx l =
     (let sm0 = \<lparr>files_added = 0, directories_added = 0, bytes_transferred = 0\<rparr>
      in if \<not> overwrite_existing o1 \<and> fst (lfs_ioaccess_is_lfs_filesystem (Some ioctx)) > 0
         then Inr (EXIT_FAILURE, sm0, l)
         else (case lfs_format api l of
                 (e1, l1) \<Rightarrow>
                   if e1 < 0 then Inr (EXIT_FAILURE, sm0, l1)
                   else (case lfs_mount api l1 of
                           (e2, l2) \<Rightarrow>
                             if e2 < 0 then Inr (EXIT_FAILURE, sm0, l2)
                             else bind_outcome (add_all api env (src_dirs o1) sm0 l2) (\<lambda>(e3, sm, l3).
                                    if e3 \<noteq> 0 then Inr (EXIT_FAILURE, sm, snd (lfs_unmount api l3))
                                    else (case lfs_unmount api l3 of
                                            (e4, l4) \<Rightarrow>
                                              Inr (if e4 < 0 then EXIT_FAILURE else EXIT_SUCCESS, sm, l4))))))"

definition main ::
  "'l lfs_api \<Rightarrow> main_env \<Rightarrow> nat \<Rightarrow> opt_event list \<Rightarrow> string list \<Rightarrow> 'l \<Rightarrow> (int \<times> 'l) outcome" where
  "main api env argc evs positional l =
     bind_outcome (parse_program_args argc evs positional) (\<lambda>r.
       case r of
         Inl _ \<Rightarrow> Inr (- 1, l)
       | Inr o1 \<Rightarrow>
           (case mode o1 of
              littlefs_opts_listparts \<Rightarrow>
                (case find_partitions (partition_answer env) scan_all_partitions (elems_before env) of
                   (parts, elems) \<Rightarrow>
                     bind_outcome (print_partitions parts elems) (\<lambda>_. Inr (EXIT_SUCCESS, l)))
            | _ \<Rightarrow>
                bind_outcome
                  (if mode o1 = littlefs_opts_parts
                   then setup_partition env o1 (configure_lfs_params o1)
                   else setup_file env o1 (configure_lfs_params o1))
                  (\<lambda>s. case s of
                         Inl code \<Rightarrow> Inr (code, l)
                       | Inr (cfg, ioctx) \<Rightarrow>
                           bind_outcome (build_image api env o1 ioctx l)
                             (\<lambda>(code, sm, l1). Inr (code, l1)))))"

declare write_chunk.simps [simp del] copy_loop.simps [simp del]

section \<open>What the library documents\<close>

text \<open>
  littlefs seen through what it holds under each path (\<open>fs\<close>), the position in an open file (\<open>pos\<close>) and
  the number of calls that have failed (\<open>errs\<close>). Any call may fail, with a negative code: a name that exists
  or a missing parent, a full device, a failure of the device. A failed call may damage nothing but the path it is
  called for. A directory is created under a name that is free. Opening creates a missing file, and leaves an
  existing one with the position at its start. A write that does not fail moves at least one byte to the
  position. Closing changes nothing.
\<close>

datatype lfs_node = Folder | File "u8 list"

definition kept :: "('l \<Rightarrow> string \<rightharpoonup> lfs_node) \<Rightarrow> string \<Rightarrow> 'l \<Rightarrow> 'l \<Rightarrow> bool" where
  "kept fs p l l' \<longleftrightarrow> (\<forall>q. q \<noteq> p \<longrightarrow> fs l' q = fs l q)"

definition write_file :: "nat \<Rightarrow> u8 list \<Rightarrow> u8 list \<Rightarrow> u8 list" where
  "write_file i d c = take i c @ d @ drop (i + length d) c"

definition lfs_documented ::
    "'l lfs_api \<Rightarrow> ('l \<Rightarrow> string \<rightharpoonup> lfs_node) \<Rightarrow> ('l \<Rightarrow> string \<Rightarrow> nat) \<Rightarrow> ('l \<Rightarrow> nat) \<Rightarrow> bool" where
  "lfs_documented api fs pos errs \<longleftrightarrow>
     (\<forall>l p r l'. lfs_mkdir api p l = (r, l') \<longrightarrow>
        (if r < 0 then errs l' = Suc (errs l) \<and> fs l' = fs l
         else r = 0 \<and> errs l' = errs l \<and> fs l p = None \<and> fs l' = (fs l)(p \<mapsto> Folder))) \<and>
     (\<forall>l p r l'. lfs_file_open api p l = (r, l') \<longrightarrow>
        (if r < 0 then errs l' = Suc (errs l) \<and> fs l' = fs l
         else r = 0 \<and> errs l' = errs l \<and> pos l' p = 0 \<and> fs l p \<noteq> Some Folder \<and>
           fs l' = (if fs l p = None then (fs l)(p \<mapsto> File []) else fs l))) \<and>
     (\<forall>l p c d r l'. fs l p = Some (File c) \<longrightarrow> pos l p \<le> length c \<longrightarrow> d \<noteq> [] \<longrightarrow>
        lfs_file_write api p d l = (r, l') \<longrightarrow>
        (if r < 0 then errs l' = Suc (errs l) \<and> kept fs p l l'
         else 0 < r \<and> r \<le> int (length d) \<and> errs l' = errs l \<and> pos l' p = pos l p + nat r \<and>
           fs l' = (fs l)(p \<mapsto> File (write_file (pos l p) (take (nat r) d) c)))) \<and>
     (\<forall>l p r l'. lfs_file_close api p l = (r, l') \<longrightarrow>
        (if r < 0 then errs l' = Suc (errs l) \<and> kept fs p l l' else r = 0 \<and> errs l' = errs l \<and> fs l' = fs l))"

lemma lfs_documentedD:
  assumes "lfs_documented api fs pos errs"
  shows "lfs_mkdir api p l = (r, l') \<Longrightarrow>
        (if r < 0 then errs l' = Suc (errs l) \<and> fs l' = fs l
         else r = 0 \<and> errs l' = errs l \<and> fs l p = None \<and> fs l' = (fs l)(p \<mapsto> Folder))"
    "lfs_file_open api p l = (r, l') \<Longrightarrow>
        (if r < 0 then errs l' = Suc (errs l) \<and> fs l' = fs l
         else r = 0 \<and> errs l' = errs l \<and> pos l' p = 0 \<and> fs l p \<noteq> Some Folder \<and>
           fs l' = (if fs l p = None then (fs l)(p \<mapsto> File []) else fs l))"
    "fs l p = Some (File c) \<Longrightarrow> pos l p \<le> length c \<Longrightarrow> d \<noteq> [] \<Longrightarrow> lfs_file_write api p d l = (r, l') \<Longrightarrow>
        (if r < 0 then errs l' = Suc (errs l) \<and> kept fs p l l'
         else 0 < r \<and> r \<le> int (length d) \<and> errs l' = errs l \<and> pos l' p = pos l p + nat r \<and>
           fs l' = (fs l)(p \<mapsto> File (write_file (pos l p) (take (nat r) d) c)))"
    "lfs_file_close api p l = (r, l') \<Longrightarrow>
        (if r < 0 then errs l' = Suc (errs l) \<and> kept fs p l l' else r = 0 \<and> errs l' = errs l \<and> fs l' = fs l)"
  using assms unfolding lfs_documented_def by blast+

lemma write_file_end: "write_file (length c) d c = c @ d"
  by (simp add: write_file_def)

text \<open>What a failure on the path \<open>p\<close> leaves behind.\<close>

definition broken :: "('l \<Rightarrow> string \<rightharpoonup> lfs_node) \<Rightarrow> ('l \<Rightarrow> nat) \<Rightarrow> string \<Rightarrow> 'l \<Rightarrow> 'l \<Rightarrow> bool" where
  "broken fs errs p l l' \<longleftrightarrow> errs l < errs l' \<and> kept fs p l l'"

lemma broken_after: "fs l1 = (fs l)(p \<mapsto> x) \<Longrightarrow> errs l1 = errs l \<Longrightarrow> broken fs errs p l1 l2 \<Longrightarrow> broken fs errs p l l2"
  by (simp add: broken_def kept_def)

lemma close_keeps:
  assumes "lfs_documented api fs pos errs" "broken fs errs p l l1"
  shows "broken fs errs p l (snd (lfs_file_close api p l1))"
proof -
  obtain r l2 where "lfs_file_close api p l1 = (r, l2)" by fastforce
  with lfs_documentedD(4) [OF assms(1) this] assms(2) show ?thesis by (auto simp: broken_def kept_def split: if_splits)
qed

lemma write_chunk_all:
  assumes doc: "lfs_documented api fs pos errs"
  shows "fs l p = Some (File c) \<Longrightarrow> pos l p = length c \<Longrightarrow> d \<noteq> [] \<Longrightarrow>
    (\<exists>l'. write_chunk api p d l = Inr l' \<and> errs l' = errs l \<and> pos l' p = length (c @ d) \<and>
          fs l' = (fs l)(p \<mapsto> File (c @ d))) \<or>
    (\<exists>e l'. write_chunk api p d l = Inl (e, l') \<and> e < 0 \<and> broken fs errs p l l')"
proof (induction d arbitrary: l c rule: length_induct)
  case (1 d)
  obtain r l1 where w: "lfs_file_write api p d l = (r, l1)" by fastforce
  note written = lfs_documentedD(3) [OF doc "1.prems"(1) _ "1.prems"(3) w]
  show ?case
  proof (cases "r < 0")
    case True
    then show ?thesis using w written "1.prems"(2) by (subst (1 2) write_chunk.simps) (simp add: broken_def)
  next
    case False
    have k: "0 < r" "r \<le> int (length d)" "errs l1 = errs l" "pos l1 p = length (c @ take (nat r) d)"
      "fs l1 = (fs l)(p \<mapsto> File (c @ take (nat r) d))"
      using written False "1.prems"(2) by (auto simp: write_file_end)
    show ?thesis
    proof (cases "r = int (length d)")
      case True
      then show ?thesis using w k by (subst (1 2) write_chunk.simps) simp
    next
      case More: False
      let ?rest = "drop (nat r) d"
      have "write_chunk api p d l = write_chunk api p ?rest l1"
        using w k(1,2) More by (subst write_chunk.simps) simp
      moreover have "length ?rest < length d" "?rest \<noteq> []" "(c @ take (nat r) d) @ ?rest = c @ d" using k(1,2) More by simp_all
      moreover have "fs l1 p = Some (File (c @ take (nat r) d))" using k(5) by simp
      ultimately have "(\<exists>l'. write_chunk api p d l = Inr l' \<and> errs l' = errs l1 \<and> pos l' p = length (c @ d) \<and>
            fs l' = (fs l1)(p \<mapsto> File (c @ d))) \<or>
          (\<exists>e l'. write_chunk api p d l = Inl (e, l') \<and> e < 0 \<and> broken fs errs p l1 l')"
        using "1.IH" [rule_format, of ?rest l1 "c @ take (nat r) d"] k(4) by (metis append_assoc)
      moreover have "(fs l1)(p \<mapsto> x) = (fs l)(p \<mapsto> x)" for x by (simp only: k(5) fun_upd_upd)
      ultimately show ?thesis using k(3) broken_after [where fs = fs and errs = errs, OF k(5,3)] by metis
    qed
  qed
qed

lemma copy_loop_all:
  assumes doc: "lfs_documented api fs pos errs"
  shows "steady src \<Longrightarrow> fpos src \<le> length (content src) \<Longrightarrow> fs l p = Some (File c) \<Longrightarrow> pos l p = length c \<Longrightarrow>
    (\<exists>l'. copy_loop api p src l = Inr l' \<and> errs l' = errs l \<and>
          fs l' = (fs l)(p \<mapsto> File (c @ drop (fpos src) (content src)))) \<or>
    (\<exists>e l'. copy_loop api p src l = Inl (e, l') \<and> e < 0 \<and> broken fs errs p l l')"
proof (induction "length (content src) - fpos src" arbitrary: src l c rule: less_induct)
  case less
  let ?left = "drop (fpos src) (content src)"
  obtain r d src1 where rd: "posix_read 16384 src = (r, d, src1)" by (cases "posix_read 16384 src") auto
  have k: "\<forall>k\<in>set (sched src). 0 < k" using less.prems(1) by (simp add: steady_def)
  have st: "0 \<le> r" "steady src1" "r = 0 \<longleftrightarrow> ?left = []"
    using rd k by (auto simp: posix_read_def steady_def Let_def split: list.splits if_splits)
  note cnt = posix_read_count [OF rd]
  show ?case
  proof (cases "r = 0")
    case True
    then show ?thesis using rd st(3) less.prems(3) by (subst (1 2) copy_loop.simps) (auto simp: fun_upd_idem)
  next
    case False
    then have d: "0 < length d" "content src1 = content src" "fpos src1 = fpos src + length d"
      "d = take (length d) ?left"
      using cnt st(1) by auto
    have le: "length d \<le> length ?left" using arg_cong [OF d(4), of length] by simp
    consider (written) l1 where "write_chunk api p d l = Inr l1" "errs l1 = errs l" "pos l1 p = length (c @ d)"
        "fs l1 = (fs l)(p \<mapsto> File (c @ d))"
      | (failed) e l1 where "write_chunk api p d l = Inl (e, l1)" "e < 0" "broken fs errs p l l1"
      using write_chunk_all [where d = d, OF doc less.prems(3,4)] d(1) by auto
    then show ?thesis
    proof cases
      case (written l1)
      have step: "copy_loop api p src l = copy_loop api p src1 l1"
        using rd False st(1) written(1) by (subst copy_loop.simps) simp
      have rest: "(c @ d) @ drop (fpos src1) (content src1) = c @ ?left"
        using d append_take_drop_id [of "length d" ?left] by (simp add: add.commute)
      have "(\<exists>l'. copy_loop api p src1 l1 = Inr l' \<and> errs l' = errs l1 \<and>
            fs l' = (fs l1)(p \<mapsto> File ((c @ d) @ drop (fpos src1) (content src1)))) \<or>
          (\<exists>e l'. copy_loop api p src1 l1 = Inl (e, l') \<and> e < 0 \<and> broken fs errs p l1 l')"
        using d(2,3) le less.prems(2) st written posix_read_progress(1) [OF rd] False by (intro less.hyps) auto
      then show ?thesis unfolding step rest
        using written(2,4) broken_after [where fs = fs and errs = errs, OF written(4,2)] by auto
    next
      case (failed e l1)
      have "copy_loop api p src l = Inl (e, snd (lfs_file_close api p l1))"
        using rd False st(1) failed(1) by (subst copy_loop.simps) simp
      then show ?thesis using failed(2) close_keeps [OF doc failed(3)] by simp
    qed
  qed
qed

lemma create_file_copies:
  assumes doc: "lfs_documented api fs pos errs" and src: "steady src" "fpos src = 0" and new: "fs l p = None"
  shows "\<exists>r l'. create_file_in_lfs api (Some src) p l = (r, l') \<and>
    (r = 0 \<and> errs l' = errs l \<and> fs l' = (fs l)(p \<mapsto> File (content src)) \<or> r < 0 \<and> broken fs errs p l l')"
proof -
  obtain r l1 where l1: "lfs_file_open api p l = (r, l1)" by fastforce
  note opened = lfs_documentedD(2) [OF doc l1]
  show ?thesis
  proof (cases "r < 0")
    case True
    then show ?thesis using l1 opened by (simp add: create_file_in_lfs_def broken_def kept_def)
  next
    case False
    then have o1: "fs l1 = (fs l)(p \<mapsto> File [])" "errs l1 = errs l" "pos l1 p = length ([] :: u8 list)"
      using opened new by auto
    then have c1: "fs l1 p = Some (File [])" by simp
    note copied = copy_loop_all [where c = "[]", OF doc src(1) _ c1 o1(3)]
    have up: "(fs l1)(p \<mapsto> x) = (fs l)(p \<mapsto> x)" for x by (simp only: o1(1) fun_upd_upd)
    consider (all) l2 where "copy_loop api p src l1 = Inr l2" "errs l2 = errs l" "fs l2 = (fs l)(p \<mapsto> File (content src))"
      | (failed) e l2 where "copy_loop api p src l1 = Inl (e, l2)" "e < 0" "broken fs errs p l1 l2"
      using copied unfolding up o1(2) src(2) by auto
    then show ?thesis
    proof cases
      case (all l2)
      obtain r3 l3 where l3: "lfs_file_close api p l2 = (r3, l3)" by fastforce
      have "create_file_in_lfs api (Some src) p l = (r3, l3)" using l1 False all(1) l3 by (simp add: create_file_in_lfs_def)
      then show ?thesis using lfs_documentedD(4) [OF doc l3] all(2,3) by (auto simp: broken_def kept_def split: if_splits)
    next
      case (failed e l2)
      then show ?thesis using l1 False broken_after [where fs = fs and errs = errs, OF o1(1,2) failed(3)]
        by (simp add: create_file_in_lfs_def)
    qed
  qed
qed

section \<open>What the directory walk copies\<close>

text \<open>The directories and files below a directory, with their paths in the image, in the order of the walk.\<close>

fun nodes_of :: "string \<Rightarrow> (string \<times> host_node) list \<Rightarrow> (string \<times> lfs_node) list" where
  "nodes_of p [] = []"
| "nodes_of p ((name, nd) # ents) =
     (if name = ''.'' \<or> name = ''..'' then []
      else (case nd of
              Dir sub \<Rightarrow> (p @ ''/'' @ name, Folder) # (case sub of None \<Rightarrow> [] | Some es \<Rightarrow> nodes_of (p @ ''/'' @ name) es)
            | Reg (Some f) _ \<Rightarrow> [(p @ ''/'' @ name, File (content f))]
            | _ \<Rightarrow> [])) @ nodes_of p ents"

text \<open>The sizes that \<^verbatim>\<open>stat\<close> reports, added up.\<close>

fun bytes_of :: "(string \<times> host_node) list \<Rightarrow> nat" where
  "bytes_of [] = 0"
| "bytes_of ((name, nd) # ents) =
     (if name = ''.'' \<or> name = ''..'' then 0
      else (case nd of Dir (Some sub) \<Rightarrow> bytes_of sub | Reg _ (Some n) \<Rightarrow> n | _ \<Rightarrow> 0)) + bytes_of ents"

text \<open>Every regular file can be read, and no path is longer than the buffers.\<close>

fun copyable :: "string \<Rightarrow> string \<Rightarrow> (string \<times> host_node) list \<Rightarrow> bool" where
  "copyable h p [] \<longleftrightarrow> True"
| "copyable h p ((name, nd) # ents) \<longleftrightarrow>
     (name = ''.'' \<or> name = ''..'' \<or>
      length h + length name + 2 \<le> PATH_MAX \<and> length p + length name + 2 \<le> PATH_MAX \<and>
      (case nd of
         Dir (Some sub) \<Rightarrow> copyable (h @ ''/'' @ name) (p @ ''/'' @ name) sub
       | Reg src _ \<Rightarrow> (case src of None \<Rightarrow> False | Some f \<Rightarrow> steady f \<and> fpos f = 0)
       | _ \<Rightarrow> True)) \<and> copyable h p ents"

definition store_all :: "(string \<rightharpoonup> lfs_node) \<Rightarrow> (string \<times> lfs_node) list \<Rightarrow> (string \<rightharpoonup> lfs_node)" where
  "store_all m xs = foldl (\<lambda>m (p, c). m(p \<mapsto> c)) m xs"

lemma store_all_simps [simp]:
  "store_all m [] = m" "store_all m ((p, c) # xs) = store_all (m(p \<mapsto> c)) xs"
  "store_all m (xs @ ys) = store_all (store_all m xs) ys"
  by (simp_all add: store_all_def)

lemma store_all_other: "p \<notin> fst ` set xs \<Longrightarrow> store_all m xs p = m p"
  by (induction xs arbitrary: m) auto

lemma store_all_found: "distinct (map fst xs) \<Longrightarrow> (p, c) \<in> set xs \<Longrightarrow> store_all m xs p = Some c"
  by (induction xs arbitrary: m) (auto simp: store_all_other rev_image_eqI)

text \<open>The summary after copying: files, directories, bytes.\<close>

definition counted :: "(string \<times> lfs_node) list \<Rightarrow> nat \<Rightarrow> lfs_info_summary \<Rightarrow> lfs_info_summary" where
  "counted ns b sm = sm\<lparr>files_added := files_added sm + length (filter (\<lambda>x. snd x \<noteq> Folder) ns),
     directories_added := directories_added sm + length (filter (\<lambda>x. snd x = Folder) ns),
     bytes_transferred := bytes_transferred sm + b\<rparr>"

lemma counted_compose: "counted ns2 b2 (counted ns1 b1 sm) = counted (ns1 @ ns2) (b1 + b2) sm"
  by (simp add: counted_def)

text \<open>The walk over the nodes \<open>ns\<close> has copied them all, or a call has failed and it has said so.\<close>

definition walked ::
    "('l \<Rightarrow> string \<rightharpoonup> lfs_node) \<Rightarrow> ('l \<Rightarrow> nat) \<Rightarrow> (string \<times> lfs_node) list \<Rightarrow> nat \<Rightarrow> lfs_info_summary \<Rightarrow> 'l \<Rightarrow>
     int \<times> lfs_info_summary \<times> 'l \<Rightarrow> bool" where
  "walked fs errs ns b sm l res \<longleftrightarrow>
     (case res of (r, sm', l') \<Rightarrow>
        r = 0 \<and> errs l' = errs l \<and> fs l' = store_all (fs l) ns \<and> sm' = counted ns b sm \<or>
        r < 0 \<and> errs l < errs l' \<and> (\<forall>q. q \<notin> fst ` set ns \<longrightarrow> fs l' q = fs l q))"

lemma walked_nothing: "walked fs errs [] 0 sm l (0, sm, l)"
  by (simp add: walked_def counted_def)

lemma walked_fails: "walked fs errs ns b sm l (r, sm1, l1) \<Longrightarrow> r \<noteq> 0 \<Longrightarrow> walked fs errs (ns @ ns') b' sm l (r, sm1, l1)"
  by (auto simp: walked_def)

lemma walked_on:
  assumes "walked fs errs ns b sm l (0, sm1, l1)" "walked fs errs ns' b' sm1 l1 res"
  shows "walked fs errs (ns @ ns') (b + b') sm l res"
proof -
  obtain r sm2 l2 where res: "res = (r, sm2, l2)" by (metis prod_cases3)
  have 1: "errs l1 = errs l" "fs l1 = store_all (fs l) ns" "sm1 = counted ns b sm" using assms(1) by (auto simp: walked_def)
  consider "r = 0" "errs l2 = errs l1" "fs l2 = store_all (fs l1) ns'" "sm2 = counted ns' b' sm1"
    | "r < 0" "errs l1 < errs l2" "\<forall>q. q \<notin> fst ` set ns' \<longrightarrow> fs l2 q = fs l1 q"
    using assms(2) unfolding res walked_def by auto
  then show ?thesis
  proof cases
    case 1
    then show ?thesis unfolding res walked_def using \<open>errs l1 = errs l\<close> \<open>fs l1 = _\<close> \<open>sm1 = _\<close>
      by (simp add: counted_compose)
  next
    case 2
    have "fs l2 q = fs l q" if "q \<notin> fst ` set (ns @ ns')" for q
    proof -
      have "q \<notin> fst ` set ns" "q \<notin> fst ` set ns'" using that by auto
      then show ?thesis using 2(3) store_all_other \<open>fs l1 = _\<close> by metis
    qed
    then show ?thesis unfolding res walked_def using 2(1,2) \<open>errs l1 = errs l\<close> by simp
  qed
qed

lemma mkdir_walked:
  assumes doc: "lfs_documented api fs pos errs" and d: "create_dir_in_lfs api p l = (e, l1)"
  shows "walked fs errs [(p, Folder)] 0 sm l (e, if e = 0 then sm\<lparr>directories_added := directories_added sm + 1\<rparr> else sm, l1)"
proof -
  obtain r l' where m: "lfs_mkdir api p l = (r, l')" by fastforce
  show ?thesis using lfs_documentedD(1) [OF doc m] d m
    by (auto simp: create_dir_in_lfs_def walked_def counted_def split: if_splits)
qed

lemma file_walked:
  assumes doc: "lfs_documented api fs pos errs" and src: "steady f" "fpos f = 0" and new: "fs l p = None"
    and c: "create_file_in_lfs api (Some f) p l = (e, l1)"
  shows "walked fs errs [(p, File (content f))] b sm l
    (e, if e = 0 then sm\<lparr>files_added := files_added sm + 1, bytes_transferred := bytes_transferred sm + b\<rparr> else sm, l1)"
  using create_file_copies [where fs = fs and errs = errs, OF doc src new] c
  by (auto simp: walked_def counted_def broken_def kept_def)

text \<open>The files that the walk creates are not there yet.\<close>

definition new_files :: "(string \<rightharpoonup> lfs_node) \<Rightarrow> (string \<times> lfs_node) list \<Rightarrow> bool" where
  "new_files m ns \<longleftrightarrow> (\<forall>q c. (q, File c) \<in> set ns \<longrightarrow> m q = None)"

lemma new_files_subset: "new_files m ns' \<Longrightarrow> set ns \<subseteq> set ns' \<Longrightarrow> new_files m ns"
  unfolding new_files_def by blast

lemma new_files_append: "new_files m (ns @ ns') \<longleftrightarrow> new_files m ns \<and> new_files m ns'"
  by (auto simp: new_files_def)

lemma new_files_later:
  assumes "new_files m ns'" "fst ` set ns \<inter> fst ` set ns' = {}"
  shows "new_files (store_all m ns) ns'"
  unfolding new_files_def
proof (intro allI impI)
  fix q c assume q: "(q, File c) \<in> set ns'"
  then have "q \<in> fst ` set ns'" by force
  then have "q \<notin> fst ` set ns" using assms(2) by blast
  then have "store_all m ns q = m q" by (rule store_all_other)
  also have "\<dots> = None" using assms(1) q unfolding new_files_def by blast
  finally show "store_all m ns q = None" .
qed

lemma walked_new_files:
  "walked fs errs ns b sm l (0, sm1, l1) \<Longrightarrow> new_files (fs l) ns' \<Longrightarrow> fst ` set ns \<inter> fst ` set ns' = {} \<Longrightarrow> new_files (fs l1) ns'"
  by (auto simp: walked_def new_files_later)

lemma add_entries_copies:
  assumes doc: "lfs_documented api fs pos errs"
  shows "copyable h p es \<Longrightarrow> distinct (map fst (nodes_of p es)) \<Longrightarrow> new_files (fs l) (nodes_of p es) \<Longrightarrow>
     \<exists>res. add_entries api h p es 0 sm l = Inr res \<and> walked fs errs (nodes_of p es) (bytes_of es) sm l res"
proof (induction p es arbitrary: h sm l rule: nodes_of.induct)
  case (1 p)
  then show ?case by (simp add: walked_nothing)
next
  case (2 p name nd ents)
  note IHrest = "2.IH"(2)
  show ?case
  proof (cases "name = ''.'' \<or> name = ''..''")
    case True
    then show ?thesis using IHrest [of h l sm] "2.prems" by auto
  next
    case False
    let ?q = "p @ ''/'' @ name" and ?h = "h @ ''/'' @ name"
    have len: "length h + length name + 2 \<le> PATH_MAX" "length p + length name + 2 \<le> PATH_MAX"
      and rest: "copyable h p ents" "distinct (map fst (nodes_of p ents))" "new_files (fs l) (nodes_of p ents)"
      using "2.prems" False by (auto simp: new_files_append)
    have jp: "join_path p name = Inr ?q" "join_path h name = Inr ?h"
      using len by (simp_all add: join_path_def)
    text \<open>After the first entry has been walked, the others are.\<close>
    have others: "\<exists>res. add_entries api h p ents 0 sm1 l1 = Inr res \<and>
        walked fs errs (ns @ nodes_of p ents) (b + bytes_of ents) sm l res"
      if "walked fs errs ns b sm l (0, sm1, l1)" "fst ` set ns \<inter> fst ` set (nodes_of p ents) = {}" for ns b sm1 l1
      using IHrest [OF rest(1,2) walked_new_files [OF that(1) rest(3) that(2)], of sm1] walked_on [OF that(1)] by blast
    show ?thesis
    proof (cases nd)
      case (Dir sub)
      define ns where "ns = (case sub of None \<Rightarrow> [] | Some es \<Rightarrow> nodes_of ?q es)"
      define b where "b = (case sub of None \<Rightarrow> 0 | Some es \<Rightarrow> bytes_of es)"
      have all: "nodes_of p ((name, nd) # ents) = ((?q, Folder) # ns) @ nodes_of p ents"
        "bytes_of ((name, nd) # ents) = b + bytes_of ents" using False Dir by (simp_all add: ns_def b_def split: option.split)
      have dist: "distinct (map fst (((?q, Folder) # ns) @ nodes_of p ents))" using "2.prems"(2) unfolding all(1) .
      then have apart: "fst ` set ((?q, Folder) # ns) \<inter> fst ` set (nodes_of p ents) = {}"
        by (simp only: map_append distinct_append set_map)
      have free: "new_files (fs l) ns"
        using "2.prems"(3) unfolding all(1) by (rule new_files_subset) auto
      obtain e l1 where l1: "create_dir_in_lfs api ?q l = (e, l1)" by fastforce
      define sm1 where "sm1 = (if e = 0 then sm\<lparr>directories_added := directories_added sm + 1\<rparr> else sm)"
      have made: "walked fs errs [(?q, Folder)] 0 sm l (e, sm1, l1)" unfolding sm1_def by (rule mkdir_walked [OF doc l1])
      show ?thesis
      proof (cases "e = 0")
        case False
        have "add_entries api h p ((name, nd) # ents) 0 sm l = Inr (e, sm1, l1)"
          using \<open>\<not> (name = ''.'' \<or> name = ''..'')\<close> Dir jp l1 False by (simp add: sm1_def)
        then show ?thesis using walked_fails [OF made False, of "ns @ nodes_of p ents"] unfolding all by simp
      next
        case True
        have "\<exists>e2 sm2 l2. (case sub of None \<Rightarrow> Inr (0, sm1, l1) | Some es \<Rightarrow> add_entries api ?h ?q es 0 sm1 l1) = Inr (e2, sm2, l2) \<and>
            walked fs errs ns b sm1 l1 (e2, sm2, l2)"
        proof (cases sub)
          case None
          then show ?thesis by (simp add: walked_nothing ns_def b_def)
        next
          case (Some es)
          then have sub: "ns = nodes_of ?q es" "b = bytes_of es" by (simp_all add: ns_def b_def)
          have "fst ` set [(?q, Folder)] \<inter> fst ` set ns = {}" using dist by simp
          then have 1: "new_files (fs l1) (nodes_of ?q es)"
            using walked_new_files [OF made [unfolded True] free] unfolding sub by simp
          have 2: "distinct (map fst (nodes_of ?q es))" using dist unfolding sub by simp
          have 3: "copyable ?h ?q es" using "2.prems"(1) \<open>\<not> (name = ''.'' \<or> name = ''..'')\<close> Dir Some by simp
          obtain res where "add_entries api ?h ?q es 0 sm1 l1 = Inr res"
            "walked fs errs (nodes_of ?q es) (bytes_of es) sm1 l1 res"
            using "2.IH"(1) [OF \<open>\<not> (name = ''.'' \<or> name = ''..'')\<close> Dir Some 3 2 1] by blast
          then show ?thesis unfolding sub using Some by (cases res) simp
        qed
        then obtain e2 sm2 l2 where sub: "(case sub of None \<Rightarrow> Inr (0, sm1, l1) | Some es \<Rightarrow> add_entries api ?h ?q es 0 sm1 l1) = Inr (e2, sm2, l2)"
          "walked fs errs ns b sm1 l1 (e2, sm2, l2)" by blast
        have both: "walked fs errs ((?q, Folder) # ns) b sm l (e2, sm2, l2)"
          using walked_on [OF made [unfolded True] sub(2)] by simp
        have run: "add_entries api h p ((name, nd) # ents) 0 sm l =
            (if e2 \<noteq> 0 then Inr (e2, sm2, l2) else add_entries api h p ents e2 sm2 l2)"
          using False Dir jp l1 True sub(1) by (cases sub) (simp_all add: sm1_def)
        show ?thesis
        proof (cases "e2 = 0")
          case True
          then show ?thesis using others [OF both [unfolded True] apart] run unfolding all by simp
        next
          case False
          then show ?thesis using walked_fails [OF both False] run unfolding all by simp
        qed
      qed
    next
      case (Reg src st)
      then obtain f where f: "src = Some f" "steady f" "fpos f = 0"
        using "2.prems"(1) False by (auto split: option.splits)
      let ?b = "case st of None \<Rightarrow> 0 | Some n \<Rightarrow> n"
      have all: "nodes_of p ((name, nd) # ents) = [(?q, File (content f))] @ nodes_of p ents"
        "bytes_of ((name, nd) # ents) = ?b + bytes_of ents" using False Reg f(1) by (simp_all split: option.split)
      have apart: "fst ` set [(?q, File (content f))] \<inter> fst ` set (nodes_of p ents) = {}" and new: "fs l ?q = None"
        using "2.prems"(2,3) unfolding all(1) by (auto simp: new_files_def)
      obtain e l1 where l1: "create_file_in_lfs api (Some f) ?q l = (e, l1)" by fastforce
      define sm1 where "sm1 = (if e = 0 then sm\<lparr>files_added := files_added sm + 1,
          bytes_transferred := bytes_transferred sm + ?b\<rparr> else sm)"
      have made: "walked fs errs [(?q, File (content f))] ?b sm l (e, sm1, l1)"
        unfolding sm1_def by (rule file_walked [where fs = fs and errs = errs, OF doc f(2,3) new l1])
      have run: "add_entries api h p ((name, nd) # ents) 0 sm l =
          (if e \<noteq> 0 then Inr (e, sm1, l1) else add_entries api h p ents e sm1 l1)"
        using False Reg f(1) jp l1 by (simp add: sm1_def)
      show ?thesis
      proof (cases "e = 0")
        case True
        then show ?thesis using others [OF made [unfolded True] apart] run unfolding all by simp
      next
        case False
        then show ?thesis using walked_fails [OF made False] run unfolding all by simp
      qed
    next
      case Other
      then show ?thesis using IHrest [OF rest, of sm] False jp by simp
    qed
  qed
qed

section \<open>Properties\<close>

text \<open>
  C37. Copying a directory: on a library that behaves as documented, when the host files can be read, no path is
  too long and the files are new to the image, the walk ends and its result is 0 if and only if no call of the
  library has failed. Then every directory below the given one is a directory of the image and every regular
  file is in the image with exactly its contents, and the summary counts the files, the directories and the sizes
  that the host reports. With either result all other paths of the image are as before. A directory that the host
  cannot open counts as empty.
\<close>

theorem directory_copied:
  assumes "lfs_documented api fs pos errs" "copyable h p es" "distinct (map fst (nodes_of p es))" "new_files (fs l) (nodes_of p es)"
  shows "\<exists>r sm' l'. add_directory_to_lfs api h p (Some es) sm l = Inr (r, sm', l') \<and>
     (r = 0 \<longleftrightarrow> errs l' = errs l) \<and>
     (r = 0 \<longrightarrow> (\<forall>(q, nd)\<in>set (nodes_of p es). fs l' q = Some nd) \<and> sm' = counted (nodes_of p es) (bytes_of es) sm) \<and>
     (\<forall>q. q \<notin> fst ` set (nodes_of p es) \<longrightarrow> fs l' q = fs l q)"
proof -
  obtain r sm' l' where run: "add_entries api h p es 0 sm l = Inr (r, sm', l')"
    "walked fs errs (nodes_of p es) (bytes_of es) sm l (r, sm', l')"
    using add_entries_copies [where fs = fs and errs = errs, OF assms, of sm] by auto
  then show ?thesis
    using store_all_found [OF assms(3)]
    by (intro exI [of _ r] exI [of _ sm'] exI [of _ l']) (auto simp: add_directory_to_lfs_def walked_def store_all_other)
qed

text \<open>A library that holds a number of bytes, and refuses names that exist.\<close>

record small_lfs =
  held :: "string \<rightharpoonup> lfs_node"
  places :: "string \<Rightarrow> nat"
  refused :: nat
  space :: nat

definition refuse :: "int \<Rightarrow> small_lfs \<Rightarrow> int \<times> small_lfs" where
  "refuse e l = (e, l\<lparr>refused := Suc (refused l)\<rparr>)"

definition small_api :: "small_lfs lfs_api" where
  "small_api = \<lparr>lfs_format = (\<lambda>l. (0, l)), lfs_mount = (\<lambda>l. (0, l)), lfs_unmount = (\<lambda>l. (0, l)),
     lfs_mkdir = (\<lambda>p l. if held l p = None then (0, l\<lparr>held := (held l)(p \<mapsto> Folder)\<rparr>) else refuse (- 17) l),
     lfs_file_open = (\<lambda>p l. if held l p = Some Folder then refuse (- 21) l
        else (0, l\<lparr>held := (if held l p = None then (held l)(p \<mapsto> File []) else held l), places := (places l)(p := 0)\<rparr>)),
     lfs_file_write = (\<lambda>p d l. case held l p of
        Some (File c) \<Rightarrow>
          if space l < length d \<or> d = [] then refuse (- 28) l
          else (int (length d), l\<lparr>held := (held l)(p \<mapsto> File (write_file (places l p) d c)),
                                  places := (places l)(p := places l p + length d), space := space l - length d\<rparr>)
      | _ \<Rightarrow> refuse (- 9) l),
     lfs_file_close = (\<lambda>p l. (0, l)), lfs_fs_size = (\<lambda>l. 0)\<rparr>"

lemma small_api_documented: "lfs_documented small_api held places refused"
  by (auto simp: lfs_documented_def small_api_def refuse_def kept_def split: if_splits)

definition empty_lfs :: "nat \<Rightarrow> small_lfs" where
  "empty_lfs n = \<lparr>held = Map.empty, places = (\<lambda>_. 0), refused = 0, space = n\<rparr>"

definition demo_tree :: "(string \<times> host_node) list" where
  "demo_tree = [(''.'', Dir None),
     (''b'', Reg (Some \<lparr>content = [1, 2, 3], fpos = 0, sched = [2]\<rparr>) (Some 3)),
     (''d'', Dir (Some [(''c'', Reg (Some \<lparr>content = [9], fpos = 0, sched = []\<rparr>) None)]))]"

definition no_summary :: lfs_info_summary where
  "no_summary = \<lparr>files_added = 0, directories_added = 0, bytes_transferred = 0\<rparr>"

text \<open>Four bytes are enough for the two files.\<close>

lemma demo_tree_fits:
  "\<exists>sm' l'. add_directory_to_lfs small_api ''/h'' ''/s'' (Some demo_tree) no_summary (empty_lfs 4) = Inr (0, sm', l')"
  by (simp add: add_directory_to_lfs_def demo_tree_def empty_lfs_def small_api_def create_dir_in_lfs_def create_file_in_lfs_def
      copy_loop.simps write_chunk.simps posix_read_def join_path_def PATH_MAX_def Let_def write_file_def)

theorem directory_copied_witness:
  "\<exists>l' sm'. add_directory_to_lfs small_api ''/h'' ''/s'' (Some demo_tree) no_summary (empty_lfs 4) = Inr (0, sm', l') \<and>
     held l' ''/s/b'' = Some (File [1, 2, 3]) \<and> held l' ''/s/d'' = Some Folder \<and> held l' ''/s/d/c'' = Some (File [9]) \<and>
     files_added sm' = 2 \<and> directories_added sm' = 1 \<and> bytes_transferred sm' = 3"
proof -
  have "copyable ''/h'' ''/s'' demo_tree" "distinct (map fst (nodes_of ''/s'' demo_tree))"
    "new_files (held (empty_lfs 4)) (nodes_of ''/s'' demo_tree)"
    by (simp_all add: demo_tree_def steady_def PATH_MAX_def new_files_def empty_lfs_def)
  from directory_copied [OF small_api_documented this, of no_summary] demo_tree_fits show ?thesis
    by (auto simp: demo_tree_def counted_def no_summary_def)
qed

text \<open>
  The flaw in copying a file: when the library's write returns 0, the function stops in the middle
  and returns that 0, which its callers take for success.
\<close>

theorem short_copy_reported_as_success:
  assumes "\<And>l p. lfs_file_open api p l = (0, l)" "\<And>l p d. lfs_file_write api p d l = (0, l)"
    and "\<And>l p. lfs_file_close api p l = (0, l)"
    and "sched src = []" "fpos src < length (content src)"
  shows "create_file_in_lfs api (Some src) p l = (0, l)"
proof -
  have "posix_read 16384 src =
      (int (min (length (content src) - fpos src) 16384), take 16384 (drop (fpos src) (content src)),
       src\<lparr>fpos := fpos src + min (length (content src) - fpos src) 16384\<rparr>)"
    using assms(4) by (simp add: posix_read_def Let_def)
  moreover have "write_chunk api p d l = Inl (0, l)" for d
    by (subst write_chunk.simps) (simp add: assms)
  ultimately have "copy_loop api p src l = Inl (0, l)"
    using assms(3,5) by (subst copy_loop.simps) simp
  then show ?thesis by (simp add: create_file_in_lfs_def assms)
qed

definition stuck_lfs :: "unit lfs_api" where
  "stuck_lfs = \<lparr>lfs_format = (\<lambda>l. (0, l)), lfs_mount = (\<lambda>l. (0, l)), lfs_unmount = (\<lambda>l. (0, l)),
     lfs_mkdir = (\<lambda>p l. (0, l)), lfs_file_open = (\<lambda>p l. (0, l)), lfs_file_write = (\<lambda>p d l. (0, l)),
     lfs_file_close = (\<lambda>p l. (0, l)), lfs_fs_size = (\<lambda>l. 0)\<rparr>"

theorem short_copy_reported_as_success_witness:
  "create_file_in_lfs stuck_lfs (Some \<lparr>content = [1, 2, 3], fpos = 0, sched = []\<rparr>) ''/f'' () = (0, ())"
  by (rule short_copy_reported_as_success) (simp_all add: stuck_lfs_def)

text \<open>
  The flaw in checking the partition number: the number one above the last partition passes the
  check, and the code then reads behind the end of the partition array.
\<close>

theorem partition_number_off_by_one:
  assumes "partition_answer env = Partlist ps" "ps \<noteq> []" "partition_num o1 = int (length ps) + 1"
  shows "setup_partition env o1 cfg = Inl OutOfBounds"
proof -
  have "find_partitions (partition_answer env) scan_all_partitions (elems_before env) =
      (Some (map partition_of ps), length ps)"
    using assms(1,2) by (cases ps) (simp_all add: find_partitions_def Let_def)
  then show ?thesis using assms(3) by (simp add: setup_partition_def)
qed

text \<open>The environment of a run on an image with one partition.\<close>

definition demo_main_env :: main_env where
  "demo_main_env = \<lparr>partition_answer = Partlist [\<lparr>blk_start = 1, blk_size = 4, blk_type = 0x83\<rparr>], elems_before = 0,
     image_open = \<lparr>calloc_ok = True, memm_ok = True, opened = Some demo_image, fstat_err = 0, st_size = 4096,
                   S_ISBLK = False, blkgetsize_ret = 0, device_size = 0\<rparr>,
     image_sys = demo_env, image_file = demo_image, create_fd = 3, ftruncate_ret = 0,
     resolve = (\<lambda>_. None), tgt_malloc = True\<rparr>"

theorem partition_number_off_by_one_witness:
  "setup_partition demo_main_env (zero_opts\<lparr>partition_num := 2, block_size := 512\<rparr>)
     (configure_lfs_params zero_opts) = Inl OutOfBounds"
  using partition_number_off_by_one [of demo_main_env "[\<lparr>blk_start = 1, blk_size = 4, blk_type = 0x83\<rparr>]"
      "zero_opts\<lparr>partition_num := 2, block_size := 512\<rparr>"]
  by (simp add: demo_main_env_def)

end
