(* ===== verification/PureFlash.thy ===== *)
theory PureFlash
  imports HostFile
begin

text \<open>
  The tool that writes a sparse image to the phone's block device and verifies it,
  \<^verbatim>\<open>src/host-tools/pure-flash/pure-flash.c\<close>. Files are those of \<open>HostFile\<close>; a negative entry \<open>- e\<close> of a
  schedule is a call that fails with \<^verbatim>\<open>errno\<close> \<open>e\<close>. The extents of the image are what the kernel's
  \<^verbatim>\<open>FS_IOC_FIEMAP\<close> reports and are an input. Messages are left out.
\<close>

definition EINTR :: int where
  "EINTR = 4"

text \<open>The \<^verbatim>\<open>errno\<close> the next call on the file sets.\<close>

definition next_errno :: "hfile \<Rightarrow> int" where
  "next_errno f = (case sched f of k # _ \<Rightarrow> if k < 0 then - k else 0 | [] \<Rightarrow> 0)"

record extent =
  fe_logical :: nat
  fe_length :: nat

record fiemap_env =
  fm_malloc_ok :: bool
  fm_count_ok :: bool
  fm_realloc_ok :: bool
  fm_extents :: "extent list option"

definition read_fiemap :: "fiemap_env \<Rightarrow> extent list option" where
  "read_fiemap env =
     (if \<not> fm_malloc_ok env then None
      else if \<not> fm_count_ok env then None
      else if \<not> fm_realloc_ok env then None
      else fm_extents env)"

section \<open>Comparing\<close>

function compare_loop :: "nat \<Rightarrow> nat \<Rightarrow> nat \<Rightarrow> hfile \<Rightarrow> hfile \<Rightarrow> int \<times> hfile \<times> hfile" where
  "compare_loop start_offs segpos len f1 f2 =
     (if len > 0
      then (let rdsiz = (if len > 32768 then 32768 else len)
            in case posix_read rdsiz f1 of
                 (res1, buf1, f1') \<Rightarrow>
                   (case posix_read rdsiz f2 of
                      (res2, buf2, f2') \<Rightarrow>
                        if res1 = res2 \<and> res1 > 0
                        then (if buf1 = buf2
                              then compare_loop start_offs (segpos + nat res1) (len - nat res1) f1' f2'
                              else (int (start_offs + segpos + 1), f1', f2'))
                        else (int (start_offs + segpos + 1), f1', f2')))
      else (0, f1, f2))"
  by pat_completeness auto
termination
  by (relation "measure (\<lambda>(s, p, len, f, g). len)") auto

declare compare_loop.simps [simp del]

definition compare_extent :: "hfile \<Rightarrow> hfile \<Rightarrow> nat \<Rightarrow> nat \<Rightarrow> int \<times> hfile \<times> hfile" where
  "compare_extent f1 f2 start_offs len =
     (case posix_lseek (int start_offs) f1 of
        (o1, g1) \<Rightarrow>
          if o1 < 0 then (o1, g1, f2)
          else (case posix_lseek (int start_offs) f2 of
                  (o2, g2) \<Rightarrow> if o2 < 0 then (o2, g1, g2) else compare_loop start_offs 0 len g1 g2))"

section \<open>Copying\<close>

text \<open>
  Writing a buffer: the loop condition calls \<^verbatim>\<open>write\<close>; an interrupted call is repeated, another error is
  returned, a short count moves on.
\<close>

lemma posix_write_sched: "posix_write d f = (r, f') \<Longrightarrow> sched f' = tl (sched f)"
  by (auto simp: posix_write_def Let_def split: list.splits if_splits)

lemma posix_write_full: "posix_write d f = (r, f') \<Longrightarrow> sched f = [] \<Longrightarrow> r = int (length d)"
  by (simp add: posix_write_def)

lemma posix_read_sched: "posix_read n f = (r, d, f') \<Longrightarrow> sched f' = tl (sched f)"
  by (auto simp: posix_read_def Let_def split: list.splits if_splits)

lemma next_errno_sched: "next_errno f = EINTR \<Longrightarrow> sched f \<noteq> []"
  by (auto simp: next_errno_def EINTR_def)

lemma short_write_sched:
  assumes "(r, f') = posix_write d f" "r \<noteq> int (length d)"
  shows "length (sched f') < length (sched f)"
  using posix_write_full [of d f r f'] posix_write_sched [of d f r f'] assms by (cases "sched f") auto

lemma interrupted_read_sched:
  assumes "(r, d, f') = posix_read n f" "next_errno f = EINTR"
  shows "length (sched f') < length (sched f)"
  using posix_read_sched [of n f r d f'] next_errno_sched [OF assms(2)] assms(1) by (cases "sched f") auto

function write_all :: "u8 list \<Rightarrow> hfile \<Rightarrow> int \<times> hfile" where
  "write_all buf f =
     (if buf = [] then (0, f)
      else (case posix_write buf f of
              (res, f1) \<Rightarrow>
                if res = int (length buf) then (0, f1)
                else if res < 0 \<and> next_errno f = EINTR then write_all buf f1
                else if res < 0 then (res, f1)
                else write_all (drop (nat res) buf) f1))"
  by pat_completeness auto
termination
  by (relation "measure (\<lambda>(buf, f). length buf + length (sched f))")
    (simp, (drule (1) short_write_sched, simp)+)

declare write_all.simps [simp del]

function copy_loop_extent :: "nat \<Rightarrow> hfile \<Rightarrow> hfile \<Rightarrow> int \<times> hfile \<times> hfile" where
  "copy_loop_extent len dest src =
     (if len > 0
      then (let nread = (if len > 32768 then 32768 else len)
            in case posix_read nread src of
                 (rlen, copy_buf, src1) \<Rightarrow>
                   if rlen < 0 \<and> next_errno src = EINTR then copy_loop_extent len dest src1
                   else if rlen > 0
                   then (case write_all copy_buf dest of
                           (res, dest1) \<Rightarrow>
                             if res = 0 then copy_loop_extent (len - nat rlen) dest1 src1
                             else (- 1, dest1, src1))
                   else (- 1, dest, src1))
      else (0, dest, src))"
  by pat_completeness auto
termination
  by (relation "measures [\<lambda>(len, d, s). len, \<lambda>(len, d, s). length (sched s)]")
    (auto dest: interrupted_read_sched)

declare copy_loop_extent.simps [simp del]

definition copy_extent :: "hfile \<Rightarrow> hfile \<Rightarrow> nat \<Rightarrow> nat \<Rightarrow> int \<times> hfile \<times> hfile" where
  "copy_extent dest src start_offs len =
     (case posix_lseek (int start_offs) dest of
        (o1, d1) \<Rightarrow>
          if o1 < 0 then (o1, d1, src)
          else (case posix_lseek (int start_offs) src of
                  (o2, s1) \<Rightarrow> if o2 < 0 then (o2, d1, s1) else copy_loop_extent len d1 s1))"

section \<open>The two passes\<close>

fun compare_extents :: "extent list \<Rightarrow> int \<Rightarrow> hfile \<Rightarrow> hfile \<Rightarrow> int" where
  "compare_extents [] result f1 f2 = result"
| "compare_extents (e # es) result f1 f2 =
     (case compare_extent f1 f2 (fe_logical e) (fe_length e) of
        (r, g1, g2) \<Rightarrow> if r \<noteq> 0 then r else compare_extents es r g1 g2)"

fun copy_extents :: "extent list \<Rightarrow> int \<Rightarrow> hfile \<Rightarrow> hfile \<Rightarrow> int \<times> hfile" where
  "copy_extents [] result dest src = (result, dest)"
| "copy_extents (e # es) result dest src =
     (case copy_extent dest src (fe_logical e) (fe_length e) of
        (r, d1, s1) \<Rightarrow> if r \<noteq> 0 then (r, d1) else copy_extents es r d1 s1)"

definition verify_image :: "hfile option \<Rightarrow> hfile option \<Rightarrow> fiemap_env \<Rightarrow> int" where
  "verify_image sparse block env =
     (case sparse of
        None \<Rightarrow> 1
      | Some fd_sparse \<Rightarrow>
          (case block of
             None \<Rightarrow> 1
           | Some fd_block \<Rightarrow>
               (case read_fiemap env of
                  None \<Rightarrow> 1
                | Some es \<Rightarrow> if compare_extents es (- 1) fd_sparse fd_block \<noteq> 0 then 1 else 0)))"

text \<open>The checks on the two files, then the copy; the block device's contents afterwards are returned.\<close>

record flash_env =
  stat_image_ok :: bool
  image_is_regular :: bool
  stat_device_ok :: bool
  device_is_block :: bool

definition write_image :: "flash_env \<Rightarrow> hfile option \<Rightarrow> hfile option \<Rightarrow> fiemap_env \<Rightarrow> int \<times> hfile option" where
  "write_image fe sparse block env =
     (if \<not> stat_image_ok fe \<or> \<not> image_is_regular fe \<or> \<not> stat_device_ok fe \<or> \<not> device_is_block fe
      then (1, block)
      else (case sparse of
              None \<Rightarrow> (1, block)
            | Some fd_sparse \<Rightarrow>
                (case block of
                   None \<Rightarrow> (1, None)
                 | Some fd_block \<Rightarrow>
                     (case read_fiemap env of
                        None \<Rightarrow> (1, block)
                      | Some es \<Rightarrow>
                          (case copy_extents es (- 1) fd_block fd_sparse of
                             (r, d) \<Rightarrow> (if r \<noteq> 0 then 1 else 0, Some d))))))"

text \<open>
  \<^verbatim>\<open>main\<close>: the image is opened anew for the verification, with a schedule of its own; the device has
  the contents the first pass left.
\<close>

definition flash_main ::
  "nat \<Rightarrow> flash_env \<Rightarrow> fiemap_env \<Rightarrow> hfile option \<Rightarrow> hfile option \<Rightarrow> int list \<Rightarrow> int list \<Rightarrow> int \<times> hfile option" where
  "flash_main argc fe env sparse block sched_image sched_device =
     (if argc \<noteq> 3 then (1, block)
      else (case write_image fe sparse block env of
              (r, block1) \<Rightarrow>
                if r \<noteq> 0 then (1, block1)
                else (verify_image
                        (map_option (\<lambda>f. f\<lparr>fpos := 0, sched := sched_image\<rparr>) sparse)
                        (map_option (\<lambda>f. f\<lparr>fpos := 0, sched := sched_device\<rparr>) block1) env, block1)))"

section \<open>What a successful comparison means\<close>

text \<open>The bytes from \<open>p\<close> on, \<open>n\<close> of them, are there and the same in both files.\<close>

definition same_range :: "u8 list \<Rightarrow> u8 list \<Rightarrow> nat \<Rightarrow> nat \<Rightarrow> bool" where
  "same_range a b p n \<longleftrightarrow>
     take n (drop p a) = take n (drop p b) \<and> (0 < n \<longrightarrow> p + n \<le> length a \<and> p + n \<le> length b)"

lemma same_range_append:
  assumes "same_range a b p n" "same_range a b (p + n) m"
  shows "same_range a b p (n + m)"
proof -
  have "take (n + m) (drop p x) = take n (drop p x) @ take m (drop (p + n) x)" for x :: "u8 list"
    by (simp add: take_add add.commute [of p n])
  then show ?thesis using assms by (auto simp: same_range_def)
qed

lemma compare_loop_zero:
  "compare_loop s q len f1 f2 = (0, g1, g2) \<Longrightarrow> fpos f1 = p \<Longrightarrow> fpos f2 = p \<Longrightarrow>
   same_range (content f1) (content f2) p len \<and> content g1 = content f1 \<and> content g2 = content f2"
proof (induction s q len f1 f2 arbitrary: p rule: compare_loop.induct)
  case (1 s q len f1 f2)
  show ?case
  proof (cases "len > 0")
    case False
    then show ?thesis using "1.prems"(1) by (subst (asm) compare_loop.simps) (simp add: same_range_def)
  next
    case True
    define n where "n = (if len > 32768 then 32768 else len)"
    obtain r1 b1 h1 where rd1: "posix_read n f1 = (r1, b1, h1)" by (cases "posix_read n f1") auto
    obtain r2 b2 h2 where rd2: "posix_read n f2 = (r2, b2, h2)" by (cases "posix_read n f2") auto
    note c1 = posix_read_count [OF rd1] and c2 = posix_read_count [OF rd2]
    have "r1 = r2 \<and> r1 > 0 \<and> b1 = b2"
      using "1.prems"(1) True rd1 rd2
      by (subst (asm) compare_loop.simps) (auto simp: n_def [symmetric] Let_def split: if_splits)
    then have r: "r1 = r2" "0 < r1" "b1 = b2" by auto
    have next_call: "compare_loop s (q + nat r1) (len - nat r1) h1 h2 = (0, g1, g2)"
      using "1.prems"(1) True rd1 rd2 r
      by (subst (asm) compare_loop.simps) (simp add: n_def [symmetric] Let_def)
    have len: "nat r1 = length b1" "length b1 \<le> len" using c1(1,2) r(2) by (auto simp: n_def split: if_splits)
    have p: "fpos h1 = p + length b1" "fpos h2 = p + length b1" using c1(4) c2(4) r "1.prems"(2,3) by auto
    have IH: "same_range (content h1) (content h2) (p + length b1) (len - nat r1) \<and>
        content g1 = content h1 \<and> content g2 = content h2"
      using "1.IH" [OF True n_def rd1 [symmetric] refl rd2 [symmetric] refl _ r(3) next_call p] r by simp
    have "same_range (content f1) (content f2) p (length b1)"
      using c1(4) c2(4) r "1.prems"(2,3) posix_read_progress(2) [OF rd1 r(2)] posix_read_progress(2) [OF rd2] len
      by (auto simp: same_range_def)
    then show ?thesis
      using IH same_range_append [of "content f1" "content f2" p "length b1" "len - nat r1"] c1(3) c2(3) len by simp
  qed
qed

lemma compare_extent_zero:
  assumes "compare_extent f1 f2 s len = (0, g1, g2)"
  shows "same_range (content f1) (content f2) s len \<and> content g1 = content f1 \<and> content g2 = content f2"
  using assms compare_loop_zero [of s 0 len "f1\<lparr>fpos := s\<rparr>" "f2\<lparr>fpos := s\<rparr>" g1 g2 s]
  by (auto simp: compare_extent_def posix_lseek_def)

lemma compare_extents_zero:
  "compare_extents es r f1 f2 = 0 \<Longrightarrow> es \<noteq> [] \<or> r = 0 \<Longrightarrow> e \<in> set es \<Longrightarrow>
   same_range (content f1) (content f2) (fe_logical e) (fe_length e)"
proof (induction es arbitrary: r f1 f2)
  case (Cons x es)
  obtain q g1 g2 where c: "compare_extent f1 f2 (fe_logical x) (fe_length x) = (q, g1, g2)"
    by (cases "compare_extent f1 f2 (fe_logical x) (fe_length x)") auto
  have q: "q = 0" "compare_extents es 0 g1 g2 = 0" using Cons.prems(1) c by (auto split: if_splits)
  then show ?case
    using Cons.IH [OF q(2)] Cons.prems(3) compare_extent_zero [of f1 f2 "fe_logical x" "fe_length x" g1 g2] c by auto
qed simp

section \<open>What copying does\<close>

text \<open>Calls may be short or interrupted, but do not fail otherwise.\<close>

definition retryable :: "hfile \<Rightarrow> bool" where
  "retryable f \<longleftrightarrow> (\<forall>k\<in>set (sched f). 0 < k \<or> k = - EINTR)"

lemma retryable_tl: "retryable f \<Longrightarrow> sched g = tl (sched f) \<Longrightarrow> retryable g"
  by (cases "sched f") (auto simp: retryable_def)

lemma posix_write_retryable:
  assumes "posix_write d f = (r, f')" "retryable f" "d \<noteq> []"
  shows "retryable f'" "r < 0 \<Longrightarrow> next_errno f = EINTR \<and> content f' = content f \<and> fpos f' = fpos f" "r \<noteq> 0"
proof -
  show "retryable f'" using retryable_tl [OF assms(2) posix_write_sched [OF assms(1)]] .
  show "r \<noteq> 0" "r < 0 \<Longrightarrow> next_errno f = EINTR \<and> content f' = content f \<and> fpos f' = fpos f"
    using assms by (auto simp: posix_write_def retryable_def next_errno_def EINTR_def Let_def min_def
        split: list.splits if_splits)
qed

lemma posix_read_retryable:
  assumes "posix_read n f = (r, d, f')" "retryable f" "0 < n" "fpos f < length (content f)"
  shows "retryable f'" "r < 0 \<Longrightarrow> next_errno f = EINTR \<and> fpos f' = fpos f" "r \<noteq> 0"
proof -
  show "retryable f'" using retryable_tl [OF assms(2) posix_read_sched [OF assms(1)]] .
  show "r \<noteq> 0" "r < 0 \<Longrightarrow> next_errno f = EINTR \<and> fpos f' = fpos f"
    using assms by (auto simp: posix_read_def retryable_def next_errno_def EINTR_def Let_def min_def
        split: list.splits if_splits)
qed

lemma write_all_ok:
  "retryable f \<Longrightarrow> fpos f + length d \<le> length (content f) \<Longrightarrow>
   \<exists>f'. write_all d f = (0, f') \<and> content f' = write_at (fpos f) d (content f) \<and>
        fpos f' = fpos f + length d \<and> retryable f'"
proof (induction d f rule: write_all.induct)
  case (1 d f)
  show ?case
  proof (cases "d = []")
    case True
    then show ?thesis using "1.prems" by (subst write_all.simps) auto
  next
    case False
    obtain r f1 where w: "posix_write d f = (r, f1)" by (cases "posix_write d f") auto
    note W = posix_write_retryable [OF w "1.prems"(1) False] and C = posix_write_count [OF w]
    consider "r = int (length d)" | "r < 0" | "0 < r" "r < int (length d)" using W(3) C(1) by linarith
    then show ?thesis
    proof cases
      case 1
      then show ?thesis using w W(1) C(2) False by (subst write_all.simps) auto
    next
      case 2
      then have "\<exists>f'. write_all d f1 = (0, f') \<and> content f' = write_at (fpos f1) d (content f1) \<and>
          fpos f' = fpos f1 + length d \<and> retryable f'"
        using "1.IH"(1) [OF False w [symmetric]] W "1.prems"(2) by auto
      then show ?thesis using 2 w W(2) False by (subst write_all.simps) auto
    next
      case 3
      let ?e = "take (nat r) d" and ?g = "drop (nat r) d"
      have f1: "content f1 = write_at (fpos f) ?e (content f)" "fpos f1 = fpos f + nat r" using C(2) 3 by auto
      have "\<exists>f'. write_all ?g f1 = (0, f') \<and> content f' = write_at (fpos f1) ?g (content f1) \<and>
          fpos f' = fpos f1 + length ?g \<and> retryable f'"
        using "1.IH"(2) [OF False w [symmetric]] W(1) "1.prems"(2) 3 f1 by (auto simp: length_write_at)
      moreover have "write_at (fpos f1) ?g (content f1) = write_at (fpos f) d (content f)"
        using write_at_append [of "fpos f" ?e ?g "content f"] "1.prems"(2) 3 f1 by simp
      ultimately show ?thesis using 3 w False f1 by (subst write_all.simps) auto
    qed
  qed
qed

lemma copy_loop_extent_ok:
  "retryable dest \<Longrightarrow> retryable src \<Longrightarrow> fpos dest = p \<Longrightarrow> fpos src = p \<Longrightarrow>
   p + len \<le> length (content dest) \<Longrightarrow> p + len \<le> length (content src) \<Longrightarrow>
   \<exists>d s. copy_loop_extent len dest src = (0, d, s) \<and> retryable d \<and> retryable s \<and> content s = content src \<and>
     content d = write_at p (take len (drop p (content src))) (content dest)"
proof (induction len dest src arbitrary: p rule: copy_loop_extent.induct)
  case (1 len dest src)
  show ?case
  proof (cases "len > 0")
    case False
    then show ?thesis using "1.prems" by (subst copy_loop_extent.simps) auto
  next
    case True
    define n where "n = (if len > 32768 then 32768 else len)"
    have n: "0 < n" "n \<le> len" using True by (auto simp: n_def)
    obtain r b src1 where rd: "posix_read n src = (r, b, src1)" by (cases "posix_read n src") auto
    note R = posix_read_retryable [OF rd "1.prems"(2) n(1)] and C = posix_read_count [OF rd]
    have lt: "fpos src < length (content src)" using "1.prems"(4,6) True by simp
    show ?thesis
    proof (cases "r < 0")
      case neg: True
      then have "\<exists>d s. copy_loop_extent len dest src1 = (0, d, s) \<and> retryable d \<and> retryable s \<and>
          content s = content src1 \<and> content d = write_at p (take len (drop p (content src1))) (content dest)"
        using "1.IH"(1) [OF True n_def rd [symmetric] refl] R lt "1.prems" C(3) by auto
      then show ?thesis
        using neg True rd R(2) lt C(3) by (subst copy_loop_extent.simps) (auto simp: n_def [symmetric] Let_def)
    next
      case False
      then have r: "0 < r" "r = int (length b)" "fpos src1 = p + length b" "b = take (length b) (drop p (content src))"
        using R(3) lt C(2,4) "1.prems"(4) by auto
      have bl: "length b \<le> len" using C(1) r(2) n(2) by simp
      obtain d1 where d1: "write_all b dest = (0, d1)" "content d1 = write_at p b (content dest)"
        "fpos d1 = p + length b" "retryable d1"
        using write_all_ok [OF "1.prems"(1), of b] "1.prems"(3,5) bl by auto
      have "\<exists>d s. copy_loop_extent (len - nat r) d1 src1 = (0, d, s) \<and> retryable d \<and> retryable s \<and>
          content s = content src1 \<and>
          content d = write_at (p + length b) (take (len - nat r) (drop (p + length b) (content src1))) (content d1)"
        using "1.IH"(2) [OF True n_def rd [symmetric] refl _ r(1) d1(1) [symmetric] refl, of "p + length b"]
          False R(1) lt d1 r bl C(3) "1.prems"(5,6) by (simp add: length_write_at)
      moreover have "b @ take (len - nat r) (drop (p + length b) (content src)) = take len (drop p (content src))"
        using take_add [of "length b" "len - length b" "drop p (content src)"] r(2,4) bl
        by (simp add: add.commute)
      ultimately show ?thesis
        using True False rd r d1 C(3) bl "1.prems"(5,6)
          write_at_append [of p b "take (len - nat r) (drop (p + length b) (content src))" "content dest"]
        by (subst copy_loop_extent.simps) (auto simp: n_def [symmetric] Let_def)
    qed
  qed
qed

text \<open>The extents lie inside both files.\<close>

definition extents_fit :: "extent list \<Rightarrow> u8 list \<Rightarrow> u8 list \<Rightarrow> bool" where
  "extents_fit es a b \<longleftrightarrow>
     (\<forall>e\<in>set es. fe_logical e + fe_length e \<le> length a \<and> fe_logical e + fe_length e \<le> length b)"

lemma copy_extent_ok:
  assumes "retryable dest" "retryable src" "s + len \<le> length (content dest)" "s + len \<le> length (content src)"
  shows "\<exists>d s'. copy_extent dest src s len = (0, d, s') \<and> retryable d \<and> retryable s' \<and> content s' = content src \<and>
     content d = write_at s (take len (drop s (content src))) (content dest)"
  using copy_loop_extent_ok [of "dest\<lparr>fpos := s\<rparr>" "src\<lparr>fpos := s\<rparr>" s len] assms
  by (simp add: copy_extent_def posix_lseek_def retryable_def)

text \<open>
  A byte of the device that already agrees with the image keeps agreeing, since only image bytes are
  written; the bytes of the extent agree afterwards.
\<close>

lemma write_image_bytes_nth:
  assumes "s + len \<le> length c" "s + len \<le> length d" "i < length d"
  shows "write_at s (take len (drop s c)) d ! i = (if s \<le> i \<and> i < s + len then c ! i else d ! i)"
proof -
  have l: "length (take len (drop s c)) = len" using assms(1) by simp
  have "write_at s (take len (drop s c)) d = take s d @ take len (drop s c) @ drop (s + len) d"
    using write_at_inside [of s "take len (drop s c)" d] assms(2) unfolding l by simp
  moreover have "length (take s d) = s" using assms(2) by simp
  ultimately show ?thesis using assms l by (auto simp: nth_append simp del: length_take)
qed

lemma copy_extents_ok:
  "retryable dest \<Longrightarrow> retryable src \<Longrightarrow> extents_fit es (content src) (content dest) \<Longrightarrow> es \<noteq> [] \<or> r = 0 \<Longrightarrow>
   \<exists>d. copy_extents es r dest src = (0, d) \<and> length (content d) = length (content dest) \<and>
     (\<forall>i < length (content dest). content d ! i =
        (if \<exists>e\<in>set es. fe_logical e \<le> i \<and> i < fe_logical e + fe_length e then content src ! i
         else content dest ! i))"
proof (induction es arbitrary: r dest src)
  case (Cons e es)
  let ?s = "fe_logical e" and ?n = "fe_length e"
  have fit: "?s + ?n \<le> length (content dest)" "?s + ?n \<le> length (content src)"
    using Cons.prems(3) by (auto simp: extents_fit_def)
  obtain d1 s1 where c: "copy_extent dest src ?s ?n = (0, d1, s1)" "retryable d1" "retryable s1"
    "content s1 = content src" "content d1 = write_at ?s (take ?n (drop ?s (content src))) (content dest)"
    using copy_extent_ok [OF Cons.prems(1,2) fit] by blast
  have len: "length (content d1) = length (content dest)" using fit c(5) by (simp add: length_write_at)
  have "extents_fit es (content s1) (content d1)" using Cons.prems(3) c(4) len by (auto simp: extents_fit_def)
  then obtain d where d: "copy_extents es 0 d1 s1 = (0, d)" "length (content d) = length (content d1)"
    "\<forall>i < length (content d1). content d ! i =
        (if \<exists>e\<in>set es. fe_logical e \<le> i \<and> i < fe_logical e + fe_length e then content s1 ! i
         else content d1 ! i)"
    using Cons.IH [OF c(2,3), of 0] by auto
  have "content d1 ! i = (if ?s \<le> i \<and> i < ?s + ?n then content src ! i else content dest ! i)"
    if "i < length (content dest)" for i
    unfolding c(5) using fit that by (intro write_image_bytes_nth) auto
  then show ?case using c(1,4) d len by auto
qed simp

section \<open>Properties\<close>

text \<open>
  C39. Verification is sound whatever the system does with the transfers: if \<open>verify_image\<close> reports
  success, then every extent of the image is present in both files with the same bytes.
\<close>

theorem verify_image_sound:
  assumes "verify_image (Some img) (Some device) env = 0" "read_fiemap env = Some es" "e \<in> set es"
  shows "same_range (content img) (content device) (fe_logical e) (fe_length e)"
proof -
  have "compare_extents es (- 1) img device = 0" "es \<noteq> []"
    using assms by (auto simp: verify_image_def split: if_splits)
  then show ?thesis using compare_extents_zero assms(3) by blast
qed

definition demo_fiemap :: fiemap_env where
  "demo_fiemap = \<lparr>fm_malloc_ok = True, fm_count_ok = True, fm_realloc_ok = True,
     fm_extents = Some [\<lparr>fe_logical = 1, fe_length = 2\<rparr>]\<rparr>"

theorem verify_image_sound_witness:
  "same_range [5, 6, 7] [0, 6, 7] 1 2"
proof -
  let ?i = "\<lparr>content = [5, 6, 7], fpos = 0, sched = []\<rparr> :: hfile" and ?d = "\<lparr>content = [0, 6, 7], fpos = 0, sched = []\<rparr> :: hfile"
  have "verify_image (Some ?i) (Some ?d) demo_fiemap = 0"
    by (simp add: verify_image_def demo_fiemap_def read_fiemap_def compare_extent_def posix_lseek_def
        compare_loop.simps posix_read_def Let_def)
  then show ?thesis
    using verify_image_sound [of ?i ?d demo_fiemap "[\<lparr>fe_logical = 1, fe_length = 2\<rparr>]" "\<lparr>fe_logical = 1, fe_length = 2\<rparr>"]
    by (simp add: demo_fiemap_def read_fiemap_def)
qed

text \<open>
  C38. Writing an image: when the calls are at worst short or interrupted and there are extents and they fit, \<open>write_image\<close>
  succeeds, the device holds the image's bytes on every extent, and all its other bytes are as before.
\<close>

theorem write_image_copies:
  assumes "stat_image_ok fe" "image_is_regular fe" "stat_device_ok fe" "device_is_block fe"
    and "read_fiemap env = Some es" "es \<noteq> []" "extents_fit es (content img) (content device)"
    and "retryable img" "retryable device"
  shows "\<exists>d. write_image fe (Some img) (Some device) env = (0, Some d) \<and>
     length (content d) = length (content device) \<and>
     (\<forall>i < length (content device). content d ! i =
        (if \<exists>e\<in>set es. fe_logical e \<le> i \<and> i < fe_logical e + fe_length e then content img ! i
         else content device ! i))"
  using copy_extents_ok [OF assms(9,8,7), of "- 1"] assms(1-6) by (auto simp: write_image_def)

theorem write_image_copies_witness:
  "\<exists>d. write_image \<lparr>stat_image_ok = True, image_is_regular = True, stat_device_ok = True, device_is_block = True\<rparr>
       (Some \<lparr>content = [5, 6, 7], fpos = 0, sched = [- 4, 1]\<rparr>) (Some \<lparr>content = [0, 0, 0, 0], fpos = 0, sched = [- 4]\<rparr>)
       demo_fiemap = (0, Some d) \<and> content d ! 2 = 7 \<and> content d ! 3 = 0"
  using write_image_copies [of "\<lparr>stat_image_ok = True, image_is_regular = True, stat_device_ok = True, device_is_block = True\<rparr>"
      demo_fiemap "[\<lparr>fe_logical = 1, fe_length = 2\<rparr>]" "\<lparr>content = [5, 6, 7], fpos = 0, sched = [- 4, 1]\<rparr>"
      "\<lparr>content = [0, 0, 0, 0], fpos = 0, sched = [- 4]\<rparr>"]
  by (auto simp: demo_fiemap_def read_fiemap_def extents_fit_def retryable_def EINTR_def)

text \<open>
  The flaw for images without extents (an empty or fully sparse file): nothing has to be copied, but
  the result still has its initial value -1 and both passes report failure.
\<close>

theorem no_extents_fails:
  assumes "read_fiemap env = Some []"
  shows "fst (write_image fe (Some img) (Some device) env) = 1 \<and> verify_image (Some img) (Some device) env = 1"
  using assms by (simp add: write_image_def verify_image_def)

theorem no_extents_fails_witness:
  "verify_image (Some \<lparr>content = [], fpos = 0, sched = []\<rparr>) (Some \<lparr>content = [1], fpos = 0, sched = []\<rparr>)
     (demo_fiemap\<lparr>fm_extents := Some []\<rparr>) = 1"
  using no_extents_fails [of "demo_fiemap\<lparr>fm_extents := Some []\<rparr>"] by (simp add: read_fiemap_def demo_fiemap_def)

end
