(* ===== verification/ProfPool.thy ===== *)
theory ProfPool
  imports Prelude
begin

text \<open>
  The pool of per-task execution times of the profiler, \<^verbatim>\<open>src/module-os/prof/prof.c\<close>. The array comes from
  \<^verbatim>\<open>malloc\<close>; \<open>None\<close> is the null pointer it is before initialisation and after \<open>prof_pool_deinit\<close>. The
  callbacks are set together by \<open>prof_pool_init\<close> and never cleared. Sizes are numbers, for pools whose size in
  bytes fits a \<^verbatim>\<open>size_t\<close>: the position is then at most one more than the size of the pool until the first access
  behind the array, so that the C code's \<^verbatim>\<open>unsigned int\<close> does not wrap either.
\<close>

section \<open>Model\<close>

record task_prof_data =
  task_TCB_id :: u32
  exec_time :: u32
  switches :: u32

record prof_pool =
  pool :: "task_prof_data list option"
  overflow_counter :: u32
  pos :: nat
  pool_size :: nat
  callbacks_set :: bool

definition zero_entry :: task_prof_data where
  "zero_entry = \<lparr>task_TCB_id = 0, exec_time = 0, switches = 0\<rparr>"

definition pool_clean :: "prof_pool \<Rightarrow> prof_pool outcome" where
  "pool_clean st =
     (if pool st = None \<and> pool_size st \<noteq> 0 then Inl NullDeref
      else Inr (st\<lparr>pool := map_option (\<lambda>es. replicate (pool_size st) zero_entry @ drop (pool_size st) es) (pool st),
                   overflow_counter := 0, pos := 0\<rparr>))"

definition pool_overflow :: "u32 \<Rightarrow> prof_pool \<Rightarrow> prof_pool" where
  "pool_overflow tid st = st\<lparr>overflow_counter := tid\<rparr>"

text \<open>
  The index of the entry for a task: the search stops at the end of the array or at the first unused
  entry; an unknown task gets the entry at \<open>pos\<close>, whatever \<open>pos\<close> is.
\<close>

function pool_search :: "u32 \<Rightarrow> task_prof_data list \<Rightarrow> nat \<Rightarrow> nat \<Rightarrow> nat \<Rightarrow> nat option" where
  "pool_search tid es sz p i =
     (if i < sz \<and> i \<noteq> p then (if tid = task_TCB_id (es ! i) then Some i else pool_search tid es sz p (Suc i))
      else None)"
  by pat_completeness auto
termination
  by (relation "measure (\<lambda>(tid, es, sz, p, i). sz - i)") auto

declare pool_search.simps [simp del]

definition pool_get :: "u32 \<Rightarrow> prof_pool \<Rightarrow> (nat \<times> prof_pool) outcome" where
  "pool_get tid st =
     (let st1 = (if pos st = pool_size st then pool_overflow tid st else st)
      in if pos st1 \<noteq> 0 \<and> pool_size st1 \<noteq> 0 \<and> pool st1 = None then Inl NullDeref
         else (case pool_search tid (case pool st1 of None \<Rightarrow> [] | Some es \<Rightarrow> es) (pool_size st1) (pos st1) 0 of
                 Some i \<Rightarrow> Inr (i, st1)
               | None \<Rightarrow> Inr (pos st1, st1\<lparr>pos := pos st1 + 1\<rparr>)))"

text \<open>\<open>block\<close> is the answer of \<^verbatim>\<open>malloc\<close>: the array it hands out, with anything in it, or a null pointer.\<close>

definition prof_pool_init :: "task_prof_data list option \<Rightarrow> nat \<Rightarrow> prof_pool \<Rightarrow> prof_pool outcome" where
  "prof_pool_init block sz st =
     pool_clean (st\<lparr>pool_size := sz, callbacks_set := True, pool := block\<rparr>)"

definition prof_pool_deinit :: "prof_pool \<Rightarrow> prof_pool" where
  "prof_pool_deinit st = st\<lparr>pool := None\<rparr>"

definition prof_pool_get_data :: "prof_pool \<Rightarrow> nat" where
  "prof_pool_get_data st = pool_size st"

definition account :: "u8 \<Rightarrow> u32 \<Rightarrow> task_prof_data \<Rightarrow> task_prof_data" where
  "account ts tid e = e\<lparr>task_TCB_id := tid, exec_time := exec_time e + ucast ts, switches := switches e + 1\<rparr>"

definition prof_pool_data_set :: "u8 \<Rightarrow> u32 \<Rightarrow> prof_pool \<Rightarrow> prof_pool outcome" where
  "prof_pool_data_set ts tid st =
     (if \<not> callbacks_set st then Inr st
      else bind_outcome (pool_get tid st) (\<lambda>(i, st1).
        case pool st1 of
          None \<Rightarrow> Inl NullDeref
        | Some es \<Rightarrow>
            if i \<ge> length es then Inl OutOfBounds
            else Inr (st1\<lparr>pool := Some (es[i := account ts tid (es ! i)])\<rparr>)))"

definition prof_pool_overflow :: "prof_pool \<Rightarrow> u32" where
  "prof_pool_overflow st = overflow_counter st"

text \<open>The number of entries copied is the caller's, not the size of the pool.\<close>

definition prof_pool_flush :: "nat \<Rightarrow> prof_pool \<Rightarrow> (u32 \<times> task_prof_data list \<times> prof_pool) outcome" where
  "prof_pool_flush cap st =
     (case pool st of
        None \<Rightarrow>
          if cap \<noteq> 0 then Inl NullDeref
          else bind_outcome (pool_clean st) (\<lambda>st1. Inr (overflow_counter st, [], st1))
      | Some es \<Rightarrow>
          if cap > length es then Inl OutOfBounds
          else bind_outcome (pool_clean st) (\<lambda>st1. Inr (overflow_counter st, take cap es, st1)))"

section \<open>What the pool stands for\<close>

text \<open>The events accounted so far, each a time slice and a task, and what they add up to for a task.\<close>

definition total_time :: "(u8 \<times> u32) list \<Rightarrow> u32 \<Rightarrow> u32" where
  "total_time evs tid = (\<Sum>(ts, t)\<leftarrow>filter (\<lambda>e. snd e = tid) evs. ucast ts)"

definition total_switches :: "(u8 \<times> u32) list \<Rightarrow> u32 \<Rightarrow> u32" where
  "total_switches evs tid = of_nat (length (filter (\<lambda>e. snd e = tid) evs))"

definition entry_for :: "(u8 \<times> u32) list \<Rightarrow> u32 \<Rightarrow> task_prof_data" where
  "entry_for evs tid = \<lparr>task_TCB_id = tid, exec_time = total_time evs tid, switches = total_switches evs tid\<rparr>"

text \<open>Tasks in the order of their first event.\<close>

definition tasks_of :: "(u8 \<times> u32) list \<Rightarrow> u32 list" where
  "tasks_of evs = rev (remdups (rev (map snd evs)))"

definition pool_rep :: "prof_pool \<Rightarrow> (u8 \<times> u32) list \<Rightarrow> bool" where
  "pool_rep st evs \<longleftrightarrow>
     callbacks_set st \<and> length (tasks_of evs) \<le> pool_size st \<and> pos st = length (tasks_of evs) \<and>
     pool st = Some (map (entry_for evs) (tasks_of evs) @ replicate (pool_size st - pos st) zero_entry)"

fun prof_run :: "(u8 \<times> u32) list \<Rightarrow> prof_pool \<Rightarrow> prof_pool outcome" where
  "prof_run [] st = Inr st"
| "prof_run ((ts, tid) # evs) st = bind_outcome (prof_pool_data_set ts tid st) (prof_run evs)"

lemma tasks_of_simps [simp]:
  "tasks_of [] = []" "distinct (tasks_of evs)" "set (tasks_of evs) = snd ` set evs"
  by (simp_all add: tasks_of_def)

lemma tasks_of_snoc:
  "tasks_of (evs @ [(ts, tid)]) = (if tid \<in> snd ` set evs then tasks_of evs else tasks_of evs @ [tid])"
  by (auto simp: tasks_of_def)

lemma pool_search_found:
  "i \<le> k \<Longrightarrow> k < p \<Longrightarrow> p \<le> sz \<Longrightarrow> task_TCB_id (es ! k) = tid \<Longrightarrow>
   (\<And>j. i \<le> j \<Longrightarrow> j < k \<Longrightarrow> task_TCB_id (es ! j) \<noteq> tid) \<Longrightarrow> pool_search tid es sz p i = Some k"
proof (induction "k - i" arbitrary: i)
  case 0
  then show ?case by (subst pool_search.simps) auto
next
  case (Suc n)
  then have "pool_search tid es sz p (Suc i) = Some k" by (intro Suc.hyps) auto
  moreover have "task_TCB_id (es ! i) \<noteq> tid" using Suc.hyps(2) Suc.prems(5) [of i] by simp
  moreover have "i < sz" "i \<noteq> p" using Suc.hyps(2) Suc.prems(2,3) by simp_all
  ultimately show ?case by (subst pool_search.simps) simp
qed

lemma pool_search_missing:
  "i \<le> p \<Longrightarrow> p \<le> sz \<Longrightarrow> (\<And>j. i \<le> j \<Longrightarrow> j < p \<Longrightarrow> task_TCB_id (es ! j) \<noteq> tid) \<Longrightarrow>
   pool_search tid es sz p i = None"
proof (induction "p - i" arbitrary: i)
  case 0
  then show ?case by (subst pool_search.simps) auto
next
  case (Suc n)
  then have "pool_search tid es sz p (Suc i) = None" by (intro Suc.hyps) auto
  moreover have "task_TCB_id (es ! i) \<noteq> tid" using Suc.hyps(2) Suc.prems(3) [of i] by simp
  ultimately show ?case by (subst pool_search.simps) simp
qed

lemma entry_for_snoc:
  "entry_for (evs @ [(ts, tid)]) t = (if t = tid then account ts tid (entry_for evs tid) else entry_for evs t)"
  by (simp add: entry_for_def account_def total_time_def total_switches_def)

lemma entry_for_none: "t \<notin> snd ` set evs \<Longrightarrow> entry_for evs t = zero_entry\<lparr>task_TCB_id := t\<rparr>"
proof -
  assume "t \<notin> snd ` set evs"
  then have "filter (\<lambda>e. snd e = t) evs = []" by (force simp: filter_empty_conv)
  then show ?thesis by (simp add: entry_for_def zero_entry_def total_time_def total_switches_def)
qed

lemma map_entry_snoc_other:
  "tid \<notin> set ts' \<Longrightarrow> map (entry_for (evs @ [(ts, tid)])) ts' = map (entry_for evs) ts'"
  by (auto simp: entry_for_snoc)

lemma prof_step_known:
  assumes rep: "pool_rep st evs" and k: "tid \<in> snd ` set evs"
  shows "\<exists>st'. prof_pool_data_set ts tid st = Inr st' \<and> pool_rep st' (evs @ [(ts, tid)])"
proof -
  define rest where "rest = replicate (pool_size st - pos st) zero_entry"
  have R: "callbacks_set st" "length (tasks_of evs) \<le> pool_size st" "pos st = length (tasks_of evs)"
    "pool st = Some (map (entry_for evs) (tasks_of evs) @ rest)"
    using rep by (simp_all add: pool_rep_def rest_def)
  let ?es = "map (entry_for evs) (tasks_of evs) @ rest"
  obtain as bs where split: "tasks_of evs = as @ tid # bs" "tid \<notin> set as"
    using k split_list_first [of tid "tasks_of evs"] by auto
  have notb: "tid \<notin> set bs" using tasks_of_simps(2) [of evs] unfolding split(1) by simp
  have "pool_search tid ?es (pool_size st) (pos st) 0 = Some (length as)"
    using R(2,3) split by (intro pool_search_found) (auto simp: nth_append entry_for_def)
  then have get: "pool_get tid st = Inr (length as, if pos st = pool_size st then pool_overflow tid st else st)"
    using R(4) by (auto simp: pool_get_def pool_overflow_def Let_def)
  have "?es[length as := account ts tid (?es ! length as)] =
      map (entry_for (evs @ [(ts, tid)])) (tasks_of evs) @ rest"
    using split notb
    by (simp add: nth_append list_update_append entry_for_snoc map_entry_snoc_other)
  then show ?thesis
    using R k get split
    by (auto simp: prof_pool_data_set_def pool_rep_def tasks_of_snoc rest_def pool_overflow_def)
qed

lemma prof_step_new:
  assumes rep: "pool_rep st evs" and k: "tid \<notin> snd ` set evs" and room: "length (tasks_of evs) < pool_size st"
  shows "\<exists>st'. prof_pool_data_set ts tid st = Inr st' \<and> pool_rep st' (evs @ [(ts, tid)])"
proof -
  obtain n where n: "pool_size st - pos st = Suc n" "pool_size st - Suc (pos st) = n"
    using room rep by (cases "pool_size st - pos st") (auto simp: pool_rep_def)
  have R: "callbacks_set st" "pos st = length (tasks_of evs)"
    "pool st = Some (map (entry_for evs) (tasks_of evs) @ zero_entry # replicate n zero_entry)"
    using rep n by (simp_all add: pool_rep_def)
  let ?es = "map (entry_for evs) (tasks_of evs) @ zero_entry # replicate n zero_entry"
  have "task_TCB_id (?es ! j) \<noteq> tid" if "j < pos st" for j
  proof -
    have "tasks_of evs ! j \<in> snd ` set evs" using that R(2) nth_mem [of j "tasks_of evs"] by simp
    then show ?thesis using that R(2) k by (auto simp: nth_append entry_for_def)
  qed
  then have "pool_search tid ?es (pool_size st) (pos st) 0 = None"
    using R(2) room by (intro pool_search_missing) auto
  then have get: "pool_get tid st = Inr (pos st, st\<lparr>pos := pos st + 1\<rparr>)"
    using R room by (simp add: pool_get_def Let_def)
  have "?es[pos st := account ts tid (?es ! pos st)] =
      map (entry_for (evs @ [(ts, tid)])) (tasks_of evs @ [tid]) @ replicate n zero_entry"
    using R(2) k entry_for_none [OF k]
    by (simp add: nth_append list_update_append map_entry_snoc_other entry_for_snoc account_def)
  then show ?thesis
    using R k get room n by (simp add: prof_pool_data_set_def pool_rep_def tasks_of_snoc)
qed

lemma prof_step:
  assumes "pool_rep st evs" "length (tasks_of (evs @ [(ts, tid)])) \<le> pool_size st"
  shows "\<exists>st'. prof_pool_data_set ts tid st = Inr st' \<and> pool_rep st' (evs @ [(ts, tid)])"
  using assms prof_step_known [of st evs tid ts] prof_step_new [of st evs tid ts]
  by (cases "tid \<in> snd ` set evs") (simp_all add: tasks_of_snoc)

lemma data_set_size: "prof_pool_data_set ts tid st = Inr st' \<Longrightarrow> pool_size st' = pool_size st"
  by (auto simp: prof_pool_data_set_def pool_get_def pool_overflow_def Let_def bind_outcome_Inr_iff
      split: if_splits option.splits sum.splits)

lemma tasks_of_append_length: "length (tasks_of evs) \<le> length (tasks_of (evs @ es))"
proof (induction es rule: rev_induct)
  case (snoc e es)
  then show ?case by (cases e) (simp add: tasks_of_snoc flip: append_assoc)
qed simp

lemma prof_run_rep:
  "pool_rep st evs \<Longrightarrow> length (tasks_of (evs @ es)) \<le> pool_size st \<Longrightarrow>
   \<exists>st'. prof_run es st = Inr st' \<and> pool_rep st' (evs @ es) \<and> pool_size st' = pool_size st"
proof (induction es arbitrary: st evs)
  case Nil
  then show ?case by simp
next
  case (Cons e es)
  obtain ts tid where e: "e = (ts, tid)" by (cases e)
  have le: "length (tasks_of (evs @ [(ts, tid)])) \<le> pool_size st"
    using tasks_of_append_length [of "evs @ [(ts, tid)]" es] Cons.prems(2) e by simp
  from prof_step [OF Cons.prems(1) le] obtain st1
    where 1: "prof_pool_data_set ts tid st = Inr st1" "pool_rep st1 (evs @ [(ts, tid)])" by blast
  have sz: "pool_size st1 = pool_size st" by (rule data_set_size [OF 1(1)])
  have "length (tasks_of ((evs @ [(ts, tid)]) @ es)) \<le> pool_size st1" using Cons.prems(2) e sz by simp
  from Cons.IH [OF 1(2) this] show ?case using 1(1) e sz by simp
qed

lemma pool_rep_init:
  "length es = n \<Longrightarrow> \<exists>st0. prof_pool_init (Some es) n st = Inr st0 \<and> pool_rep st0 [] \<and> pool_size st0 = n"
  by (simp add: prof_pool_init_def pool_clean_def pool_rep_def)

lemma prof_pool_init_null: "n \<noteq> 0 \<Longrightarrow> prof_pool_init None n st = Inl NullDeref"
  by (simp add: prof_pool_init_def pool_clean_def)

section \<open>Properties\<close>

text \<open>
  C40. When \<^verbatim>\<open>malloc\<close> hands out the array: between initialisation and flush, accounting any sequence of time
  slices of at most as many different tasks as the pool has entries succeeds, and the flush copies out exactly one
  entry per task, in the order in which the tasks first ran, each with the sum of its slices and the number of
  its switches (both modulo \<open>2 ^ 32\<close>), followed by zeroed entries; the pool is empty again afterwards.
\<close>

theorem prof_flush_totals:
  assumes "length (tasks_of evs) \<le> n" "length block = n"
  shows "\<exists>st0 st' st''. prof_pool_init (Some block) n st = Inr st0 \<and> prof_run evs st0 = Inr st' \<and>
    prof_pool_flush n st' = Inr (overflow_counter st',
      map (entry_for evs) (tasks_of evs) @ replicate (n - length (tasks_of evs)) zero_entry, st'') \<and>
    pool_rep st'' []"
proof -
  obtain st0 where i: "prof_pool_init (Some block) n st = Inr st0" "pool_rep st0 []" "pool_size st0 = n"
    using pool_rep_init [OF assms(2)] by blast
  from prof_run_rep [OF i(2), of evs] assms(1) i(3) obtain st'
    where r: "prof_run evs st0 = Inr st'" "pool_rep st' evs" "pool_size st' = n" by auto
  then have "\<exists>st''. prof_pool_flush n st' = Inr (overflow_counter st',
      map (entry_for evs) (tasks_of evs) @ replicate (n - length (tasks_of evs)) zero_entry, st'') \<and> pool_rep st'' []"
    using assms(1) by (simp add: prof_pool_flush_def pool_rep_def pool_clean_def)
  then show ?thesis using i(1) r(1) by blast
qed

text \<open>Before initialisation.\<close>

definition no_pool :: prof_pool where
  "no_pool = \<lparr>pool = None, overflow_counter = 0, pos = 0, pool_size = 0, callbacks_set = False\<rparr>"

theorem prof_flush_totals_witness:
  "\<exists>st0 st' st''. prof_pool_init (Some (replicate 3 zero_entry)) 3 no_pool = Inr st0 \<and>
    prof_run [(5, 7), (250, 9), (10, 7)] st0 = Inr st' \<and>
    prof_pool_flush 3 st' = Inr (overflow_counter st',
      [\<lparr>task_TCB_id = 7, exec_time = 15, switches = 2\<rparr>, \<lparr>task_TCB_id = 9, exec_time = 250, switches = 1\<rparr>,
       zero_entry], st'') \<and>
    pool_rep st'' []"
  using prof_flush_totals [of "[(5, 7), (250, 9), (10, 7)]" 3 "replicate 3 zero_entry" no_pool]
  by (simp add: tasks_of_def entry_for_def total_time_def total_switches_def)

text \<open>
  The calls of the repository's test \<^verbatim>\<open>prof api sum\<close>, \<^verbatim>\<open>prof_pool_data_set(0, 10)\<close> ten times on a pool of one entry: the
  first argument is the time slice, so that the sum is 0. The test expects 100, as if the arguments
  were the other way round.
\<close>

theorem prof_api_sum_is_zero:
  "bind_outcome (prof_pool_init (Some [zero_entry]) 1 no_pool) (\<lambda>st0.
     bind_outcome (prof_run (replicate 10 (0, 10)) st0) (\<lambda>st1.
       bind_outcome (prof_pool_flush 1 st1) (\<lambda>(ovf, mem, st2). Inr mem))) =
   Inr [\<lparr>task_TCB_id = 10, exec_time = 0, switches = 10\<rparr>]"
  by code_simp

text \<open>
  A full pool and a task that is not in it: the entry handed out is the one past the end of the
  array, so accounting the slice writes outside it (and the overflow counter holds the task's identifier,
  not a count).
\<close>

theorem prof_full_pool_overruns:
  assumes "pool_rep st evs" "length (tasks_of evs) = pool_size st" "tid \<notin> snd ` set evs"
  shows "pool_get tid st = Inr (pool_size st, st\<lparr>overflow_counter := tid, pos := pool_size st + 1\<rparr>) \<and>
    prof_pool_data_set ts tid st = Inl OutOfBounds"
proof -
  have R: "callbacks_set st" "pos st = pool_size st" "pool st = Some (map (entry_for evs) (tasks_of evs))"
    using assms(1,2) by (simp_all add: pool_rep_def)
  let ?es = "map (entry_for evs) (tasks_of evs)"
  have "task_TCB_id (?es ! j) \<noteq> tid" if "j < pos st" for j
  proof -
    have j: "j < length (tasks_of evs)" using that R(2) assms(2) by simp
    then have "tasks_of evs ! j \<in> snd ` set evs" using nth_mem [of j "tasks_of evs"] by simp
    then show ?thesis using j assms(3) by (auto simp: entry_for_def)
  qed
  then have "pool_search tid ?es (pool_size st) (pool_size st) 0 = None"
    using R(2) by (intro pool_search_missing) auto
  then have "pool_get tid st = Inr (pool_size st, st\<lparr>overflow_counter := tid, pos := pool_size st + 1\<rparr>)"
    using R by (simp add: pool_get_def pool_overflow_def Let_def)
  then show ?thesis using R assms(2) by (simp add: prof_pool_data_set_def)
qed

theorem prof_full_pool_overruns_witness:
  "let st = \<lparr>pool = Some [\<lparr>task_TCB_id = 7, exec_time = 5, switches = 1\<rparr>], overflow_counter = 0, pos = 1,
            pool_size = 1, callbacks_set = True\<rparr>
   in pool_get 8 st = Inr (1, st\<lparr>overflow_counter := 8, pos := 2\<rparr>) \<and> prof_pool_data_set 3 8 st = Inl OutOfBounds"
  using prof_full_pool_overruns [of "\<lparr>pool = Some [\<lparr>task_TCB_id = 7, exec_time = 5, switches = 1\<rparr>],
      overflow_counter = 0, pos = 1, pool_size = 1, callbacks_set = True\<rparr>" "[(5, 7)]" 8 3]
  by (simp add: pool_rep_def tasks_of_def entry_for_def total_time_def total_switches_def)

end
