(* ===== verification/MmcTypes.thy ===== *)
theory MmcTypes
  imports Prelude "HOL-Library.Monad_Syntax"
begin

unbundle bit_operations_syntax

text \<open>
  Data of the eMMC card driver: the registers and the card descriptor of \<^verbatim>\<open>fsl_mmc.h\<close> and
  \<^verbatim>\<open>fsl_sdmmc_spec.h\<close>, commands and data transfers of \<^verbatim>\<open>fsl_usdhc.h\<close>, all under
  \<^verbatim>\<open>src/module-bsp/board/rt1051\<close>, and the interface of the host controller driver, which is a parameter of
  the card driver: a record of the operations it calls, over a state \<open>'h\<close> of controller, bus and card.
\<close>

section \<open>Status codes\<close>

datatype status =
    kStatus_Success | kStatus_Fail | kStatus_InvalidArgument | kStatus_Timeout
  | kStatus_SDMMC_NotSupportYet | kStatus_SDMMC_TransferFailed | kStatus_SDMMC_SetCardBlockSizeFailed
  | kStatus_SDMMC_CardNotSupport | kStatus_SDMMC_AllSendCidFailed | kStatus_SDMMC_SendCsdFailed
  | kStatus_SDMMC_SelectCardFailed | kStatus_SDMMC_SetDataBusWidthFailed | kStatus_SDMMC_GoIdleFailed
  | kStatus_SDMMC_HandShakeOperationConditionFailed | kStatus_SDMMC_SwitchFailed
  | kStatus_SDMMC_StopTransmissionFailed | kStatus_SDMMC_SetBlockCountFailed
  | kStatus_SDMMC_SetRelativeAddressFailed | kStatus_SDMMC_SwitchBusTimingFailed
  | kStatus_SDMMC_SendExtendedCsdFailed | kStatus_SDMMC_ConfigureBootFailed
  | kStatus_SDMMC_ConfigureExtendedCsdFailed | kStatus_SDMMC_EnableHighCapacityEraseFailed
  | kStatus_SDMMC_InvalidVoltage | kStatus_SDMMC_TuningFail | kStatus_SDMMC_ReTuningRequest
  | kStatus_SDMMC_SetPowerClassFail | kStatus_SDMMC_HostNotReady | kStatus_SDMMC_PollingCardIdleFailed
  | kStatus_SDMMC_DeselectCardFailed | kStatus_SDMMC_CardStatusIdle | kStatus_SDMMC_CardStatusBusy
  | kStatus_SDMMC_CardInitFailed | HostStatus int

section \<open>Commands\<close>

datatype command_type = kCARD_CommandTypeNormal | kCARD_CommandTypeAbort

datatype response_type =
  kCARD_ResponseTypeNone | kCARD_ResponseTypeR1 | kCARD_ResponseTypeR1b | kCARD_ResponseTypeR2 | kCARD_ResponseTypeR3

record sdmmchost_cmd =
  cmd_index :: u32
  cmd_argument :: u32
  cmd_type :: command_type
  responseType :: response_type
  responseErrorFlags :: u32

text \<open>The data of a transfer: a buffer to fill, or bytes to send.\<close>

datatype payload = RxData "u8 list" | TxData "u8 list"

record sdmmchost_data =
  data_blockSize :: u32
  data_blockCount :: u32
  enableAutoCommand12 :: bool
  data_payload :: payload

definition command :: "u32 \<Rightarrow> u32 \<Rightarrow> response_type \<Rightarrow> u32 \<Rightarrow> sdmmchost_cmd" where
  "command i a r e =
     \<lparr>cmd_index = i, cmd_argument = a, cmd_type = kCARD_CommandTypeNormal, responseType = r, responseErrorFlags = e\<rparr>"

text \<open>
  The operations of \<^verbatim>\<open>fsl_sdmmc_host.c\<close> and of the operating system that the driver calls. A transfer
  yields a status, the four response words (zero when the controller did not fill them) and, for a
  transfer into a buffer, the contents of the buffer afterwards.
\<close>

record 'h sdmmchost =
  TransferFunction :: "sdmmchost_cmd \<Rightarrow> sdmmchost_data option \<Rightarrow> 'h \<Rightarrow> status \<times> u32 list \<times> u8 list \<times> 'h"
  IsCardBusy :: "'h \<Rightarrow> bool \<times> 'h"
  ExecuteTuning :: "u32 \<Rightarrow> u32 \<Rightarrow> 'h \<Rightarrow> status \<times> 'h"
  SetCardClock :: "u32 \<Rightarrow> 'h \<Rightarrow> u32 \<times> 'h"
  OSA_TimeDelay :: "u32 \<Rightarrow> 'h \<Rightarrow> 'h"
  maxBlockCount :: u32
  maxBlockSize :: u32

definition "kSDMMC_GoIdleState = (0 :: u32)"
definition "kMMC_SendOperationCondition = (1 :: u32)"
definition "kSDMMC_AllSendCid = (2 :: u32)"
definition "kMMC_SetRelativeAddress = (3 :: u32)"
definition "kMMC_SleepAwake = (5 :: u32)"
definition "kMMC_Switch = (6 :: u32)"
definition "kSDMMC_SelectCard = (7 :: u32)"
definition "kMMC_SendExtendedCsd = (8 :: u32)"
definition "kSDMMC_SendCsd = (9 :: u32)"
definition "kSDMMC_StopTransmission = (12 :: u32)"
definition "kSDMMC_SendStatus = (13 :: u32)"
definition "kSDMMC_GoInactiveState = (15 :: u32)"
definition "kSDMMC_SetBlockLength = (16 :: u32)"
definition "kSDMMC_ReadSingleBlock = (17 :: u32)"
definition "kSDMMC_ReadMultipleBlock = (18 :: u32)"
definition "kMMC_SendTuningBlock = (21 :: u32)"
definition "kSDMMC_SetBlockCount = (23 :: u32)"
definition "kSDMMC_WriteSingleBlock = (24 :: u32)"
definition "kSDMMC_WriteMultipleBlock = (25 :: u32)"
definition "kMMC_EraseGroupStart = (35 :: u32)"
definition "kMMC_EraseGroupEnd = (36 :: u32)"
definition "kSDMMC_Erase = (38 :: u32)"
definition "kSDMMC_ApplicationCommand = (55 :: u32)"

lemmas command_indices =
  kSDMMC_GoIdleState_def kMMC_SendOperationCondition_def kSDMMC_AllSendCid_def kMMC_SetRelativeAddress_def
  kMMC_SleepAwake_def kMMC_Switch_def kSDMMC_SelectCard_def kMMC_SendExtendedCsd_def kSDMMC_SendCsd_def
  kSDMMC_StopTransmission_def kSDMMC_SendStatus_def kSDMMC_GoInactiveState_def kSDMMC_SetBlockLength_def
  kSDMMC_ReadSingleBlock_def kSDMMC_ReadMultipleBlock_def kMMC_SendTuningBlock_def kSDMMC_SetBlockCount_def
  kSDMMC_WriteSingleBlock_def kSDMMC_WriteMultipleBlock_def kMMC_EraseGroupStart_def kMMC_EraseGroupEnd_def
  kSDMMC_Erase_def kSDMMC_ApplicationCommand_def

text \<open>
  Bits 31 to 19, 16 and 3 of the R1 response are errors; bit 7 reports a failed switch, bit 8 that the
  card is ready for data, bits 12 to 9 the state of the card.
\<close>

definition SDMMC_R1_ALL_ERROR_FLAG :: u32 where
  "SDMMC_R1_ALL_ERROR_FLAG = 0xFFF90008"

definition "R1SwitchErrorMask = (0x80 :: u32)"
definition "R1ReadyForDataMask = (0x100 :: u32)"
definition "R1ApplicationCommandMask = (0x20 :: u32)"
definition "kSDMMC_R1StateProgram = (7 :: u32)"

definition SDMMC_R1_CURRENT_STATE :: "u32 \<Rightarrow> u32" where
  "SDMMC_R1_CURRENT_STATE x = drop_bit 9 (x AND 0x1E00)"

section \<open>Registers of the card\<close>

record mmc_cid =
  manufacturerID :: u8
  applicationID :: u16
  productName :: "u8 list"
  productVersion :: u8
  productSerialNumber :: u32
  manufacturerData :: u8

record mmc_csd =
  csdStructureVersion :: u8
  systemSpecificationVersion :: u8
  dataReadAccessTime1 :: u8
  dataReadAccessTime2 :: u8
  transferSpeed :: u8
  cardCommandClass :: u16
  readBlockLength :: u8
  csd_flags :: u16
  deviceSize :: u16
  readCurrentVddMin :: u8
  readCurrentVddMax :: u8
  writeCurrentVddMin :: u8
  writeCurrentVddMax :: u8
  deviceSizeMultiplier :: u8
  eraseGroupSize :: u8
  eraseGroupSizeMultiplier :: u8
  writeProtectGroupSize :: u8
  defaultEcc :: u8
  writeSpeedFactor :: u8
  maxWriteBlockLength :: u8
  fileFormat :: u8
  eccCode :: u8

record mmc_extended_csd =
  cacheCtrl :: u8
  partitionAttribute :: u8
  userWP :: u8
  bootPartitionWP :: u8
  bootWPStatus :: u8
  highDensityEraseGroupDefinition :: u8
  bootDataBusConditions :: u8
  bootConfigProtect :: u8
  partitionConfig :: u8
  eraseMemoryContent :: u8
  dataBusWidth :: u8
  highSpeedTiming :: u8
  powerClass :: u8
  commandSetRevision :: u8
  commandSet :: u8
  extendecCsdVersion :: u8
  ext_csdStructureVersion :: u8
  cardType :: u8
  ioDriverStrength :: u8
  partitionSwitchTimeout :: u8
  powerClass52MHz195V :: u8
  powerClass26MHz195V :: u8
  powerClass52MHz360V :: u8
  powerClass26MHz360V :: u8
  minimumReadPerformance4Bit26MHz :: u8
  minimumWritePerformance4Bit26MHz :: u8
  minimumReadPerformance8Bit26MHz4Bit52MHz :: u8
  minimumWritePerformance8Bit26MHz4Bit52MHz :: u8
  minimumReadPerformance8Bit52MHz :: u8
  minimumWritePerformance8Bit52MHz :: u8
  sectorCount :: u32
  sleepAwakeTimeout :: u8
  sleepCurrentVCCQ :: u8
  sleepCurrentVCC :: u8
  highCapacityWriteProtectGroupSize :: u8
  reliableWriteSectorCount :: u8
  highCapacityEraseTimeout :: u8
  highCapacityEraseUnitSize :: u8
  accessSize :: u8
  minReadPerformance8bitAt52MHZDDR :: u8
  minWritePerformance8bitAt52MHZDDR :: u8
  powerClass200MHZVCCQ130VVCC360V :: u8
  powerClass200MHZVCCQ195VVCC360V :: u8
  powerClass52MHZDDR195V :: u8
  powerClass52MHZDDR360V :: u8
  genericCMD6Timeout :: u32
  cacheSize :: u32
  powerClass200MHZDDR360V :: u8
  extPartitionSupport :: u8
  supportedCommandSet :: u8

section \<open>The card descriptor\<close>

datatype access_partition =
    kMMC_AccessPartitionUserAera | kMMC_AccessPartitionBoot1 | kMMC_AccessPartitionBoot2
  | kMMC_AccessRPMB | kMMC_AccessGeneralPurposePartition1 | kMMC_AccessGeneralPurposePartition2
  | kMMC_AccessGeneralPurposePartition3 | kMMC_AccessGeneralPurposePartition4

datatype voltage_window =
  kMMC_VoltageWindowNone | kMMC_VoltageWindow120 | kMMC_VoltageWindow170to195 | kMMC_VoltageWindows270to360

datatype high_speed_timing =
    kMMC_HighSpeedTimingNone | kMMC_HighSpeedTiming | kMMC_HighSpeed200Timing | kMMC_HighSpeed400Timing
  | kMMC_EnhanceHighSpeed400Timing

datatype data_bus_width =
    kMMC_DataBusWidth1bit | kMMC_DataBusWidth4bit | kMMC_DataBusWidth8bit
  | kMMC_DataBusWidth4bitDDR | kMMC_DataBusWidth8bitDDR | kMMC_DataBusWidth8bitDDRSTROBE

record mmc_card =
  isHostReady :: bool
  noInteralAlign :: bool
  busClock_Hz :: u32
  relativeAddress :: u32
  enablePreDefinedBlockCount :: bool
  flags :: u32
  ocr :: u32
  cid :: mmc_cid
  csd :: mmc_csd
  extendedCsd :: mmc_extended_csd
  blockSize :: u32
  userPartitionBlocks :: u32
  bootPartitionBlocks :: u32
  eraseGroupBlocks :: u32
  currentPartition :: access_partition
  hostVoltageWindowVCCQ :: voltage_window
  hostVoltageWindowVCC :: voltage_window
  busTiming :: high_speed_timing
  busWidth :: data_bus_width

definition "kMMC_SupportHighCapacityFlag = (0x100 :: u32)"
definition "kMMC_SupportAlternateBootFlag = (0x200 :: u32)"
definition "kMMC_SupportDDRBootFlag = (0x400 :: u32)"
definition "kMMC_SupportHighSpeedBootFlag = (0x800 :: u32)"
definition "kMMC_SupportEnhanceHS400StrobeFlag = (0x1000 :: u32)"
definition "FSL_SDMMC_DEFAULT_BLOCK_SIZE = (512 :: u32)"

definition high_capacity :: "mmc_card \<Rightarrow> bool" where
  "high_capacity c \<longleftrightarrow> flags c AND kMMC_SupportHighCapacityFlag \<noteq> 0"

text \<open>The driver's state: the card descriptor and the state of the host.\<close>

type_synonym 'h mmc = "mmc_card \<times> 'h"

end
