(* ===== verification/MmcCmd.thy ===== *)
theory MmcCmd
  imports MmcTypes
begin

unbundle bit_operations_syntax

text \<open>
  Commands of the eMMC card driver: \<^verbatim>\<open>fsl_sdmmc_common.c\<close> and the command layer of \<^verbatim>\<open>fsl_mmc.c\<close> under
  \<^verbatim>\<open>src/module-bsp/board/rt1051/bsp/eMMC\<close> (transfers with retry and retuning, card status, busy polling,
  operation condition, relative address, extended CSD switch). The state of the host is threaded
  explicitly; a function that changes the card descriptor returns it. A function that polls has an
  \<open>option\<close> result, \<open>None\<close> meaning that it never returns.
\<close>

section \<open>Common commands\<close>

definition resp0 :: "u32 list \<Rightarrow> u32" where
  "resp0 r = (case r of [] \<Rightarrow> 0 | x # _ \<Rightarrow> x)"

definition r1_failed :: "status \<Rightarrow> u32 list \<Rightarrow> bool" where
  "r1_failed e r \<longleftrightarrow> e \<noteq> kStatus_Success \<or> resp0 r AND SDMMC_R1_ALL_ERROR_FLAG \<noteq> 0"

definition SDMMC_SelectCard :: "'h sdmmchost \<Rightarrow> u32 \<Rightarrow> bool \<Rightarrow> 'h \<Rightarrow> status \<times> 'h" where
  "SDMMC_SelectCard H rca isSelected h =
     (let cmd = (if isSelected then command kSDMMC_SelectCard (push_bit 16 rca) kCARD_ResponseTypeR1 0
                 else command kSDMMC_SelectCard 0 kCARD_ResponseTypeNone 0);
          (e, r, _, h1) = TransferFunction H cmd None h
      in (if r1_failed e r then kStatus_SDMMC_TransferFailed else kStatus_Success, h1))"

definition SDMMC_SendApplicationCommand :: "'h sdmmchost \<Rightarrow> u32 \<Rightarrow> 'h \<Rightarrow> status \<times> 'h" where
  "SDMMC_SendApplicationCommand H rca h =
     (let (e, r, _, h1) =
            TransferFunction H (command kSDMMC_ApplicationCommand (push_bit 16 rca) kCARD_ResponseTypeR1 0) None h
      in (if r1_failed e r then kStatus_SDMMC_TransferFailed
          else if resp0 r AND R1ApplicationCommandMask = 0 then kStatus_SDMMC_CardNotSupport
          else kStatus_Success, h1))"

definition SDMMC_SetBlockCount :: "'h sdmmchost \<Rightarrow> u32 \<Rightarrow> 'h \<Rightarrow> status \<times> 'h" where
  "SDMMC_SetBlockCount H n h =
     (let (e, r, _, h1) = TransferFunction H (command kSDMMC_SetBlockCount n kCARD_ResponseTypeR1 0) None h
      in (if r1_failed e r then kStatus_SDMMC_TransferFailed else kStatus_Success, h1))"

definition SDMMC_GoIdle :: "'h sdmmchost \<Rightarrow> 'h \<Rightarrow> status \<times> 'h" where
  "SDMMC_GoIdle H h =
     (let (e, r, _, h1) = TransferFunction H (command kSDMMC_GoIdleState 0 kCARD_ResponseTypeNone 0) None h
      in (if e \<noteq> kStatus_Success then kStatus_SDMMC_TransferFailed else kStatus_Success, h1))"

definition SDMMC_SetBlockSize :: "'h sdmmchost \<Rightarrow> u32 \<Rightarrow> 'h \<Rightarrow> status \<times> 'h" where
  "SDMMC_SetBlockSize H n h =
     (let (e, r, _, h1) = TransferFunction H (command kSDMMC_SetBlockLength n kCARD_ResponseTypeR1 0) None h
      in (if r1_failed e r then kStatus_SDMMC_TransferFailed else kStatus_Success, h1))"

definition SDMMC_SetCardInactive :: "'h sdmmchost \<Rightarrow> 'h \<Rightarrow> status \<times> 'h" where
  "SDMMC_SetCardInactive H h =
     (let (e, r, _, h1) = TransferFunction H (command kSDMMC_GoInactiveState 0 kCARD_ResponseTypeNone 0) None h
      in (if e \<noteq> kStatus_Success then kStatus_SDMMC_TransferFailed else kStatus_Success, h1))"

definition MMC_SelectCard :: "'h sdmmchost \<Rightarrow> mmc_card \<Rightarrow> bool \<Rightarrow> 'h \<Rightarrow> status \<times> 'h" where
  "MMC_SelectCard H c isSelected h = SDMMC_SelectCard H (relativeAddress c) isSelected h"

definition MMC_SetBlockCount :: "'h sdmmchost \<Rightarrow> u32 \<Rightarrow> 'h \<Rightarrow> status \<times> 'h" where
  "MMC_SetBlockCount H n h = SDMMC_SetBlockCount H n h"

definition MMC_GoIdle :: "'h sdmmchost \<Rightarrow> 'h \<Rightarrow> status \<times> 'h" where
  "MMC_GoIdle H h = SDMMC_GoIdle H h"

definition MMC_SetBlockSize :: "'h sdmmchost \<Rightarrow> u32 \<Rightarrow> 'h \<Rightarrow> status \<times> 'h" where
  "MMC_SetBlockSize H n h = SDMMC_SetBlockSize H n h"

definition SDMMC_OSADelayUs :: "'h sdmmchost \<Rightarrow> u32 \<Rightarrow> 'h \<Rightarrow> u32 \<times> 'h" where
  "SDMMC_OSADelayUs H us h =
     (let ms = us div 1000 + (if us mod 1000 = 0 then 0 else 1) in (ms * 1000, OSA_TimeDelay H ms h))"

section \<open>Transfers\<close>

definition MMC_ExecuteTuning :: "'h sdmmchost \<Rightarrow> mmc_card \<Rightarrow> 'h \<Rightarrow> status \<times> 'h" where
  "MMC_ExecuteTuning H c h =
     (if busWidth c = kMMC_DataBusWidth4bit then ExecuteTuning H kMMC_SendTuningBlock 64 h
      else if busWidth c = kMMC_DataBusWidth8bit then ExecuteTuning H kMMC_SendTuningBlock 128 h
      else (kStatus_Success, h))"

definition MMC_StopTransmission :: "'h sdmmchost \<Rightarrow> 'h \<Rightarrow> status \<times> 'h" where
  "MMC_StopTransmission H h =
     (let cmd = (command kSDMMC_StopTransmission 0 kCARD_ResponseTypeR1b SDMMC_R1_ALL_ERROR_FLAG)
                  \<lparr>cmd_type := kCARD_CommandTypeAbort\<rparr>;
          (e, r, _, h1) = TransferFunction H cmd None h
      in (if e \<noteq> kStatus_Success then kStatus_SDMMC_TransferFailed else kStatus_Success, h1))"

text \<open>A repeated transfer fills the same buffer again.\<close>

definition refill :: "u8 list \<Rightarrow> sdmmchost_data option \<Rightarrow> sdmmchost_data option" where
  "refill buf = map_option (\<lambda>d. case data_payload d of RxData _ \<Rightarrow> d\<lparr>data_payload := RxData buf\<rparr> | TxData _ \<Rightarrow> d)"

function transfer_loop ::
    "'h sdmmchost \<Rightarrow> mmc_card \<Rightarrow> sdmmchost_cmd \<Rightarrow> nat \<Rightarrow> nat \<Rightarrow> sdmmchost_data option \<Rightarrow> 'h \<Rightarrow>
     status \<times> u32 list \<times> u8 list \<times> 'h" where
  "transfer_loop H c cmd retry retuningCount d h =
     (let (e, r, buf, h1) = TransferFunction H cmd d h;
          again = retry = 0 \<and> d \<noteq> None \<or> e = kStatus_SDMMC_ReTuningRequest;
          h2 = (if again then snd (MMC_StopTransmission H h1) else h1)
      in if e = kStatus_Success then (e, r, buf, h1)
         else if again \<and> busTiming c = kMMC_HighSpeed200Timing then
           (if retuningCount - 1 = 0 then (e, r, buf, h2)
            else let (t, h3) = MMC_ExecuteTuning H c h2
                 in if t \<noteq> kStatus_Success then (kStatus_SDMMC_TuningFail, r, buf, h3)
                    else transfer_loop H c cmd retry (retuningCount - 1) (refill buf d) h3)
         else if retry \<noteq> 0 then transfer_loop H c cmd (retry - 1) retuningCount (refill buf d) h2
         else (e, r, buf, h2))"
  by pat_completeness auto
termination
  by (relation "measure (\<lambda>(H, c, cmd, retry, retuningCount, d, h). retry + retuningCount)") auto

declare transfer_loop.simps [simp del]

definition MMC_Transfer ::
    "'h sdmmchost \<Rightarrow> mmc_card \<Rightarrow> sdmmchost_cmd \<Rightarrow> sdmmchost_data option \<Rightarrow> nat \<Rightarrow> 'h \<Rightarrow>
     status \<times> u32 list \<times> u8 list \<times> 'h" where
  "MMC_Transfer H c cmd d retry h = transfer_loop H c cmd retry 3 d h"

section \<open>Card status\<close>

fun send_status_loop :: "'h sdmmchost \<Rightarrow> mmc_card \<Rightarrow> nat \<Rightarrow> 'h \<Rightarrow> status \<times> u32 \<times> 'h" where
  "send_status_loop H c 0 h = (kStatus_Success, 0, h)"
| "send_status_loop H c (Suc retry) h =
     (let (e, r, _, h1) =
            MMC_Transfer H c (command kSDMMC_SendStatus (push_bit 16 (relativeAddress c)) kCARD_ResponseTypeR1 0)
              None 2 h
      in if retry = 0 \<and> e \<noteq> kStatus_Success then (kStatus_SDMMC_TransferFailed, 0, h1)
         else if e = kStatus_Success then (e, resp0 r, h1)
         else send_status_loop H c retry h1)"

definition MMC_SendStatus :: "'h sdmmchost \<Rightarrow> mmc_card \<Rightarrow> 'h \<Rightarrow> status \<times> u32 \<times> 'h" where
  "MMC_SendStatus H c h = send_status_loop H c 10 h"

text \<open>One round of the polling loop: the new status, whether the loop is left, and the host.\<close>

definition poll_once :: "'h sdmmchost \<Rightarrow> mmc_card \<Rightarrow> bool \<Rightarrow> status \<Rightarrow> 'h \<Rightarrow> status \<times> bool \<times> 'h" where
  "poll_once H c checkStatus err h =
     (let (cardBusy, h1) = IsCardBusy H h
      in if cardBusy then (err, False, h1)
         else if \<not> checkStatus then (kStatus_SDMMC_CardStatusIdle, True, h1)
         else let (e, st, h2) = MMC_SendStatus H c h1
              in if e \<noteq> kStatus_Success then (kStatus_SDMMC_TransferFailed, True, h2)
                 else if st AND (SDMMC_R1_ALL_ERROR_FLAG OR R1SwitchErrorMask) \<noteq> 0
                 then (kStatus_SDMMC_SwitchFailed, False, h2)
                 else if st AND R1ReadyForDataMask \<noteq> 0 \<and> SDMMC_R1_CURRENT_STATE st \<noteq> kSDMMC_R1StateProgram
                 then (kStatus_SDMMC_CardStatusIdle, True, h2)
                 else (kStatus_SDMMC_CardStatusBusy, False, h2))"

partial_function (option) poll_loop ::
    "'h sdmmchost \<Rightarrow> mmc_card \<Rightarrow> bool \<Rightarrow> status \<Rightarrow> u32 \<Rightarrow> 'h \<Rightarrow> (status \<times> 'h) option" where
  "poll_loop H c checkStatus err us h =
     (case poll_once H c checkStatus err h of (e, stop, h1) \<Rightarrow>
        if stop then Some (e, h1)
        else case (if us \<noteq> 0 then SDMMC_OSADelayUs H 125 h1 else (0, h1)) of (waited, h2) \<Rightarrow>
          if us - waited \<noteq> 0 then poll_loop H c checkStatus e (us - waited) h2 else Some (e, h2))"

definition MMC_PollingCardStatusBusy ::
    "'h sdmmchost \<Rightarrow> mmc_card \<Rightarrow> bool \<Rightarrow> u32 \<Rightarrow> 'h \<Rightarrow> (status \<times> 'h) option" where
  "MMC_PollingCardStatusBusy H c checkStatus timeoutMs h =
     poll_loop H c checkStatus kStatus_SDMMC_CardStatusBusy (timeoutMs * 1000) h"

definition "MMC_CARD_ACCESS_WAIT_IDLE_TIMEOUT = (10000 :: u32)"

section \<open>Identification\<close>

definition "MMC_OCR_BUSY_MASK = (0x80000000 :: u32)"
definition "MMC_OCR_ACCESS_MODE_MASK = (0x60000000 :: u32)"
definition "MMC_OCR_V170TO195_MASK = (0x00000080 :: u32)"
definition "MMC_OCR_V270TO360_MASK = (0x00FF8000 :: u32)"
definition "kMMC_AccessModeSector = (2 :: u32)"
definition "kMMC_AccessModeByte = (0 :: u32)"

definition op_cond_once :: "'h sdmmchost \<Rightarrow> u32 \<Rightarrow> mmc_card \<Rightarrow> 'h \<Rightarrow> status \<times> mmc_card \<times> 'h" where
  "op_cond_once H arg c h =
     (let (e, r, _, h1) = TransferFunction H (command kMMC_SendOperationCondition arg kCARD_ResponseTypeR3 0) None h;
          c1 = c\<lparr>ocr := resp0 r\<rparr>;
          h2 = OSA_TimeDelay H 10 h1
      in if e \<noteq> kStatus_Success then (e, c, h2)
         else if arg = 0 \<and> resp0 r \<noteq> 0 then (kStatus_Success, c1, h2)
         else if resp0 r AND MMC_OCR_BUSY_MASK = 0 then (kStatus_Timeout, c1, h2)
         else (kStatus_Success,
               if drop_bit 29 (ocr c1 AND MMC_OCR_ACCESS_MODE_MASK) = kMMC_AccessModeSector
               then c1\<lparr>flags := flags c1 OR kMMC_SupportHighCapacityFlag\<rparr> else c1, h2))"

fun op_cond_loop :: "'h sdmmchost \<Rightarrow> u32 \<Rightarrow> nat \<Rightarrow> mmc_card \<Rightarrow> 'h \<Rightarrow> status \<times> mmc_card \<times> 'h" where
  "op_cond_loop H arg 0 c h = op_cond_once H arg c h"
| "op_cond_loop H arg (Suc i) c h =
     (let (e, c1, h1) = op_cond_once H arg c h
      in if e \<noteq> kStatus_Success then op_cond_loop H arg i c1 h1 else (e, c1, h1))"

definition "MMC_CMD1_RETRY_TIMES = (10000 :: nat)"

definition MMC_SendOperationCondition :: "'h sdmmchost \<Rightarrow> u32 \<Rightarrow> mmc_card \<Rightarrow> 'h \<Rightarrow> status \<times> mmc_card \<times> 'h" where
  "MMC_SendOperationCondition H arg c h = op_cond_loop H arg MMC_CMD1_RETRY_TIMES c h"

definition "MMC_DEFAULT_RELATIVE_ADDRESS = (2 :: u32)"

definition MMC_SetRelativeAddress :: "'h sdmmchost \<Rightarrow> mmc_card \<Rightarrow> 'h \<Rightarrow> status \<times> mmc_card \<times> 'h" where
  "MMC_SetRelativeAddress H c h =
     (let (e, r, _, h1) =
            TransferFunction H
              (command kMMC_SetRelativeAddress (push_bit 16 MMC_DEFAULT_RELATIVE_ADDRESS) kCARD_ResponseTypeR1 0) None h
      in if e = kStatus_Success \<or> resp0 r AND SDMMC_R1_ALL_ERROR_FLAG = 0
         then (kStatus_Success, c\<lparr>relativeAddress := MMC_DEFAULT_RELATIVE_ADDRESS\<rparr>, h1)
         else (kStatus_SDMMC_TransferFailed, c, h1))"

definition MMC_ValidateOperationVoltage :: "mmc_card \<Rightarrow> u32 \<Rightarrow> status \<times> u32" where
  "MMC_ValidateOperationVoltage c opcode =
     (if hostVoltageWindowVCC c = kMMC_VoltageWindow170to195 \<and> ocr c AND MMC_OCR_V170TO195_MASK \<noteq> 0
      then (kStatus_Success, opcode OR MMC_OCR_V170TO195_MASK)
      else if hostVoltageWindowVCC c = kMMC_VoltageWindows270to360 \<and> ocr c AND MMC_OCR_V270TO360_MASK \<noteq> 0
      then (kStatus_Success, opcode OR MMC_OCR_V270TO360_MASK)
      else (kStatus_Fail, opcode))"

section \<open>Switching a byte of the extended CSD\<close>

record mmc_extended_csd_config =
  commandSet :: u32
  ByteValue :: u8
  ByteIndex :: u8
  accessMode :: u32

definition "kMMC_ExtendedCsdAccessModeSetBits = (1 :: u32)"
definition "kMMC_ExtendedCsdAccessModeWriteBits = (3 :: u32)"
definition "kMMC_CommandSetStandard = (0 :: u32)"

definition switch_parameter :: "mmc_extended_csd_config \<Rightarrow> u32" where
  "switch_parameter cfg =
     push_bit 0 (mmc_extended_csd_config.commandSet cfg) OR push_bit 8 (ucast (ByteValue cfg)) OR
     push_bit 16 (ucast (ByteIndex cfg)) OR push_bit 24 (accessMode cfg)"

definition MMC_SetExtendedCsdConfig ::
    "'h sdmmchost \<Rightarrow> mmc_card \<Rightarrow> mmc_extended_csd_config \<Rightarrow> u32 \<Rightarrow> 'h \<Rightarrow> (status \<times> 'h) option" where
  "MMC_SetExtendedCsdConfig H c cfg timeout h =
     (let timeoutMS = (if timeout = 0 then genericCMD6Timeout (extendedCsd c) else timeout);
          (e, r, _, h1) =
            MMC_Transfer H c
              (command kMMC_Switch (switch_parameter cfg) kCARD_ResponseTypeR1b
                (SDMMC_R1_ALL_ERROR_FLAG OR R1SwitchErrorMask)) None 2 h
      in if e \<noteq> kStatus_Success then Some (kStatus_SDMMC_TransferFailed, h1)
         else do {
           (p, h2) \<leftarrow> MMC_PollingCardStatusBusy H c True
                        (if timeoutMS = 0 then MMC_CARD_ACCESS_WAIT_IDLE_TIMEOUT else timeoutMS) h1;
           Some (if p \<noteq> kStatus_SDMMC_CardStatusIdle then kStatus_SDMMC_PollingCardIdleFailed else kStatus_Success,
                 h2)
         })"

end
