(* ===== verification/MmcRegs.thy ===== *)
theory MmcRegs
  imports MmcCmd
begin

unbundle bit_operations_syntax

text \<open>
  The card's registers as \<^verbatim>\<open>fsl_mmc.c\<close> reads and decodes them: CID, CSD and extended CSD. Raw registers are
  four 32-bit words or 512 bytes. The driver's internal buffer is only a scratch area that every function
  fills before it reads it, so it is a local of these functions.
\<close>

section \<open>CID\<close>

definition field8 :: "u32 \<Rightarrow> nat \<Rightarrow> u32 \<Rightarrow> u8" where
  "field8 m n w = ucast (drop_bit n (w AND m))"

definition field16 :: "u32 \<Rightarrow> nat \<Rightarrow> u32 \<Rightarrow> u16" where
  "field16 m n w = ucast (drop_bit n (w AND m))"

definition MMC_DecodeCid :: "u32 list \<Rightarrow> mmc_card \<Rightarrow> mmc_card" where
  "MMC_DecodeCid raw c =
     c\<lparr>cid := \<lparr>
         manufacturerID = field8 0xFF000000 24 (raw ! 3),
         applicationID = field16 0x00FFFF00 8 (raw ! 3),
         productName = [field8 0x000000FF 0 (raw ! 3), field8 0xFF000000 24 (raw ! 2), field8 0x00FF0000 16 (raw ! 2),
                        field8 0x0000FF00 8 (raw ! 2), field8 0x000000FF 0 (raw ! 2), field8 0xFF000000 24 (raw ! 1)],
         productVersion = field8 0x00FF0000 16 (raw ! 1),
         productSerialNumber = push_bit 16 (raw ! 1 AND 0x0000FFFF) OR drop_bit 16 (raw ! 0 AND 0xFFFF0000),
         manufacturerData = field8 0x0000FF00 8 (raw ! 0)\<rparr>\<rparr>"

definition MMC_AllSendCid :: "'h sdmmchost \<Rightarrow> mmc_card \<Rightarrow> 'h \<Rightarrow> status \<times> mmc_card \<times> 'h" where
  "MMC_AllSendCid H c h =
     (let (e, r, _, h1) = TransferFunction H (command kSDMMC_AllSendCid 0 kCARD_ResponseTypeR2 0) None h
      in if e = kStatus_Success then (kStatus_Success, MMC_DecodeCid r c, h1)
         else (kStatus_SDMMC_TransferFailed, c, h1))"

section \<open>CSD\<close>

text \<open>The flags collected from single bits of the raw register, in the order of the source.\<close>

definition flag_if :: "u32 \<Rightarrow> u32 \<Rightarrow> u16 \<Rightarrow> u16 \<Rightarrow> u16" where
  "flag_if w m b fl = (if w AND m \<noteq> 0 then fl OR b else fl)"

definition csd_flags_of :: "u32 list \<Rightarrow> u16 \<Rightarrow> u16" where
  "csd_flags_of raw fl =
     flag_if (raw ! 0) 0x00001000 0x400 (flag_if (raw ! 0) 0x00002000 0x200 (flag_if (raw ! 0) 0x00004000 0x100
     (flag_if (raw ! 0) 0x00008000 0x80 (flag_if (raw ! 0) 0x00010000 0x40 (flag_if (raw ! 0) 0x00200000 0x20
     (flag_if (raw ! 0) 0x80000000 0x10 (flag_if (raw ! 2) 0x1000 0x8 (flag_if (raw ! 2) 0x2000 0x4
     (flag_if (raw ! 2) 0x4000 0x2 (flag_if (raw ! 2) 0x8000 0x1 fl))))))))))"

definition csd_of :: "u32 list \<Rightarrow> u16 \<Rightarrow> mmc_csd" where
  "csd_of raw fl = \<lparr>
     csdStructureVersion = field8 0xC0000000 30 (raw ! 3),
     systemSpecificationVersion = field8 0x3C000000 26 (raw ! 3),
     dataReadAccessTime1 = field8 0xFF0000 16 (raw ! 3),
     dataReadAccessTime2 = field8 0xFF00 8 (raw ! 3),
     transferSpeed = field8 0xFF 0 (raw ! 3),
     cardCommandClass = field16 0xFFF00000 20 (raw ! 2),
     readBlockLength = field8 0xF0000 16 (raw ! 2),
     csd_flags = csd_flags_of raw fl,
     deviceSize = ucast (push_bit 2 (raw ! 2 AND 0x3FF) + drop_bit 30 (raw ! 1 AND 0xC0000000)),
     readCurrentVddMin = field8 0x38000000 27 (raw ! 1),
     readCurrentVddMax = field8 0x07000000 24 (raw ! 1),
     writeCurrentVddMin = field8 0x00E00000 21 (raw ! 1),
     writeCurrentVddMax = field8 0x001C0000 18 (raw ! 1),
     deviceSizeMultiplier = field8 0x00038000 15 (raw ! 1),
     eraseGroupSize = field8 0x00007C00 10 (raw ! 1),
     eraseGroupSizeMultiplier = field8 0x000003E0 5 (raw ! 1),
     writeProtectGroupSize = field8 0x0000001F 0 (raw ! 1),
     defaultEcc = field8 0x60000000 29 (raw ! 0),
     writeSpeedFactor = field8 0x1C000000 26 (raw ! 0),
     maxWriteBlockLength = field8 0x03C00000 22 (raw ! 0),
     fileFormat = field8 0x00000C00 10 (raw ! 0),
     eccCode = field8 0x00000300 8 (raw ! 0)\<rparr>"

definition csd_user_blocks :: "mmc_csd \<Rightarrow> u32" where
  "csd_user_blocks d =
     (let multiplier = push_bit (unat (deviceSizeMultiplier d) + 2 - 1) 2
      in (ucast (deviceSize d) + 1) * multiplier div FSL_SDMMC_DEFAULT_BLOCK_SIZE)"

definition MMC_DecodeCsd :: "u32 list \<Rightarrow> mmc_card \<Rightarrow> mmc_card" where
  "MMC_DecodeCsd raw c =
     (let d = csd_of raw (csd_flags (csd c));
          c1 = c\<lparr>csd := d\<rparr>;
          c2 = (if deviceSize d \<noteq> 0xFFF then c1\<lparr>userPartitionBlocks := csd_user_blocks d\<rparr> else c1)
      in c2\<lparr>blockSize := FSL_SDMMC_DEFAULT_BLOCK_SIZE\<rparr>)"

definition MMC_SendCsd :: "'h sdmmchost \<Rightarrow> mmc_card \<Rightarrow> 'h \<Rightarrow> status \<times> mmc_card \<times> 'h" where
  "MMC_SendCsd H c h =
     (let (e, r, _, h1) =
            TransferFunction H (command kSDMMC_SendCsd (push_bit 16 (relativeAddress c)) kCARD_ResponseTypeR2 0) None h
      in if e = kStatus_Success then (kStatus_Success, MMC_DecodeCsd r c, h1)
         else (kStatus_SDMMC_TransferFailed, c, h1))"

definition g_transerSpeedFrequencyUnit :: "u32 list" where
  "g_transerSpeedFrequencyUnit = [100000, 1000000, 10000000, 100000000]"

definition g_transerSpeedMultiplierFactor :: "u32 list" where
  "g_transerSpeedMultiplierFactor = [0, 10, 12, 13, 15, 20, 26, 30, 35, 40, 45, 52, 55, 60, 70, 80]"

text \<open>The frequency unit is a field of three bits that indexes a table of four entries.\<close>

definition MMC_SetMaxFrequency :: "'h sdmmchost \<Rightarrow> mmc_card \<Rightarrow> 'h \<Rightarrow> (mmc_card \<times> 'h) outcome" where
  "MMC_SetMaxFrequency H c h =
     (let u = unat (transferSpeed (csd c) AND 0x07); m = unat (drop_bit 3 (transferSpeed (csd c) AND 0x78))
      in if u \<ge> length g_transerSpeedFrequencyUnit then Inl OutOfBounds
         else let (hz, h1) =
                SetCardClock H ((g_transerSpeedFrequencyUnit ! u * g_transerSpeedMultiplierFactor ! m) div 10) h
              in Inr (c\<lparr>busClock_Hz := hz\<rparr>, h1))"

definition MMC_CheckReadOnly :: "mmc_card \<Rightarrow> bool" where
  "MMC_CheckReadOnly c \<longleftrightarrow> csd_flags (csd c) AND 0x200 \<noteq> 0 \<or> csd_flags (csd c) AND 0x400 \<noteq> 0"

section \<open>Extended CSD\<close>

definition le32 :: "u8 list \<Rightarrow> nat \<Rightarrow> u32" where
  "le32 b i = push_bit 24 (ucast (b ! (i + 3))) + push_bit 16 (ucast (b ! (i + 2))) +
              push_bit 8 (ucast (b ! (i + 1))) + ucast (b ! i)"

definition ext_csd_of :: "u8 list \<Rightarrow> mmc_extended_csd \<Rightarrow> mmc_extended_csd" where
  "ext_csd_of b x =
     x\<lparr>bootPartitionWP := b ! 173,
        bootWPStatus := b ! 174,
        highDensityEraseGroupDefinition := b ! 175,
        bootDataBusConditions := b ! 177,
        bootConfigProtect := b ! 178,
        partitionConfig := b ! 179,
        eraseMemoryContent := b ! 181,
        dataBusWidth := b ! 183,
        highSpeedTiming := b ! 185,
        powerClass := b ! 187,
        commandSetRevision := b ! 189,
        mmc_extended_csd.commandSet := b ! 191,
        extendecCsdVersion := b ! 192,
        ext_csdStructureVersion := b ! 194,
        partitionAttribute := b ! 156,
        extPartitionSupport := b ! 494,
        cardType := b ! 196,
        ioDriverStrength := b ! 197,
        partitionSwitchTimeout := b ! 199,
        powerClass52MHz195V := b ! 200,
        powerClass26MHz195V := b ! 201,
        powerClass52MHz360V := b ! 202,
        powerClass26MHz360V := b ! 203,
        powerClass200MHZVCCQ130VVCC360V := b ! 236,
        powerClass200MHZVCCQ195VVCC360V := b ! 237,
        powerClass52MHZDDR195V := b ! 238,
        powerClass52MHZDDR360V := b ! 239,
        powerClass200MHZDDR360V := b ! 253,
        minimumReadPerformance4Bit26MHz := b ! 205,
        minimumWritePerformance4Bit26MHz := b ! 206,
        minimumReadPerformance8Bit26MHz4Bit52MHz := b ! 207,
        minimumWritePerformance8Bit26MHz4Bit52MHz := b ! 208,
        minimumReadPerformance8Bit52MHz := b ! 209,
        minimumWritePerformance8Bit52MHz := b ! 210,
        minReadPerformance8bitAt52MHZDDR := b ! 234,
        minWritePerformance8bitAt52MHZDDR := b ! 235,
        sleepAwakeTimeout := b ! 217,
        sleepCurrentVCCQ := b ! 219,
        sleepCurrentVCC := b ! 220,
        highCapacityWriteProtectGroupSize := b ! 221,
        reliableWriteSectorCount := b ! 222,
        highCapacityEraseTimeout := b ! 223,
        highCapacityEraseUnitSize := b ! 224,
        accessSize := b ! 225,
        supportedCommandSet := b ! 504,
        sectorCount := le32 b 212,
        cacheSize := push_bit 24 (ucast (b ! 252)) OR push_bit 16 (ucast (b ! 251)) OR
                     push_bit 8 (ucast (b ! 250)) OR ucast (b ! 249),
        genericCMD6Timeout := ucast (b ! 248) * 10\<rparr>"

definition ext_csd_flags :: "u8 list \<Rightarrow> u32 \<Rightarrow> u32" where
  "ext_csd_flags b fl =
     (let fl1 = (if b ! 184 = 1 then fl OR kMMC_SupportEnhanceHS400StrobeFlag else fl)
      in if b ! 228 AND 1 \<noteq> 0 then fl1 OR kMMC_SupportAlternateBootFlag
         else if b ! 228 AND 2 \<noteq> 0 then fl1 OR kMMC_SupportDDRBootFlag
         else if b ! 228 AND 4 \<noteq> 0 then fl1 OR kMMC_SupportHighSpeedBootFlag
         else fl1)"

definition MMC_DecodeExtendedCsd :: "u8 list \<Rightarrow> mmc_card \<Rightarrow> mmc_card" where
  "MMC_DecodeExtendedCsd b c =
     (let x = ext_csd_of b (extendedCsd c);
          c1 = c\<lparr>extendedCsd := x, flags := flags c OR ucast (cardType x)\<rparr>;
          c2 = (if high_capacity c1 then c1\<lparr>userPartitionBlocks := sectorCount x\<rparr> else c1)
      in c2\<lparr>bootPartitionBlocks := (128 * 1024 * ucast (b ! 226)) div FSL_SDMMC_DEFAULT_BLOCK_SIZE,
            flags := ext_csd_flags b (flags c2)\<rparr>)"

definition legacy_card :: "mmc_card \<Rightarrow> bool" where
  "legacy_card c \<longleftrightarrow> systemSpecificationVersion (csd c) = 3 \<and> csdStructureVersion (csd c) = 2"

text \<open>
  With a target address the function stores one byte: the low byte of the \<open>byteIndex\<close>-th 32-bit word of
  the buffer, that is the byte at \<open>4 * byteIndex\<close>; an index above 127 is outside the register.
\<close>

definition MMC_SendExtendedCsd ::
    "'h sdmmchost \<Rightarrow> nat option \<Rightarrow> mmc_card \<Rightarrow> 'h \<Rightarrow> (status \<times> u8 option \<times> mmc_card \<times> 'h) outcome" where
  "MMC_SendExtendedCsd H byteIndex c h =
     (if legacy_card c then Inr (kStatus_Success, None, c, h)
      else let d = \<lparr>data_blockSize = 512, data_blockCount = 1, enableAutoCommand12 = False,
                   data_payload = RxData (replicate 512 0)\<rparr>;
               (e, r, buf, h1) =
                 TransferFunction H (command kMMC_SendExtendedCsd 0 kCARD_ResponseTypeR1 0) (Some d) h
           in if r1_failed e r then Inr (kStatus_SDMMC_TransferFailed, None, c, h1)
              else case byteIndex of
                None \<Rightarrow> Inr (kStatus_Success, None, MMC_DecodeExtendedCsd buf c, h1)
              | Some i \<Rightarrow> if 4 * i < length buf then Inr (kStatus_Success, Some (buf ! (4 * i)), c, h1)
                          else Inl OutOfBounds)"

section \<open>Erase unit\<close>

definition switch_byte :: "u32 \<Rightarrow> u8 \<Rightarrow> u8 \<Rightarrow> mmc_extended_csd_config" where
  "switch_byte mode i v =
     \<lparr>commandSet = kMMC_CommandSetStandard, ByteValue = v, ByteIndex = i, accessMode = mode\<rparr>"

definition MMC_SetMaxEraseUnitSize :: "'h sdmmchost \<Rightarrow> mmc_card \<Rightarrow> 'h \<Rightarrow> (status \<times> mmc_card \<times> 'h) option" where
  "MMC_SetMaxEraseUnitSize H c h =
     (if legacy_card c then Some (kStatus_Success, c, h)
      else if \<not> high_capacity c \<or> highCapacityEraseUnitSize (extendedCsd c) = 0 \<or>
              highCapacityEraseTimeout (extendedCsd c) = 0
      then Some (kStatus_Success,
             c\<lparr>eraseGroupBlocks :=
                 (ucast (eraseGroupSize (csd c)) + 1) * (ucast (eraseGroupSizeMultiplier (csd c)) + 1)\<rparr>, h)
      else let c1 = c\<lparr>eraseGroupBlocks := ucast (highCapacityEraseUnitSize (extendedCsd c)) * 1024\<rparr>
           in do {
             (e, h1) \<leftarrow> MMC_SetExtendedCsdConfig H c1 (switch_byte kMMC_ExtendedCsdAccessModeSetBits 175 1) 0 h;
             Some (if e \<noteq> kStatus_Success then kStatus_SDMMC_ConfigureExtendedCsdFailed else kStatus_Success, c1, h1)
           })"

end
