(* ===== verification/MmcIo.thy ===== *)
theory MmcIo
  imports MmcRegs
begin

unbundle bit_operations_syntax

text \<open>
  Block access of the eMMC card driver, \<^verbatim>\<open>src/module-bsp/board/rt1051/bsp/eMMC/fsl_mmc.c\<close>: range checks,
  partition selection, reading and writing of blocks, erase groups, cache, sleep and write protection. A
  buffer is its contents and its address, which decides whether the driver copies through its internal
  buffer. The card lock is held from the first to the last step of each operation, so that an operation
  is one function here. Division follows the processor: a zero divisor gives a zero quotient.
\<close>

section \<open>Ranges\<close>

definition partition_blocks :: "mmc_card \<Rightarrow> u32 option" where
  "partition_blocks c =
     (case currentPartition c of
        kMMC_AccessPartitionUserAera \<Rightarrow> Some (userPartitionBlocks c)
      | kMMC_AccessPartitionBoot1 \<Rightarrow> Some (bootPartitionBlocks c)
      | kMMC_AccessPartitionBoot2 \<Rightarrow> Some (bootPartitionBlocks c)
      | _ \<Rightarrow> None)"

text \<open>The assertion that the count is not zero is the \<open>None\<close>: the function does not return.\<close>

definition MMC_CheckBlockRange :: "mmc_card \<Rightarrow> u32 \<Rightarrow> u32 \<Rightarrow> status option" where
  "MMC_CheckBlockRange c startBlock blockCount =
     (if blockCount = 0 then None
      else Some (case partition_blocks c of
                   None \<Rightarrow> kStatus_InvalidArgument
                 | Some n \<Rightarrow> if startBlock + blockCount > n then kStatus_InvalidArgument else kStatus_Success))"

definition MMC_CheckEraseGroupRange :: "mmc_card \<Rightarrow> u32 \<Rightarrow> u32 \<Rightarrow> status" where
  "MMC_CheckEraseGroupRange c startGroup endGroup =
     (case partition_blocks c of
        None \<Rightarrow> kStatus_InvalidArgument
      | Some n \<Rightarrow>
          let boundary = (if n mod eraseGroupBlocks c = 0 then n div eraseGroupBlocks c
                          else n div eraseGroupBlocks c + 1)
          in if startGroup > boundary \<or> endGroup > boundary then kStatus_InvalidArgument else kStatus_Success)"

section \<open>One command\<close>

definition unsupported_size :: "'h sdmmchost \<Rightarrow> mmc_card \<Rightarrow> u32 \<Rightarrow> bool" where
  "unsupported_size H c bs \<longleftrightarrow>
     high_capacity c \<and> bs \<noteq> 512 \<or> bs > blockSize c \<or> bs > maxBlockSize H \<or> bs mod 4 \<noteq> 0"

text \<open>
  Reading and writing share everything but the direction: the command indices for one and for several
  blocks and the payload are the parameters here.
\<close>

definition data_command ::
    "'h sdmmchost \<Rightarrow> mmc_card \<Rightarrow> u32 \<Rightarrow> u32 \<Rightarrow> payload \<Rightarrow> u8 list \<Rightarrow> u32 \<Rightarrow> u32 \<Rightarrow> u32 \<Rightarrow> 'h \<Rightarrow>
     (status \<times> u8 list \<times> 'h) option" where
  "data_command H c single multiple p buf startBlock bs blockCount h =
     (if unsupported_size H c bs then Some (kStatus_SDMMC_CardNotSupport, buf, h)
      else do {
        (e, h1) \<leftarrow> MMC_PollingCardStatusBusy H c True MMC_CARD_ACCESS_WAIT_IDLE_TIMEOUT h;
        if e \<noteq> kStatus_SDMMC_CardStatusIdle then Some (kStatus_SDMMC_PollingCardIdleFailed, buf, h1)
        else let predefined = blockCount \<noteq> 1 \<and> enablePreDefinedBlockCount c;
                 (e1, h2) = (if predefined then MMC_SetBlockCount H blockCount h1 else (kStatus_Success, h1))
             in if e1 \<noteq> kStatus_Success then Some (kStatus_SDMMC_SetBlockCountFailed, buf, h2)
                else let d = \<lparr>data_blockSize = bs, data_blockCount = blockCount, enableAutoCommand12 = \<not> predefined,
                             data_payload = p\<rparr>;
                         cmd = command (if blockCount = 1 then single else multiple)
                                 (if high_capacity c then startBlock else startBlock * bs)
                                 kCARD_ResponseTypeR1 SDMMC_R1_ALL_ERROR_FLAG;
                         (e2, r, buf1, h3) = MMC_Transfer H c cmd (Some d) 3 h2
                     in if e2 \<noteq> kStatus_Success then Some (e2, buf1, h3)
                        else if blockCount > 1 \<and> \<not> enableAutoCommand12 d \<and> \<not> enablePreDefinedBlockCount c
                        then let (e3, h4) = MMC_StopTransmission H h3
                             in Some (if e3 \<noteq> kStatus_Success then kStatus_SDMMC_StopTransmissionFailed
                                      else kStatus_Success, buf1, h4)
                        else Some (kStatus_Success, buf1, h3)
      })"

definition MMC_Read ::
    "'h sdmmchost \<Rightarrow> mmc_card \<Rightarrow> u8 list \<Rightarrow> u32 \<Rightarrow> u32 \<Rightarrow> u32 \<Rightarrow> 'h \<Rightarrow> (status \<times> u8 list \<times> 'h) option" where
  "MMC_Read H c buf startBlock bs blockCount h =
     data_command H c kSDMMC_ReadSingleBlock kSDMMC_ReadMultipleBlock (RxData buf) buf startBlock bs blockCount h"

definition MMC_Write ::
    "'h sdmmchost \<Rightarrow> mmc_card \<Rightarrow> u8 list \<Rightarrow> u32 \<Rightarrow> u32 \<Rightarrow> u32 \<Rightarrow> 'h \<Rightarrow> (status \<times> 'h) option" where
  "MMC_Write H c buf startBlock bs blockCount h =
     do {
       (e, _, h1) \<leftarrow> data_command H c kSDMMC_WriteSingleBlock kSDMMC_WriteMultipleBlock (TxData buf) buf
                       startBlock bs blockCount h;
       Some (e, h1)
     }"

section \<open>Reading and writing blocks\<close>

definition slice :: "nat \<Rightarrow> nat \<Rightarrow> 'a list \<Rightarrow> 'a list" where
  "slice i n xs = take n (drop i xs)"

definition store_at :: "nat \<Rightarrow> 'a list \<Rightarrow> 'a list \<Rightarrow> 'a list" where
  "store_at i ys xs = take i xs @ ys @ drop (i + length ys) xs"

text \<open>Whether the next piece goes through the internal buffer, and how many blocks it has.\<close>

definition bounce :: "mmc_card \<Rightarrow> bool \<Rightarrow> u32 \<Rightarrow> bool" where
  "bounce c aligned nextBuffer \<longleftrightarrow> \<not> noInteralAlign c \<and> (\<not> aligned \<or> nextBuffer AND 3 \<noteq> 0)"

definition one_time :: "'h sdmmchost \<Rightarrow> bool \<Rightarrow> u32 \<Rightarrow> u32" where
  "one_time H bounced blockLeft =
     (if bounced then 1 else if blockLeft > maxBlockCount H then maxBlockCount H else blockLeft)"

definition byte_pos :: "u32 \<Rightarrow> nat" where
  "byte_pos n = 512 * unat n"

partial_function (option) read_blocks_loop ::
    "'h sdmmchost \<Rightarrow> mmc_card \<Rightarrow> u32 \<Rightarrow> u32 \<Rightarrow> bool \<Rightarrow> u32 \<Rightarrow> u32 \<Rightarrow> u8 list \<Rightarrow> 'h \<Rightarrow> (status \<times> u8 list \<times> 'h) option" where
  "read_blocks_loop H c baddr startBlock aligned blockDone blockLeft buf h =
     (if blockLeft = 0 then Some (kStatus_Success, buf, h)
      else let b = bounce c aligned (baddr + blockDone * FSL_SDMMC_DEFAULT_BLOCK_SIZE);
               n = one_time H b blockLeft;
               aligned1 = (if b then False else aligned);
               target = (if aligned1 then slice (byte_pos blockDone) (byte_pos n) buf else replicate 512 0)
           in case MMC_Read H c target (startBlock + blockDone) FSL_SDMMC_DEFAULT_BLOCK_SIZE n h of
                None \<Rightarrow> None
              | Some (e, got, h1) \<Rightarrow>
                  if e \<noteq> kStatus_Success
                  then Some (kStatus_SDMMC_TransferFailed,
                             if aligned1 then store_at (byte_pos blockDone) got buf else buf, h1)
                  else read_blocks_loop H c baddr startBlock aligned1 (blockDone + n) (blockLeft - n)
                         (store_at (byte_pos blockDone) got buf) h1)"

definition MMC_ReadBlocks ::
    "'h sdmmchost \<Rightarrow> mmc_card \<Rightarrow> u32 \<Rightarrow> u8 list \<Rightarrow> u32 \<Rightarrow> u32 \<Rightarrow> 'h \<Rightarrow> (status \<times> u8 list \<times> 'h) option" where
  "MMC_ReadBlocks H c baddr buf startBlock blockCount h =
     do {
       e \<leftarrow> MMC_CheckBlockRange c startBlock blockCount;
       if e \<noteq> kStatus_Success then Some (kStatus_InvalidArgument, buf, h)
       else read_blocks_loop H c baddr startBlock True 0 blockCount buf h
     }"

partial_function (option) write_blocks_loop ::
    "'h sdmmchost \<Rightarrow> mmc_card \<Rightarrow> u32 \<Rightarrow> u8 list \<Rightarrow> u32 \<Rightarrow> bool \<Rightarrow> u32 \<Rightarrow> u32 \<Rightarrow> 'h \<Rightarrow> (status \<times> 'h) option" where
  "write_blocks_loop H c baddr buf startBlock aligned blockDone blockLeft h =
     (if blockLeft = 0 then Some (kStatus_Success, h)
      else let b = bounce c aligned (baddr + blockDone * FSL_SDMMC_DEFAULT_BLOCK_SIZE);
               n = one_time H b blockLeft
           in case MMC_Write H c (slice (byte_pos blockDone) (byte_pos n) buf) (startBlock + blockDone)
                     FSL_SDMMC_DEFAULT_BLOCK_SIZE n h of
                None \<Rightarrow> None
              | Some (e, h1) \<Rightarrow>
                  if e \<noteq> kStatus_Success then Some (kStatus_SDMMC_TransferFailed, h1)
                  else write_blocks_loop H c baddr buf startBlock (if b then False else aligned)
                         (blockDone + n) (blockLeft - n) h1)"

definition MMC_WriteBlocks ::
    "'h sdmmchost \<Rightarrow> mmc_card \<Rightarrow> u32 \<Rightarrow> u8 list \<Rightarrow> u32 \<Rightarrow> u32 \<Rightarrow> 'h \<Rightarrow> (status \<times> 'h) option" where
  "MMC_WriteBlocks H c baddr buf startBlock blockCount h =
     do {
       e \<leftarrow> MMC_CheckBlockRange c startBlock blockCount;
       if e \<noteq> kStatus_Success then Some (kStatus_InvalidArgument, h)
       else write_blocks_loop H c baddr buf startBlock True 0 blockCount h
     }"

section \<open>Partition, cache and write protection\<close>

definition access_number :: "access_partition \<Rightarrow> u8" where
  "access_number p =
     (case p of kMMC_AccessPartitionUserAera \<Rightarrow> 0 | kMMC_AccessPartitionBoot1 \<Rightarrow> 1 | kMMC_AccessPartitionBoot2 \<Rightarrow> 2
      | kMMC_AccessRPMB \<Rightarrow> 3 | kMMC_AccessGeneralPurposePartition1 \<Rightarrow> 4 | kMMC_AccessGeneralPurposePartition2 \<Rightarrow> 5
      | kMMC_AccessGeneralPurposePartition3 \<Rightarrow> 6 | kMMC_AccessGeneralPurposePartition4 \<Rightarrow> 7)"

definition write_byte :: "u8 \<Rightarrow> u8 \<Rightarrow> mmc_extended_csd_config" where
  "write_byte i v = switch_byte kMMC_ExtendedCsdAccessModeWriteBits i v"

definition MMC_SelectPartition ::
    "'h sdmmchost \<Rightarrow> access_partition \<Rightarrow> mmc_card \<Rightarrow> 'h \<Rightarrow> (status \<times> mmc_card \<times> 'h) option" where
  "MMC_SelectPartition H p c h =
     (let bootConfig = (partitionConfig (extendedCsd c) AND NOT 7) OR access_number p
      in do {
        (e, h1) \<leftarrow> MMC_SetExtendedCsdConfig H c (write_byte 179 bootConfig)
                     (ucast (partitionSwitchTimeout (extendedCsd c)) * 10) h;
        Some (if e \<noteq> kStatus_Success then (kStatus_SDMMC_ConfigureExtendedCsdFailed, c, h1)
              else (kStatus_Success,
                    c\<lparr>extendedCsd := (extendedCsd c)\<lparr>partitionConfig := bootConfig\<rparr>, currentPartition := p\<rparr>, h1))
      })"

definition MMC_EnableCacheControl ::
    "'h sdmmchost \<Rightarrow> bool \<Rightarrow> mmc_card \<Rightarrow> 'h \<Rightarrow> (status \<times> mmc_card \<times> 'h) option" where
  "MMC_EnableCacheControl H enable c h =
     (let v = (if enable then 1 else 0 :: u8)
      in if cacheSize (extendedCsd c) = 0 then Some (kStatus_SDMMC_NotSupportYet, c, h)
         else do {
           (e, h1) \<leftarrow> MMC_SetExtendedCsdConfig H c (write_byte 33 v) 0 h;
           Some (if e \<noteq> kStatus_Success then (kStatus_SDMMC_ConfigureExtendedCsdFailed, c, h1)
                 else (kStatus_Success, c\<lparr>extendedCsd := (extendedCsd c)\<lparr>cacheCtrl := v\<rparr>\<rparr>, h1))
         })"

definition MMC_FlushCache :: "'h sdmmchost \<Rightarrow> mmc_card \<Rightarrow> 'h \<Rightarrow> (status \<times> 'h) option" where
  "MMC_FlushCache H c h =
     (if cacheSize (extendedCsd c) = 0 \<or> cacheCtrl (extendedCsd c) \<noteq> 1 then Some (kStatus_SDMMC_NotSupportYet, h)
      else do {
        (e, h1) \<leftarrow> MMC_SetExtendedCsdConfig H c (write_byte 32 1) 0 h;
        Some (if e \<noteq> kStatus_Success then kStatus_SDMMC_ConfigureExtendedCsdFailed else kStatus_Success, h1)
      })"

definition MMC_SetBootConfigWP ::
    "'h sdmmchost \<Rightarrow> u8 \<Rightarrow> mmc_card \<Rightarrow> 'h \<Rightarrow> (status \<times> mmc_card \<times> 'h) option" where
  "MMC_SetBootConfigWP H wp c h =
     do {
       (e, h1) \<leftarrow> MMC_SetExtendedCsdConfig H c (write_byte 178 wp) 0 h;
       Some (if e \<noteq> kStatus_Success then (kStatus_SDMMC_ConfigureExtendedCsdFailed, c, h1)
             else (kStatus_Success, c\<lparr>extendedCsd := (extendedCsd c)\<lparr>bootConfigProtect := wp\<rparr>\<rparr>, h1))
     }"

definition MMC_SetBootPartitionWP ::
    "'h sdmmchost \<Rightarrow> u8 \<Rightarrow> mmc_card \<Rightarrow> 'h \<Rightarrow> (status \<times> mmc_card \<times> 'h) option" where
  "MMC_SetBootPartitionWP H wp c h =
     do {
       (e, h1) \<leftarrow> MMC_SetExtendedCsdConfig H c (write_byte 173 wp) 0 h;
       Some (if e \<noteq> kStatus_Success then (kStatus_SDMMC_ConfigureExtendedCsdFailed, c, h1)
             else (kStatus_Success, c\<lparr>extendedCsd := (extendedCsd c)\<lparr>bootPartitionWP := wp\<rparr>\<rparr>, h1))
     }"

section \<open>Sleep\<close>

datatype sleep_awake = kMMC_Sleep | kMMC_Awake

definition MMC_SetSleepAwake :: "'h sdmmchost \<Rightarrow> mmc_card \<Rightarrow> sleep_awake \<Rightarrow> 'h \<Rightarrow> (status \<times> 'h) option" where
  "MMC_SetSleepAwake H c st h =
     (if extendecCsdVersion (extendedCsd c) \<le> 3 then Some (kStatus_SDMMC_NotSupportYet, h)
      else do {
        (e, h1) \<leftarrow> MMC_PollingCardStatusBusy H c False MMC_CARD_ACCESS_WAIT_IDLE_TIMEOUT h;
        if e \<noteq> kStatus_SDMMC_CardStatusIdle then Some (kStatus_SDMMC_PollingCardIdleFailed, h1)
        else let (e1, h2) = (if st = kMMC_Sleep then MMC_SelectCard H c False h1 else (kStatus_Success, h1))
             in if e1 \<noteq> kStatus_Success then Some (kStatus_SDMMC_DeselectCardFailed, h2)
                else let arg = push_bit 15 (if st = kMMC_Sleep then 1 else 0) OR push_bit 16 (relativeAddress c);
                         (e2, _, _, h3) = MMC_Transfer H c (command kMMC_SleepAwake arg kCARD_ResponseTypeR1b 0) None 0 h2
                     in if e2 \<noteq> kStatus_Success then Some (kStatus_SDMMC_TransferFailed, h3)
                        else do {
                          (e3, h4) \<leftarrow> MMC_PollingCardStatusBusy H c False
                                        (push_bit (unat (sleepAwakeTimeout (extendedCsd c))) 1 div 10000) h3;
                          if e3 \<noteq> kStatus_SDMMC_CardStatusIdle then Some (kStatus_SDMMC_PollingCardIdleFailed, h4)
                          else if st = kMMC_Awake
                          then let (e4, h5) = MMC_SelectCard H c True h4
                               in Some (if e4 \<noteq> kStatus_Success then kStatus_SDMMC_SelectCardFailed
                                        else kStatus_Success, h5)
                          else Some (kStatus_Success, h4)
                        }
      })"

section \<open>Erase\<close>

definition MMC_Erase :: "'h sdmmchost \<Rightarrow> mmc_card \<Rightarrow> u32 \<Rightarrow> u32 \<Rightarrow> 'h \<Rightarrow> status \<times> 'h" where
  "MMC_Erase H c startGroupAddress endGroupAddress h =
     (let r1 = (\<lambda>i a. command i a kCARD_ResponseTypeR1 SDMMC_R1_ALL_ERROR_FLAG);
          (e1, _, _, h1) = MMC_Transfer H c (r1 kMMC_EraseGroupStart startGroupAddress) None 0 h
      in if e1 \<noteq> kStatus_Success then (kStatus_SDMMC_TransferFailed, h1)
         else let (e2, _, _, h2) = MMC_Transfer H c (r1 kMMC_EraseGroupEnd endGroupAddress) None 0 h1
              in if e2 \<noteq> kStatus_Success then (kStatus_SDMMC_TransferFailed, h2)
                 else let (e3, _, _, h3) =
                        MMC_Transfer H c (command kSDMMC_Erase 0 kCARD_ResponseTypeR1b SDMMC_R1_ALL_ERROR_FLAG) None 0 h2
                      in (if e3 \<noteq> kStatus_Success then kStatus_SDMMC_TransferFailed else kStatus_Success, h3))"

definition group_address :: "mmc_card \<Rightarrow> u32 \<Rightarrow> u32" where
  "group_address c g =
     (if high_capacity c then g * eraseGroupBlocks c
      else g * eraseGroupBlocks c * FSL_SDMMC_DEFAULT_BLOCK_SIZE)"

definition erase_timeout :: "mmc_card \<Rightarrow> u32 \<Rightarrow> u32 \<Rightarrow> u32" where
  "erase_timeout c startGroup endGroup =
     (if high_capacity c \<and> highCapacityEraseTimeout (extendedCsd c) \<noteq> 0
      then ucast (highCapacityEraseTimeout (extendedCsd c)) * 300 * (endGroup - startGroup + 1)
      else MMC_CARD_ACCESS_WAIT_IDLE_TIMEOUT)"

definition MMC_EraseGroups :: "'h sdmmchost \<Rightarrow> mmc_card \<Rightarrow> u32 \<Rightarrow> u32 \<Rightarrow> 'h \<Rightarrow> (status \<times> 'h) option" where
  "MMC_EraseGroups H c startGroup endGroup h =
     (if MMC_CheckEraseGroupRange c startGroup endGroup \<noteq> kStatus_Success then Some (kStatus_InvalidArgument, h)
      else do {
        (e, h1) \<leftarrow> MMC_PollingCardStatusBusy H c True 0 h;
        if e \<noteq> kStatus_SDMMC_CardStatusIdle then Some (kStatus_SDMMC_PollingCardIdleFailed, h1)
        else let (e1, h2) = MMC_Erase H c (group_address c startGroup) (group_address c endGroup) h1
             in if e1 \<noteq> kStatus_Success then Some (e1, h2)
                else do {
                  (e2, h3) \<leftarrow> MMC_PollingCardStatusBusy H c True (erase_timeout c startGroup endGroup) h2;
                  Some (if e2 \<noteq> kStatus_SDMMC_CardStatusIdle then kStatus_SDMMC_PollingCardIdleFailed
                        else kStatus_Success, h3)
                }
      })"

end
