(* ===== verification/MmcProps.thy ===== *)
theory MmcProps
  imports MmcIo
begin

unbundle bit_operations_syntax

text \<open>
  What the eMMC card driver guarantees: polling ends, transfers are retried a bounded number of times,
  blocks written are the blocks read, and the range checks and identification steps do what they do.
\<close>

section \<open>Polling\<close>

text \<open>A reference definition: at most \<open>n\<close> rounds of polling with a delay of a millisecond after each.\<close>

fun poll_rounds :: "'h sdmmchost \<Rightarrow> mmc_card \<Rightarrow> bool \<Rightarrow> status \<Rightarrow> nat \<Rightarrow> 'h \<Rightarrow> status \<times> 'h" where
  "poll_rounds H c chk err 0 h = (let (e, _, h1) = poll_once H c chk err h in (e, h1))"
| "poll_rounds H c chk err (Suc n) h =
     (let (e, stop, h1) = poll_once H c chk err h
      in if stop then (e, h1)
         else if n = 0 then (e, OSA_TimeDelay H 1 h1)
         else poll_rounds H c chk e n (OSA_TimeDelay H 1 h1))"

lemma delay_rounds_up [simp]: "SDMMC_OSADelayUs H 125 h = (1000, OSA_TimeDelay H 1 h)"
  by (simp add: SDMMC_OSADelayUs_def)

lemma poll_loop_zero: "poll_loop H c chk err 0 h = Some (poll_rounds H c chk err 0 h)"
  by (subst poll_loop.simps) (simp split: prod.split)

lemma of_nat_thousand_nonzero:
  assumes "0 < k" "k < 2 ^ 29"
  shows "of_nat k * 1000 \<noteq> (0 :: u32)"
proof
  assume "of_nat k * 1000 = (0 :: u32)"
  then have "unat (of_nat (k * 1000) :: u32) = 0" by simp
  then have "(k * 1000) mod 2 ^ 32 = 0" by (simp only: unat_of_nat) simp
  then obtain m where "k * 1000 = 2 ^ 32 * m" by (auto simp: mod_eq_0_iff_dvd elim: dvdE)
  then have "k * 125 = 2 ^ 29 * m" by simp
  then have "2 ^ 29 dvd k * 125" by simp
  moreover have "coprime (2 ^ 29) (125 :: nat)"
    by (simp only: coprime_power_left_iff coprime_left_2_iff_odd) simp
  ultimately have "2 ^ 29 dvd k" by (simp only: coprime_dvd_mult_left_iff)
  then show False using assms dvd_imp_le [of "2 ^ 29" k] by simp
qed

lemma poll_loop_rounds:
  "k < 2 ^ 29 \<Longrightarrow> poll_loop H c chk err (of_nat k * 1000) h = Some (poll_rounds H c chk err k h)"
proof (induction k arbitrary: err h)
  case 0
  then show ?case by (simp add: poll_loop_zero)
next
  case (Suc k)
  obtain e stop h1 where p: "poll_once H c chk err h = (e, stop, h1)" by (metis prod_cases3)
  have ne: "of_nat (Suc k) * 1000 \<noteq> (0 :: u32)"
    using of_nat_thousand_nonzero [of "Suc k"] Suc.prems by blast
  have step: "of_nat (Suc k) * 1000 - 1000 = (of_nat k * 1000 :: u32)" by (simp add: algebra_simps)
  have more: "of_nat k * 1000 \<noteq> (0 :: u32) \<longleftrightarrow> k \<noteq> 0"
    using of_nat_thousand_nonzero [of k] Suc.prems by (cases "k = 0") auto
  have IH: "poll_loop H c chk e (of_nat k * 1000) h2 = Some (poll_rounds H c chk e k h2)" for h2
    using Suc.IH Suc.prems by simp
  show ?case
    by (subst poll_loop.simps) (simp only: p prod.case ne step more IH delay_rounds_up poll_rounds.simps Let_def
        if_True if_False not_False_eq_True split: if_split, auto)
qed

lemma poll_once_status:
  "poll_once H c chk err h = (e, stop, h1) \<Longrightarrow>
   e \<in> {err, kStatus_SDMMC_CardStatusIdle, kStatus_SDMMC_CardStatusBusy, kStatus_SDMMC_TransferFailed,
        kStatus_SDMMC_SwitchFailed}"
  by (auto simp: poll_once_def Let_def split: prod.splits if_splits)

section \<open>A card that behaves as documented\<close>

text \<open>
  The memory of a card as bytes, a command's data laid over it and a stretch of it. The address of a data
  command counts sectors on a high-capacity card and bytes on others.
\<close>

definition overlay :: "nat \<Rightarrow> u8 list \<Rightarrow> (nat \<Rightarrow> u8) \<Rightarrow> nat \<Rightarrow> u8" where
  "overlay a bs m = (\<lambda>i. if a \<le> i \<and> i < a + length bs then bs ! (i - a) else m i)"

definition stretch :: "(nat \<Rightarrow> u8) \<Rightarrow> nat \<Rightarrow> nat \<Rightarrow> u8 list" where
  "stretch m a n = map m [a..<a + n]"

definition byte_address :: "bool \<Rightarrow> u32 \<Rightarrow> nat" where
  "byte_address hc a = (if hc then 512 * unat a else unat a)"

definition data_of :: "u32 \<Rightarrow> bool \<Rightarrow> payload \<Rightarrow> sdmmchost_data" where
  "data_of n auto12 p =
     \<lparr>data_blockSize = 512, data_blockCount = n, enableAutoCommand12 = auto12, data_payload = p\<rparr>"

definition ready_status :: "u32 \<Rightarrow> bool" where
  "ready_status st \<longleftrightarrow> st AND (SDMMC_R1_ALL_ERROR_FLAG OR R1SwitchErrorMask) = 0 \<and> st AND R1ReadyForDataMask \<noteq> 0 \<and>
     SDMMC_R1_CURRENT_STATE st \<noteq> kSDMMC_R1StateProgram"

text \<open>
  The state a selected card is in: ready for a command, possibly with a block count announced by CMD23;
  programming what was written, for a number of milliseconds that are left; or in the middle of an open-ended
  transfer of several blocks, which only CMD12 ends.
\<close>

datatype card_phase = Ready "u32 option" | Programming nat | Streaming

text \<open>Ready without an announced count, or so after at most \<open>k\<close> milliseconds.\<close>

definition settles :: "nat \<Rightarrow> card_phase \<Rightarrow> bool" where
  "settles k ph \<longleftrightarrow> ph = Ready None \<or> (\<exists>j. 0 < j \<and> j \<le> k \<and> ph = Programming j)"

text \<open>A card does not stay busy for as long as the driver is prepared to wait, ten seconds.\<close>

definition settled :: "card_phase \<Rightarrow> bool" where
  "settled = settles 9999"

text \<open>
  How a transfer of \<open>n\<close> blocks may begin, and what ends it: one block ends itself; several blocks are ended by
  the count that CMD23 announced just before, or by the CMD12 that the host appends (which is not allowed
  after CMD23).
\<close>

definition may_transfer :: "u32 option \<Rightarrow> u32 \<Rightarrow> bool \<Rightarrow> bool" where
  "may_transfer announced n auto12 \<longleftrightarrow> announced = None \<or> announced = Some n \<and> \<not> auto12"

definition ends_itself :: "u32 option \<Rightarrow> u32 \<Rightarrow> bool \<Rightarrow> bool" where
  "ends_itself announced n auto12 \<longleftrightarrow> n = 1 \<or> auto12 \<or> announced = Some n"

definition flawless :: "u32 list \<Rightarrow> bool" where
  "flawless r \<longleftrightarrow> resp0 r AND SDMMC_R1_ALL_ERROR_FLAG = 0 \<and> resp0 r AND R1SwitchErrorMask = 0"

text \<open>
  The protocol of a selected card with its host, for states \<open>h\<close> in which the card is in \<open>phase h\<close> and holds
  the bytes \<open>mem h\<close>. While it programs, time passes: the card signals that it is busy, or answers CMD13 that
  it is not ready for data, until it is ready. Only a ready card takes CMD23 and the data commands
  CMD17/18/24/25, which read and write whole blocks below the capacity of \<open>cap\<close> blocks. After a write the card
  programs; after a transfer of several blocks that nothing ends it streams until CMD12. No command is promised
  to work in any other situation.
\<close>

definition waits_documented :: "'h sdmmchost \<Rightarrow> u32 \<Rightarrow> ('h \<Rightarrow> card_phase) \<Rightarrow> ('h \<Rightarrow> nat \<Rightarrow> u8) \<Rightarrow> bool" where
  "waits_documented H rca phase mem \<longleftrightarrow> (\<forall>h k. settles k (phase h) \<longrightarrow>
     (\<exists>b h'. IsCardBusy H h = (b, h') \<and> (phase h = Ready None \<longrightarrow> \<not> b) \<and> settles k (phase h') \<and> mem h' = mem h) \<and>
     (\<forall>t. settles (k - unat t) (phase (OSA_TimeDelay H t h)) \<and> mem (OSA_TimeDelay H t h) = mem h) \<and>
     (\<exists>r b h'. TransferFunction H (command kSDMMC_SendStatus (push_bit 16 rca) kCARD_ResponseTypeR1 0) None h =
         (kStatus_Success, r, b, h') \<and> flawless r \<and> (phase h = Ready None \<longrightarrow> ready_status (resp0 r)) \<and>
         (ready_status (resp0 r) \<longrightarrow> phase h' = Ready None) \<and> settles k (phase h') \<and> mem h' = mem h))"

definition transfers_documented ::
    "'h sdmmchost \<Rightarrow> bool \<Rightarrow> nat \<Rightarrow> ('h \<Rightarrow> card_phase) \<Rightarrow> ('h \<Rightarrow> nat \<Rightarrow> u8) \<Rightarrow> bool" where
  "transfers_documented H hc cap phase mem \<longleftrightarrow> (\<forall>h announced a n auto12 bs.
     phase h = Ready announced \<longrightarrow> may_transfer announced n auto12 \<longrightarrow> n \<noteq> 0 \<longrightarrow> length bs = 512 * unat n \<longrightarrow>
     byte_address hc a + length bs \<le> 512 * cap \<longrightarrow>
       (\<exists>r b h'. TransferFunction H
            (command (if n = 1 then kSDMMC_WriteSingleBlock else kSDMMC_WriteMultipleBlock) a
               kCARD_ResponseTypeR1 SDMMC_R1_ALL_ERROR_FLAG) (Some (data_of n auto12 (TxData bs))) h =
          (kStatus_Success, r, b, h') \<and> mem h' = overlay (byte_address hc a) bs (mem h) \<and>
          (if ends_itself announced n auto12 then settled (phase h') else phase h' = Streaming)) \<and>
       (\<exists>r h'. TransferFunction H
            (command (if n = 1 then kSDMMC_ReadSingleBlock else kSDMMC_ReadMultipleBlock) a
               kCARD_ResponseTypeR1 SDMMC_R1_ALL_ERROR_FLAG) (Some (data_of n auto12 (RxData bs))) h =
          (kStatus_Success, r, stretch (mem h) (byte_address hc a) (512 * unat n), h') \<and> mem h' = mem h \<and>
          (if ends_itself announced n auto12 then phase h' = Ready None else phase h' = Streaming)))"

definition card_documented ::
    "'h sdmmchost \<Rightarrow> bool \<Rightarrow> u32 \<Rightarrow> nat \<Rightarrow> ('h \<Rightarrow> card_phase) \<Rightarrow> ('h \<Rightarrow> nat \<Rightarrow> u8) \<Rightarrow> bool" where
  "card_documented H hc rca cap phase mem \<longleftrightarrow>
     waits_documented H rca phase mem \<and> transfers_documented H hc cap phase mem \<and>
     (\<forall>h announced n. phase h = Ready announced \<longrightarrow>
       (\<exists>r b h'. TransferFunction H (command kSDMMC_SetBlockCount n kCARD_ResponseTypeR1 0) None h =
         (kStatus_Success, r, b, h') \<and> flawless r \<and> phase h' = Ready (Some n) \<and> mem h' = mem h)) \<and>
     (\<forall>h. phase h = Streaming \<longrightarrow>
       (\<exists>r b h'. TransferFunction H ((command kSDMMC_StopTransmission 0 kCARD_ResponseTypeR1b SDMMC_R1_ALL_ERROR_FLAG)
            \<lparr>cmd_type := kCARD_CommandTypeAbort\<rparr>) None h =
         (kStatus_Success, r, b, h') \<and> flawless r \<and> settled (phase h') \<and> mem h' = mem h))"

text \<open>A card descriptor that fits such a card, and a host that can transfer its blocks.\<close>

definition fits :: "'h sdmmchost \<Rightarrow> mmc_card \<Rightarrow> nat \<Rightarrow> bool" where
  "fits H c cap \<longleftrightarrow> blockSize c = 512 \<and> maxBlockSize H \<ge> 512 \<and> maxBlockCount H \<noteq> 0 \<and>
     (\<exists>n. partition_blocks c = Some n \<and> unat n \<le> cap \<and> (high_capacity c \<or> 512 * unat n < 2 ^ 32))"

lemma flawlessD:
  assumes "flawless r"
  shows "resp0 r AND SDMMC_R1_ALL_ERROR_FLAG = 0" "resp0 r AND (SDMMC_R1_ALL_ERROR_FLAG OR R1SwitchErrorMask) = 0"
  using assms by (simp_all add: flawless_def bit.conj_disj_distrib)

lemma card_documentedD:
  assumes "card_documented H hc rca cap phase mem"
  shows busy_answer: "settles k (phase h) \<Longrightarrow>
      \<exists>b h'. IsCardBusy H h = (b, h') \<and> (phase h = Ready None \<longrightarrow> \<not> b) \<and> settles k (phase h') \<and> mem h' = mem h"
    and delay_settles: "settles k (phase h) \<Longrightarrow> settles (k - unat t) (phase (OSA_TimeDelay H t h))"
    and delay_keeps: "settles k (phase h) \<Longrightarrow> mem (OSA_TimeDelay H t h) = mem h"
    and status_answer: "settles k (phase h) \<Longrightarrow>
      \<exists>r b h'. TransferFunction H (command kSDMMC_SendStatus (push_bit 16 rca) kCARD_ResponseTypeR1 0) None h =
         (kStatus_Success, r, b, h') \<and> flawless r \<and> (phase h = Ready None \<longrightarrow> ready_status (resp0 r)) \<and>
         (ready_status (resp0 r) \<longrightarrow> phase h' = Ready None) \<and> settles k (phase h') \<and> mem h' = mem h"
    and count_set: "phase h = Ready announced \<Longrightarrow>
      \<exists>r b h'. TransferFunction H (command kSDMMC_SetBlockCount n kCARD_ResponseTypeR1 0) None h =
         (kStatus_Success, r, b, h') \<and> flawless r \<and> phase h' = Ready (Some n) \<and> mem h' = mem h"
    and write_done: "phase h = Ready announced \<Longrightarrow> may_transfer announced n auto12 \<Longrightarrow> n \<noteq> 0 \<Longrightarrow> length bs = 512 * unat n \<Longrightarrow>
       byte_address hc a + length bs \<le> 512 * cap \<Longrightarrow>
       \<exists>r b h'. TransferFunction H
            (command (if n = 1 then kSDMMC_WriteSingleBlock else kSDMMC_WriteMultipleBlock) a
               kCARD_ResponseTypeR1 SDMMC_R1_ALL_ERROR_FLAG) (Some (data_of n auto12 (TxData bs))) h =
          (kStatus_Success, r, b, h') \<and> mem h' = overlay (byte_address hc a) bs (mem h) \<and>
          (if ends_itself announced n auto12 then settled (phase h') else phase h' = Streaming)"
    and read_done: "phase h = Ready announced \<Longrightarrow> may_transfer announced n auto12 \<Longrightarrow> n \<noteq> 0 \<Longrightarrow> length bs = 512 * unat n \<Longrightarrow>
       byte_address hc a + length bs \<le> 512 * cap \<Longrightarrow>
       \<exists>r h'. TransferFunction H
            (command (if n = 1 then kSDMMC_ReadSingleBlock else kSDMMC_ReadMultipleBlock) a
               kCARD_ResponseTypeR1 SDMMC_R1_ALL_ERROR_FLAG) (Some (data_of n auto12 (RxData bs))) h =
          (kStatus_Success, r, stretch (mem h) (byte_address hc a) (512 * unat n), h') \<and> mem h' = mem h \<and>
          (if ends_itself announced n auto12 then phase h' = Ready None else phase h' = Streaming)"
  using assms unfolding card_documented_def waits_documented_def transfers_documented_def by blast+

lemma settles_ready [simp]: "settles k (Ready None)"
  by (simp add: settles_def)

lemma settled_idle: "ph = Ready None \<Longrightarrow> settled ph"
  by (simp add: settled_def)

lemma settles_zero: "settles 0 ph \<longleftrightarrow> ph = Ready None"
  by (auto simp: settles_def)

lemma MMC_Transfer_success:
  "TransferFunction H cmd d h = (kStatus_Success, r, b, h1) \<Longrightarrow> MMC_Transfer H c cmd d k h = (kStatus_Success, r, b, h1)"
  unfolding MMC_Transfer_def by (subst transfer_loop.simps) simp

lemma MMC_SendStatus_answer:
  assumes doc: "card_documented H hc (relativeAddress c) cap phase mem" and s: "settles k (phase h)"
  shows "\<exists>st h'. MMC_SendStatus H c h = (kStatus_Success, st, h') \<and>
    st AND (SDMMC_R1_ALL_ERROR_FLAG OR R1SwitchErrorMask) = 0 \<and> (phase h = Ready None \<longrightarrow> ready_status st) \<and>
    (ready_status st \<longrightarrow> phase h' = Ready None) \<and> settles k (phase h') \<and> mem h' = mem h"
proof -
  obtain r b h' where t: "TransferFunction H
      (command kSDMMC_SendStatus (push_bit 16 (relativeAddress c)) kCARD_ResponseTypeR1 0) None h =
      (kStatus_Success, r, b, h')" "flawless r" "phase h = Ready None \<longrightarrow> ready_status (resp0 r)"
      "ready_status (resp0 r) \<longrightarrow> phase h' = Ready None" "settles k (phase h')" "mem h' = mem h"
    using status_answer [OF doc s] by blast
  have "MMC_SendStatus H c h = send_status_loop H c (Suc 9) h" by (simp add: MMC_SendStatus_def numeral_eq_Suc)
  also have "\<dots> = (kStatus_Success, resp0 r, h')"
    by (simp only: send_status_loop.simps MMC_Transfer_success [OF t(1)]) simp
  finally show ?thesis using t(2-) flawlessD(2) by blast
qed

text \<open>One round of polling: the card is ready, or was not and time has to pass.\<close>

lemma poll_once_settles:
  assumes doc: "card_documented H hc (relativeAddress c) cap phase mem" and s: "settles k (phase h)"
  shows "\<exists>e stop h'. poll_once H c True err h = (e, stop, h') \<and> settles k (phase h') \<and> mem h' = mem h \<and>
    (stop \<longrightarrow> e = kStatus_SDMMC_CardStatusIdle \<and> phase h' = Ready None) \<and> (phase h = Ready None \<longrightarrow> stop)"
proof -
  obtain b h1 where b: "IsCardBusy H h = (b, h1)" "phase h = Ready None \<longrightarrow> \<not> b" "settles k (phase h1)" "mem h1 = mem h"
    using busy_answer [OF doc s] by blast
  show ?thesis
  proof (cases b)
    case True
    then show ?thesis using b by (intro exI [of _ err] exI [of _ False] exI [of _ h1]) (simp add: poll_once_def)
  next
    case False
    have r1: "phase h = Ready None \<longrightarrow> phase h1 = Ready None"
      using busy_answer [OF doc, of 0 h] b(1) by (auto simp: settles_zero)
    obtain st h2 where st: "MMC_SendStatus H c h1 = (kStatus_Success, st, h2)"
      "st AND (SDMMC_R1_ALL_ERROR_FLAG OR R1SwitchErrorMask) = 0" "phase h1 = Ready None \<longrightarrow> ready_status st"
      "ready_status st \<longrightarrow> phase h2 = Ready None" "settles k (phase h2)" "mem h2 = mem h1"
      using MMC_SendStatus_answer [OF doc b(3)] by blast
    have "poll_once H c True err h =
        (if ready_status st then (kStatus_SDMMC_CardStatusIdle, True, h2) else (kStatus_SDMMC_CardStatusBusy, False, h2))"
      using False st(2) by (simp add: poll_once_def b(1) st(1) ready_status_def)
    then show ?thesis using st r1 b(4) by auto
  qed
qed

lemma poll_rounds_settles:
  assumes doc: "card_documented H hc (relativeAddress c) cap phase mem"
  shows "settles k (phase h) \<Longrightarrow> k < n \<Longrightarrow>
    \<exists>h'. poll_rounds H c True err n h = (kStatus_SDMMC_CardStatusIdle, h') \<and> phase h' = Ready None \<and> mem h' = mem h"
proof (induction n arbitrary: k err h)
  case (Suc n)
  obtain e stop h1 where p: "poll_once H c True err h = (e, stop, h1)" "settles k (phase h1)" "mem h1 = mem h"
    "stop \<longrightarrow> e = kStatus_SDMMC_CardStatusIdle \<and> phase h1 = Ready None" "phase h = Ready None \<longrightarrow> stop"
    using poll_once_settles [OF doc Suc.prems(1)] by blast
  show ?case
  proof (cases stop)
    case True
    then show ?thesis using p by simp
  next
    case False
    then have "k \<noteq> 0" using p(5) Suc.prems(1) by (metis settles_zero)
    then have n: "n \<noteq> 0" "k - 1 < n" using Suc.prems(2) by simp_all
    have "settles (k - 1) (phase (OSA_TimeDelay H 1 h1))" using delay_settles [OF doc p(2), of 1] by simp
    from Suc.IH [OF this n(2)] show ?thesis using p False n(1) delay_keeps [OF doc p(2)] by simp
  qed
qed simp

lemma polling_ready:
  assumes "card_documented H hc (relativeAddress c) cap phase mem" "settled (phase h)"
  shows "\<exists>h'. MMC_PollingCardStatusBusy H c True MMC_CARD_ACCESS_WAIT_IDLE_TIMEOUT h =
    Some (kStatus_SDMMC_CardStatusIdle, h') \<and> phase h' = Ready None \<and> mem h' = mem h"
proof -
  have "MMC_CARD_ACCESS_WAIT_IDLE_TIMEOUT * 1000 = of_nat 10000 * (1000 :: u32)"
    by (simp add: MMC_CARD_ACCESS_WAIT_IDLE_TIMEOUT_def)
  then have "MMC_PollingCardStatusBusy H c True MMC_CARD_ACCESS_WAIT_IDLE_TIMEOUT h =
      Some (poll_rounds H c True kStatus_SDMMC_CardStatusBusy 10000 h)"
    using poll_loop_rounds [of 10000] unfolding MMC_PollingCardStatusBusy_def by (simp del: of_nat_numeral)
  then show ?thesis
    using poll_rounds_settles [OF assms(1), of 9999 h 10000] assms(2) by (auto simp: settled_def)
qed

text \<open>
  One data command on such a card, for either direction: the driver waits, announces the count or lets the host
  stop the transfer, so that the transfer ends.
\<close>

lemma data_command_works:
  assumes doc: "card_documented H (high_capacity c) (relativeAddress c) cap phase mem"
    and s: "settled (phase h)" and fit: "fits H c cap"
    and transfer: "\<And>h1 announced auto12. phase h1 = Ready announced \<Longrightarrow> may_transfer announced n auto12 \<Longrightarrow>
       ends_itself announced n auto12 \<Longrightarrow> mem h1 = mem h \<Longrightarrow> \<exists>r x h'. TransferFunction H
       (command (if n = 1 then single else multiple) (if high_capacity c then start else start * 512)
          kCARD_ResponseTypeR1 SDMMC_R1_ALL_ERROR_FLAG) (Some (data_of n auto12 p)) h1 =
       (kStatus_Success, r, x, h') \<and> Q x \<and> settled (phase h') \<and> mem h' = m'"
  shows "\<exists>x h'. data_command H c single multiple p buf start 512 n h = Some (kStatus_Success, x, h') \<and> Q x \<and>
     settled (phase h') \<and> mem h' = m'"
proof -
  have sup: "\<not> unsupported_size H c 512" using fit by (auto simp: fits_def unsupported_size_def)
  obtain h1 where p: "MMC_PollingCardStatusBusy H c True MMC_CARD_ACCESS_WAIT_IDLE_TIMEOUT h =
      Some (kStatus_SDMMC_CardStatusIdle, h1)" "phase h1 = Ready None" "mem h1 = mem h"
    using polling_ready [OF doc s] by metis
  let ?pre = "n \<noteq> 1 \<and> enablePreDefinedBlockCount c"
  obtain h2 where c2: "(if ?pre then MMC_SetBlockCount H n h1 else (kStatus_Success, h1)) = (kStatus_Success, h2)"
    "phase h2 = Ready (if ?pre then Some n else None)" "mem h2 = mem h"
  proof (cases ?pre)
    case True
    obtain r b h2 where "TransferFunction H (command kSDMMC_SetBlockCount n kCARD_ResponseTypeR1 0) None h1 =
        (kStatus_Success, r, b, h2)" "flawless r" "phase h2 = Ready (Some n)" "mem h2 = mem h1"
      using count_set [OF doc p(2)] by blast
    then show ?thesis using that [of h2] True p(3) flawlessD(1)
      by (simp add: MMC_SetBlockCount_def SDMMC_SetBlockCount_def r1_failed_def)
  qed (use that p in auto)
  have "may_transfer (if ?pre then Some n else None) n (\<not> ?pre)" "ends_itself (if ?pre then Some n else None) n (\<not> ?pre)"
    by (simp_all add: may_transfer_def ends_itself_def)
  from transfer [OF c2(2) this c2(3)] obtain r3 x h3 where t: "TransferFunction H
      (command (if n = 1 then single else multiple) (if high_capacity c then start else start * 512)
          kCARD_ResponseTypeR1 SDMMC_R1_ALL_ERROR_FLAG) (Some (data_of n (\<not> ?pre) p)) h2 =
      (kStatus_Success, r3, x, h3)" "Q x" "settled (phase h3)" "mem h3 = m'"
    by blast
  have "data_command H c single multiple p buf start 512 n h = Some (kStatus_Success, x, h3)"
    using sup c2(1) MMC_Transfer_success [OF t(1) [unfolded data_of_def], of c 3]
    by (cases "n = 1"; cases "enablePreDefinedBlockCount c"; cases "high_capacity c")
      (simp_all add: data_command_def p(1) Let_def)
  then show ?thesis using t by blast
qed

section \<open>Reading and writing blocks\<close>

lemma overlay_append: "overlay a (xs @ ys) m = overlay (a + length xs) ys (overlay a xs m)"
  by (rule ext) (auto simp: overlay_def nth_append)

lemma overlay_Nil [simp]: "overlay a [] m = m"
  by (rule ext) (auto simp: overlay_def)

lemma stretch_overlay [simp]: "stretch (overlay a bs m) a (length bs) = bs"
  by (rule nth_equalityI) (simp_all add: stretch_def overlay_def)

lemma length_stretch [simp]: "length (stretch m a n) = n"
  by (simp add: stretch_def)

lemma stretch_add: "stretch m a (i + j) = stretch m a i @ stretch m (a + i) j"
proof -
  have "[a..<a + (i + j)] = [a..<a + i] @ [a + i..<a + i + j]"
    using upt_add_eq_append [of a "a + i" j] by (simp add: add.assoc)
  then show ?thesis by (simp add: stretch_def)
qed

lemma slice_split: "i + n \<le> length xs \<Longrightarrow> drop i xs = slice i n xs @ drop (i + n) xs"
  using append_take_drop_id [of n "drop i xs"] by (simp add: slice_def add.commute)

lemma length_slice [simp]: "i + n \<le> length xs \<Longrightarrow> length (slice i n xs) = n"
  by (simp add: slice_def)

text \<open>The next piece has at least one block and at most those left.\<close>

lemma one_time_range:
  "maxBlockCount H \<noteq> 0 \<Longrightarrow> left \<noteq> 0 \<Longrightarrow> one_time H b left \<noteq> 0 \<and> one_time H b left \<le> left"
  using unat_gt_0 [of left] by (auto simp: one_time_def word_le_nat_alt word_less_nat_alt)

lemma sub_piece:
  assumes "n \<le> (left :: u32)" "unat d + unat left < 2 ^ 32"
  shows "unat (left - n) = unat left - unat n" "unat (d + n) = unat d + unat n"
    "unat (d + n) + unat (left - n) = unat d + unat left"
proof -
  show 1: "unat (left - n) = unat left - unat n" using assms(1) by (rule unat_sub)
  have "unat n \<le> unat left" using assms(1) by (simp add: word_le_nat_alt)
  then show 2: "unat (d + n) = unat d + unat n" using assms(2) by (intro unat_add_no_wrap) simp
  show "unat (d + n) + unat (left - n) = unat d + unat left"
    using 1 2 \<open>unat n \<le> unat left\<close> by simp
qed

text \<open>The address of a block within the partition denotes the place of its bytes.\<close>

lemma block_address:
  assumes "high_capacity c \<or> 512 * unat pb < 2 ^ 32" "unat b < unat (pb :: u32)"
  shows "byte_address (high_capacity c) (if high_capacity c then b else b * 512) = 512 * unat b"
proof (cases "high_capacity c")
  case False
  then have "unat b * 512 < 2 ^ 32" using assms by simp
  then have "unat (b * 512) = unat b * 512" by (simp add: unat_word_ariths)
  then show ?thesis using False by (simp add: byte_address_def)
qed (simp add: byte_address_def)

lemma block_range:
  assumes fit: "fits H c cap" and pb: "partition_blocks c = Some pb" and n: "n \<noteq> 0" and rng: "unat b + unat n \<le> unat pb"
  shows "byte_address (high_capacity c) (if high_capacity c then b else b * 512) = 512 * unat b"
    "512 * unat b + 512 * unat n \<le> 512 * cap"
proof -
  have pbd: "unat pb \<le> cap" "high_capacity c \<or> 512 * unat pb < 2 ^ 32" using fit pb by (auto simp: fits_def)
  have "unat b < unat pb" using rng n unat_gt_0 [of n] by linarith
  with pbd(2) show "byte_address (high_capacity c) (if high_capacity c then b else b * 512) = 512 * unat b"
    by (rule block_address)
  show "512 * unat b + 512 * unat n \<le> 512 * cap" using rng pbd(1) by simp
qed

lemma MMC_Write_works:
  assumes doc: "card_documented H (high_capacity c) (relativeAddress c) cap phase mem" and r: "settled (phase h)"
    and fit: "fits H c cap" and pb: "partition_blocks c = Some pb" and n: "n \<noteq> 0"
    and len: "length bs = 512 * unat n" and rng: "unat b + unat n \<le> unat pb"
  shows "\<exists>h'. MMC_Write H c bs b 512 n h = Some (kStatus_Success, h') \<and> settled (phase h') \<and>
    mem h' = overlay (512 * unat b) bs (mem h)"
proof -
  note addr = block_range [OF fit pb n rng]
  have range: "byte_address (high_capacity c) (if high_capacity c then b else b * 512) + length bs \<le> 512 * cap"
    unfolding addr(1) len by (rule addr(2))
  have transfer: "\<exists>r x h'. TransferFunction H (command (if n = 1 then kSDMMC_WriteSingleBlock else kSDMMC_WriteMultipleBlock)
      (if high_capacity c then b else b * 512) kCARD_ResponseTypeR1 SDMMC_R1_ALL_ERROR_FLAG)
      (Some (data_of n auto12 (TxData bs))) h1 = (kStatus_Success, r, x, h') \<and> True \<and> settled (phase h') \<and>
      mem h' = overlay (512 * unat b) bs (mem h)"
    if "phase h1 = Ready announced" "may_transfer announced n auto12" "ends_itself announced n auto12" "mem h1 = mem h"
    for h1 announced auto12
    using write_done [OF doc that(1,2) n len range] by (simp only: addr(1) that(3,4) if_True) blast
  have "\<exists>x h'. data_command H c kSDMMC_WriteSingleBlock kSDMMC_WriteMultipleBlock (TxData bs) bs b 512 n h =
      Some (kStatus_Success, x, h') \<and> True \<and> settled (phase h') \<and> mem h' = overlay (512 * unat b) bs (mem h)"
    by (rule data_command_works [OF doc r fit]) (rule transfer)
  then show ?thesis by (auto simp: MMC_Write_def)
qed

lemma MMC_Read_works:
  assumes doc: "card_documented H (high_capacity c) (relativeAddress c) cap phase mem" and r: "settled (phase h)"
    and fit: "fits H c cap" and pb: "partition_blocks c = Some pb" and n: "n \<noteq> 0"
    and len: "length buf = 512 * unat n" and rng: "unat b + unat n \<le> unat pb"
  shows "\<exists>h'. MMC_Read H c buf b 512 n h = Some (kStatus_Success, stretch (mem h) (512 * unat b) (512 * unat n), h') \<and>
    settled (phase h') \<and> mem h' = mem h"
proof -
  note addr = block_range [OF fit pb n rng]
  have range: "byte_address (high_capacity c) (if high_capacity c then b else b * 512) + length buf \<le> 512 * cap"
    unfolding addr(1) len by (rule addr(2))
  have transfer: "\<exists>r x h'. TransferFunction H (command (if n = 1 then kSDMMC_ReadSingleBlock else kSDMMC_ReadMultipleBlock)
      (if high_capacity c then b else b * 512) kCARD_ResponseTypeR1 SDMMC_R1_ALL_ERROR_FLAG)
      (Some (data_of n auto12 (RxData buf))) h1 = (kStatus_Success, r, x, h') \<and>
      x = stretch (mem h) (512 * unat b) (512 * unat n) \<and> settled (phase h') \<and> mem h' = mem h"
    if "phase h1 = Ready announced" "may_transfer announced n auto12" "ends_itself announced n auto12" "mem h1 = mem h"
    for h1 announced auto12
  proof -
    note read = read_done [OF doc that(1,2) n len range, unfolded addr(1) if_P [OF that(3)]]
    obtain r h' where t: "TransferFunction H (command (if n = 1 then kSDMMC_ReadSingleBlock else kSDMMC_ReadMultipleBlock)
        (if high_capacity c then b else b * 512) kCARD_ResponseTypeR1 SDMMC_R1_ALL_ERROR_FLAG)
        (Some (data_of n auto12 (RxData buf))) h1 =
        (kStatus_Success, r, stretch (mem h1) (512 * unat b) (512 * unat n), h')" "mem h' = mem h1" "phase h' = Ready None"
      using read by blast
    show ?thesis unfolding t(1) using t(2,3) that(4) settled_idle by simp
  qed
  have "\<exists>x h'. data_command H c kSDMMC_ReadSingleBlock kSDMMC_ReadMultipleBlock (RxData buf) buf b 512 n h =
      Some (kStatus_Success, x, h') \<and> x = stretch (mem h) (512 * unat b) (512 * unat n) \<and> settled (phase h') \<and> mem h' = mem h"
    by (rule data_command_works [OF doc r fit]) (rule transfer)
  then show ?thesis by (auto simp: MMC_Read_def)
qed

lemma write_blocks_loop_works:
  assumes doc: "card_documented H (high_capacity c) (relativeAddress c) cap phase mem"
    and fit: "fits H c cap" and pb: "partition_blocks c = Some pb"
  shows "settled (phase h) \<Longrightarrow> length buf = 512 * (unat d + unat left) \<Longrightarrow> unat start + unat d + unat left \<le> unat pb \<Longrightarrow>
    \<exists>h'. write_blocks_loop H c baddr buf start aligned d left h = Some (kStatus_Success, h') \<and> settled (phase h') \<and>
      mem h' = overlay (512 * (unat start + unat d)) (drop (512 * unat d) buf) (mem h)"
proof (induction "unat left" arbitrary: d left aligned h rule: less_induct)
  case less
  show ?case
  proof (cases "left = 0")
    case True
    then show ?thesis using less.prems by (subst write_blocks_loop.simps) simp
  next
    case False
    define b where "b = bounce c aligned (baddr + d * FSL_SDMMC_DEFAULT_BLOCK_SIZE)"
    define n where "n = one_time H b left"
    have n: "n \<noteq> 0" "n \<le> left" using one_time_range [OF _ False] fit by (auto simp: n_def fits_def)
    have nat: "unat n \<le> unat left" "0 < unat n" using n by (simp_all add: word_le_nat_alt unat_gt_0)
    have lim: "unat start + unat d + unat left < 2 ^ 32" using less.prems(3) unsigned_less [where 'a = nat, of pb] by simp
    have sd: "unat (start + d) = unat start + unat d" using lim by (intro unat_add_no_wrap) simp
    note piece = sub_piece [OF n(2), of d]
    have p: "unat (left - n) = unat left - unat n" "unat (d + n) = unat d + unat n"
      using piece lim by simp_all
    let ?bs = "slice (byte_pos d) (byte_pos n) buf"
    have lbs: "length ?bs = 512 * unat n" using less.prems(2) nat by (simp add: byte_pos_def)
    have "unat (start + d) + unat n \<le> unat pb" using sd less.prems(3) nat by simp
    from MMC_Write_works [OF doc less.prems(1) fit pb n(1) lbs this] obtain h1
      where w: "MMC_Write H c ?bs (start + d) 512 n h = Some (kStatus_Success, h1)" "settled (phase h1)"
        "mem h1 = overlay (512 * (unat start + unat d)) ?bs (mem h)" unfolding sd by blast
    have "unat (left - n) < unat left" using p nat by simp
    from less.hyps [OF this w(2), of "d + n" "if b then False else aligned"] obtain h'
      where l: "write_blocks_loop H c baddr buf start (if b then False else aligned) (d + n) (left - n) h1 =
          Some (kStatus_Success, h')" "settled (phase h')"
        "mem h' = overlay (512 * (unat start + unat d + unat n)) (drop (512 * (unat d + unat n)) buf) (mem h1)"
      using p nat less.prems(2,3) by (auto simp: add.assoc)
    have "write_blocks_loop H c baddr buf start aligned d left h = Some (kStatus_Success, h')"
      using False l(1) w(1) unfolding n_def b_def
      by (subst write_blocks_loop.simps) (simp add: Let_def FSL_SDMMC_DEFAULT_BLOCK_SIZE_def split del: if_split)
    moreover have "drop (512 * unat d) buf = ?bs @ drop (512 * (unat d + unat n)) buf"
      using slice_split [of "512 * unat d" "512 * unat n" buf] less.prems(2) nat by (simp add: byte_pos_def algebra_simps)
    then have "mem h' = overlay (512 * (unat start + unat d)) (drop (512 * unat d) buf) (mem h)"
      using l(3) w(3) lbs by (simp add: overlay_append algebra_simps)
    ultimately show ?thesis using l(2) by blast
  qed
qed

lemma store_at_prefix:
  assumes "length xs = i" "length ys = n" "length zs = n + k"
  shows "store_at i ys (xs @ zs) = xs @ ys @ drop n zs"
  using assms by (simp add: store_at_def)

lemma read_blocks_loop_works:
  assumes doc: "card_documented H (high_capacity c) (relativeAddress c) cap phase mem"
    and fit: "fits H c cap" and pb: "partition_blocks c = Some pb"
  shows "settled (phase h) \<Longrightarrow> aligned \<or> \<not> noInteralAlign c \<Longrightarrow> length xs = 512 * unat d \<Longrightarrow> length zs = 512 * unat left \<Longrightarrow>
    unat start + unat d + unat left \<le> unat pb \<Longrightarrow>
    \<exists>h'. read_blocks_loop H c baddr start aligned d left (xs @ zs) h =
        Some (kStatus_Success, xs @ stretch (mem h) (512 * (unat start + unat d)) (512 * unat left), h') \<and> settled (phase h') \<and>
      mem h' = mem h"
proof (induction "unat left" arbitrary: d left aligned h xs zs rule: less_induct)
  case less
  show ?case
  proof (cases "left = 0")
    case True
    then show ?thesis using less.prems by (subst read_blocks_loop.simps) (simp add: stretch_def)
  next
    case False
    define b where "b = bounce c aligned (baddr + d * FSL_SDMMC_DEFAULT_BLOCK_SIZE)"
    define n where "n = one_time H b left"
    have n: "n \<noteq> 0" "n \<le> left" using one_time_range [OF _ False] fit by (auto simp: n_def fits_def)
    have nat: "unat n \<le> unat left" "0 < unat n" using n by (simp_all add: word_le_nat_alt unat_gt_0)
    have lim: "unat start + unat d + unat left < 2 ^ 32" using less.prems(5) unsigned_less [where 'a = nat, of pb] by simp
    have sd: "unat (start + d) = unat start + unat d" using lim by (intro unat_add_no_wrap) simp
    have p: "unat (left - n) = unat left - unat n" "unat (d + n) = unat d + unat n"
      using sub_piece [OF n(2), of d] lim by simp_all
    let ?al = "if b then False else aligned"
    define target where "target = (if ?al then slice (byte_pos d) (byte_pos n) (xs @ zs) else replicate 512 0)"
    have al: "?al \<or> \<not> noInteralAlign c" using less.prems(2) by (auto simp: b_def bounce_def)
    have b1: "n = 1" if "\<not> ?al"
    proof -
      have b using that less.prems(2) by (auto simp: b_def bounce_def)
      then show ?thesis by (simp add: n_def one_time_def)
    qed
    have lt: "length target = 512 * unat n"
      using less.prems(3,4) nat b1 by (auto simp: target_def byte_pos_def)
    have rng: "unat (start + d) + unat n \<le> unat pb" using sd less.prems(5) nat by simp
    define got where "got = stretch (mem h) (512 * (unat start + unat d)) (512 * unat n)"
    from MMC_Read_works [OF doc less.prems(1) fit pb n(1) lt rng] obtain h1
      where w: "MMC_Read H c target (start + d) 512 n h = Some (kStatus_Success, got, h1)" "settled (phase h1)" "mem h1 = mem h"
      unfolding sd got_def by blast
    have "unat (left - n) < unat left" using p nat by simp
    moreover have "length (xs @ got) = 512 * unat (d + n)" using less.prems(3) p by (simp add: got_def)
    moreover have "length (drop (512 * unat n) zs) = 512 * unat (left - n)" using less.prems(4) p nat by simp
    moreover have "unat start + unat (d + n) + unat (left - n) \<le> unat pb" using p nat less.prems(5) by simp
    ultimately obtain h' where l: "read_blocks_loop H c baddr start ?al (d + n) (left - n)
          ((xs @ got) @ drop (512 * unat n) zs) h1 =
        Some (kStatus_Success, (xs @ got) @ stretch (mem h1) (512 * (unat start + unat (d + n))) (512 * unat (left - n)), h')"
        "settled (phase h')" "mem h' = mem h1"
      using less.hyps [OF _ w(2) al] by blast
    have st: "store_at (byte_pos d) got (xs @ zs) = xs @ got @ drop (512 * unat n) zs"
      by (rule store_at_prefix [where k = "512 * (unat left - unat n)"])
        (use less.prems nat in \<open>simp_all add: byte_pos_def got_def algebra_simps\<close>)
    have "stretch (mem h) (512 * (unat start + unat d)) (512 * unat left) =
        got @ stretch (mem h) (512 * (unat start + unat (d + n))) (512 * unat (left - n))"
      using stretch_add [of "mem h" "512 * (unat start + unat d)" "512 * unat n" "512 * (unat left - unat n)"] p nat
      by (simp add: got_def algebra_simps)
    moreover have "read_blocks_loop H c baddr start aligned d left (xs @ zs) h =
        Some (kStatus_Success, (xs @ got) @ stretch (mem h1) (512 * (unat start + unat (d + n))) (512 * unat (left - n)), h')"
      using False l(1) w(1) [folded FSL_SDMMC_DEFAULT_BLOCK_SIZE_def] st unfolding target_def n_def b_def
      by (subst read_blocks_loop.simps) (simp add: Let_def split del: if_split)
    ultimately show ?thesis using l(2,3) w(3) by simp
  qed
qed

lemma check_block_range_ok:
  assumes "partition_blocks c = Some pb" "unat start + unat count \<le> unat pb" "count \<noteq> 0"
  shows "MMC_CheckBlockRange c start count = Some kStatus_Success"
proof -
  have "unat (start + count) = unat start + unat count"
    using assms(2) u32_bound [of pb] by (intro unat_add_no_wrap) simp
  then show ?thesis using assms by (simp add: MMC_CheckBlockRange_def word_less_nat_alt)
qed

section \<open>A card in memory\<close>

text \<open>A simulated card that programs for three milliseconds after each write.\<close>

definition ready_answer :: "u32 list" where
  "ready_answer = [0x900, 0, 0, 0]"

definition program_answer :: "u32 list" where
  "program_answer = [0xE00, 0, 0, 0]"

definition memory_data :: "sdmmchost_cmd \<Rightarrow> sdmmchost_data \<Rightarrow> u32 option \<Rightarrow> (nat \<Rightarrow> u8) \<Rightarrow>
    status \<times> u32 list \<times> u8 list \<times> (card_phase \<times> (nat \<Rightarrow> u8))" where
  "memory_data cmd d announced m =
     (let at = 512 * unat (cmd_argument cmd); ended = ends_itself announced (data_blockCount d) (enableAutoCommand12 d)
      in case data_payload d of
           RxData bs \<Rightarrow> (kStatus_Success, ready_answer, stretch m at (length bs), (if ended then Ready None else Streaming, m))
         | TxData bs \<Rightarrow> (kStatus_Success, ready_answer, [], (if ended then Programming 3 else Streaming, overlay at bs m)))"

definition memory_card_transfer ::
    "sdmmchost_cmd \<Rightarrow> sdmmchost_data option \<Rightarrow> card_phase \<times> (nat \<Rightarrow> u8) \<Rightarrow>
     status \<times> u32 list \<times> u8 list \<times> (card_phase \<times> (nat \<Rightarrow> u8))" where
  "memory_card_transfer cmd d h =
     (case (fst h, d) of
        (Ready announced, Some d) \<Rightarrow> memory_data cmd d announced (snd h)
      | (Ready announced, None) \<Rightarrow>
          (kStatus_Success, ready_answer, [],
           (Ready (if cmd_index cmd = kSDMMC_SetBlockCount then Some (cmd_argument cmd) else None), snd h))
      | (Programming k, None) \<Rightarrow> (kStatus_Success, program_answer, [], h)
      | (Streaming, None) \<Rightarrow>
          (kStatus_Success, ready_answer, [],
           (if cmd_index cmd = kSDMMC_StopTransmission then Programming 3 else Streaming, snd h))
      | _ \<Rightarrow> (kStatus_SDMMC_TransferFailed, [0, 0, 0, 0], [], h))"

definition time_passes :: "u32 \<Rightarrow> card_phase \<Rightarrow> card_phase" where
  "time_passes t ph = (case ph of Programming k \<Rightarrow> if k \<le> unat t then Ready None else Programming (k - unat t) | _ \<Rightarrow> ph)"

definition memory_card :: "(card_phase \<times> (nat \<Rightarrow> u8)) sdmmchost" where
  "memory_card = \<lparr>
     TransferFunction = memory_card_transfer, IsCardBusy = (\<lambda>h. (False, h)),
     ExecuteTuning = (\<lambda>_ _ h. (kStatus_Success, h)), SetCardClock = (\<lambda>hz h. (hz, h)),
     OSA_TimeDelay = (\<lambda>t (ph, m). (time_passes t ph, m)), maxBlockCount = 2, maxBlockSize = 512\<rparr>"

lemma memory_answers [simp]:
  "flawless ready_answer" "flawless program_answer" "ready_status (resp0 ready_answer)"
  "\<not> ready_status (resp0 program_answer)"
  by (simp_all add: flawless_def ready_answer_def program_answer_def ready_status_def resp0_def SDMMC_R1_ALL_ERROR_FLAG_def
      R1SwitchErrorMask_def R1ReadyForDataMask_def SDMMC_R1_CURRENT_STATE_def kSDMMC_R1StateProgram_def)

lemma memory_card_simps [simp]:
  "TransferFunction memory_card = memory_card_transfer" "IsCardBusy memory_card h = (False, h)"
  "OSA_TimeDelay memory_card t h = (time_passes t (fst h), snd h)"
  by (simp_all add: memory_card_def split: prod.split)

lemma time_settles: "settles k ph \<Longrightarrow> settles (k - unat t) (time_passes t ph)"
  by (cases ph) (auto simp: settles_def time_passes_def intro!: diff_le_mono)

lemma settled_program: "settled (Programming 3)" "settled (Ready None)"
  by (simp_all add: settled_def settles_def)

lemma memory_card_waits: "waits_documented memory_card rca fst snd"
  unfolding waits_documented_def
proof (intro allI impI conjI)
  fix h :: "card_phase \<times> (nat \<Rightarrow> u8)" and k
  assume s: "settles k (fst h)"
  show "\<exists>b h'. IsCardBusy memory_card h = (b, h') \<and> (fst h = Ready None \<longrightarrow> \<not> b) \<and> settles k (fst h') \<and> snd h' = snd h"
    using s by (intro exI [of _ False] exI [of _ h]) simp
  show "settles (k - unat t) (fst (OSA_TimeDelay memory_card t h))" "snd (OSA_TimeDelay memory_card t h) = snd h" for t
    using s by (simp_all add: time_settles)
  show "\<exists>r b h'. TransferFunction memory_card (command kSDMMC_SendStatus (push_bit 16 rca) kCARD_ResponseTypeR1 0) None h =
      (kStatus_Success, r, b, h') \<and> flawless r \<and> (fst h = Ready None \<longrightarrow> ready_status (resp0 r)) \<and>
      (ready_status (resp0 r) \<longrightarrow> fst h' = Ready None) \<and> settles k (fst h') \<and> snd h' = snd h"
    using s by (cases h) (auto simp: settles_def memory_card_transfer_def command_def command_indices)
qed

lemma memory_card_transfers: "transfers_documented memory_card True cap fst snd"
  unfolding transfers_documented_def
  by (auto simp: memory_card_transfer_def memory_data_def command_def data_of_def byte_address_def settled_program Let_def)

lemma memory_card_documented: "card_documented memory_card True rca cap fst snd"
  unfolding card_documented_def
  by (auto simp: memory_card_waits memory_card_transfers memory_card_transfer_def command_def command_indices settled_program)

definition zero_cid :: mmc_cid where
  "zero_cid = \<lparr>manufacturerID = 0, applicationID = 0, productName = [0, 0, 0, 0, 0, 0], productVersion = 0,
     productSerialNumber = 0, manufacturerData = 0\<rparr>"

definition demo_card :: mmc_card where
  "demo_card = \<lparr>isHostReady = True, noInteralAlign = False, busClock_Hz = 0, relativeAddress = 2,
     enablePreDefinedBlockCount = True, flags = kMMC_SupportHighCapacityFlag, ocr = 0, cid = zero_cid,
     csd = csd_of [0, 0, 0, 0] 0, extendedCsd = undefined, blockSize = 512, userPartitionBlocks = 8,
     bootPartitionBlocks = 0, eraseGroupBlocks = 4, currentPartition = kMMC_AccessPartitionUserAera,
     hostVoltageWindowVCCQ = kMMC_VoltageWindow170to195, hostVoltageWindowVCC = kMMC_VoltageWindows270to360,
     busTiming = kMMC_HighSpeedTiming, busWidth = kMMC_DataBusWidth8bit\<rparr>"

lemma demo_card_simps [simp]:
  "high_capacity demo_card" "relativeAddress demo_card = 2" "partition_blocks demo_card = Some 8"
  "eraseGroupBlocks demo_card = 4" "fits memory_card demo_card 8"
  by (simp_all add: demo_card_def high_capacity_def kMMC_SupportHighCapacityFlag_def partition_blocks_def fits_def
      memory_card_def)

section \<open>Properties\<close>

text \<open>
  C29. Polling for the end of the busy state always returns, after at most as many rounds as the timeout has
  milliseconds (modulo \<open>2 ^ 29\<close>, as the conversion to microseconds wraps; one round when that is 0): the loop that counts
  microseconds down by the delay actually waited is the bounded iteration \<open>poll_rounds\<close>, whatever the host
  and the card answer.
\<close>

theorem polling_ends:
  "MMC_PollingCardStatusBusy H c checkStatus timeoutMs h =
     Some (poll_rounds H c checkStatus kStatus_SDMMC_CardStatusBusy (unat timeoutMs mod 2 ^ 29) h)"
proof -
  have "timeoutMs * 1000 = of_nat (unat timeoutMs mod 2 ^ 29) * 1000"
  proof (rule word_unat_eq_iff [THEN iffD2])
    have "unat (timeoutMs * 1000) = (unat timeoutMs * 1000) mod 2 ^ 32" by (simp add: unat_word_ariths)
    also have "\<dots> = 8 * ((unat timeoutMs * 125) mod 2 ^ 29)"
      using mult_mod_right [of 8 "unat timeoutMs * 125" "2 ^ 29"] by (simp add: mult.commute)
    also have "\<dots> = 8 * (((unat timeoutMs mod 2 ^ 29) * 125) mod 2 ^ 29)" by (simp only: mod_mult_left_eq)
    also have "\<dots> = ((unat timeoutMs mod 2 ^ 29) * 1000) mod 2 ^ 32"
      using mult_mod_right [of 8 "(unat timeoutMs mod 2 ^ 29) * 125" "2 ^ 29"] by (simp add: mult.commute)
    also have "\<dots> = unat (of_nat (unat timeoutMs mod 2 ^ 29) * 1000 :: u32)"
      by (simp add: unat_word_ariths unat_of_nat mod_mult_left_eq)
    finally show "unat (timeoutMs * 1000) = unat (of_nat (unat timeoutMs mod 2 ^ 29) * 1000 :: u32)" .
  qed
  then show ?thesis by (simp only: MMC_PollingCardStatusBusy_def) (simp add: poll_loop_rounds)
qed

text \<open>
  C28. On a card that follows the documented protocol, \<open>MMC_WriteBlocks\<close> of at least one block within the
  current partition succeeds and changes exactly the bytes of those blocks, and \<open>MMC_ReadBlocks\<close> then returns
  what was written, also when it is called while the card still programs: for every alignment of the two buffers,
  every limit of the host on blocks per command, with and without pre-defined block counts, on byte- and on
  sector-addressed cards. Each command waits until the card has finished programming, and each transfer of
  several blocks is announced by CMD23 or ended by CMD12.
\<close>

theorem blocks_roundtrip:
  assumes "card_documented H (high_capacity c) (relativeAddress c) cap phase mem" "fits H c cap" "settled (phase h)"
    and "partition_blocks c = Some pb" "unat start + unat count \<le> unat pb" "count \<noteq> 0"
    and "length bs = 512 * unat count" "length buf = 512 * unat count"
  shows "\<exists>h1 h2. MMC_WriteBlocks H c waddr bs start count h = Some (kStatus_Success, h1) \<and>
    mem h1 = overlay (512 * unat start) bs (mem h) \<and> settled (phase h1) \<and>
    MMC_ReadBlocks H c raddr buf start count h1 = Some (kStatus_Success, bs, h2) \<and> mem h2 = mem h1 \<and> settled (phase h2)"
proof -
  note range = check_block_range_ok [OF assms(4-6)]
  obtain h1 where w: "write_blocks_loop H c waddr bs start True 0 count h = Some (kStatus_Success, h1)" "settled (phase h1)"
      "mem h1 = overlay (512 * unat start) bs (mem h)"
    using write_blocks_loop_works [OF assms(1,2,4,3), of bs 0 count start waddr True] assms(5,7) by auto
  obtain h2 where r: "read_blocks_loop H c raddr start True 0 count buf h1 =
      Some (kStatus_Success, stretch (mem h1) (512 * unat start) (512 * unat count), h2)" "settled (phase h2)" "mem h2 = mem h1"
    using read_blocks_loop_works [OF assms(1,2,4) w(2), of True "[]" 0 buf count start raddr] assms(5,8) by auto
  have "stretch (mem h1) (512 * unat start) (512 * unat count) = bs"
    using w(3) stretch_overlay [of "512 * unat start" bs] assms(7) by simp
  then show ?thesis using w r range by (simp add: MMC_WriteBlocks_def MMC_ReadBlocks_def)
qed

theorem blocks_roundtrip_witness:
  "\<exists>h1 h2. MMC_WriteBlocks memory_card demo_card 0x20001 (replicate 1536 7) 5 3 (Ready None, \<lambda>_. 0) = Some (kStatus_Success, h1) \<and>
    snd h1 = overlay 2560 (replicate 1536 7) (\<lambda>_. 0) \<and>
    MMC_ReadBlocks memory_card demo_card 0x30000 (replicate 1536 0) 5 3 h1 = Some (kStatus_Success, replicate 1536 7, h2)"
  using blocks_roundtrip [of memory_card demo_card 8 fst snd "(Ready None, \<lambda>_. 0)" 8 5 3 "replicate 1536 7" "replicate 1536 0"
      "0x20001" "0x30000"] memory_card_documented [of 2 8]
  by (auto simp: settled_program)

text \<open>A range of blocks that ends exactly at \<open>2 ^ 32\<close> is accepted on every card.\<close>

lemma block_range_wraps:
  assumes "partition_blocks c = Some pb" "count \<noteq> 0"
  shows "MMC_CheckBlockRange c (- count) count = Some kStatus_Success"
  using assms by (simp add: MMC_CheckBlockRange_def)

text \<open>
  \<open>MMC_SetRelativeAddress\<close> accepts a transfer that failed when the response word is zero, which it is
  when the card did not answer: it reports success and records the address.
\<close>

theorem relative_address_ignores_failure:
  assumes "TransferFunction H
      (command kMMC_SetRelativeAddress (push_bit 16 MMC_DEFAULT_RELATIVE_ADDRESS) kCARD_ResponseTypeR1 0) None h =
      (e, [0, 0, 0, 0], b, h1)"
  shows "MMC_SetRelativeAddress H c h = (kStatus_Success, c\<lparr>relativeAddress := 2\<rparr>, h1)"
  using assms by (simp add: MMC_SetRelativeAddress_def resp0_def MMC_DEFAULT_RELATIVE_ADDRESS_def)

theorem relative_address_ignores_failure_witness:
  "MMC_SetRelativeAddress
     (memory_card\<lparr>TransferFunction := \<lambda>cmd d h. (kStatus_SDMMC_TransferFailed, [0, 0, 0, 0], [], h)\<rparr>) demo_card (Ready None, \<lambda>_. 0) =
   (kStatus_Success, demo_card, (Ready None, \<lambda>_. 0))"
  using relative_address_ignores_failure
      [of "memory_card\<lparr>TransferFunction := \<lambda>cmd d h. (kStatus_SDMMC_TransferFailed, [0, 0, 0, 0], [], h)\<rparr>" "(Ready None, \<lambda>_. 0)"
        kStatus_SDMMC_TransferFailed "[]" "(Ready None, \<lambda>_. 0)" demo_card]
  by (simp add: demo_card_def)

lemma unat_widen16: "unat (ucast (x :: u16) :: u32) = unat x"
  using unsigned_less [where 'a = nat, of x] by (simp add: unsigned_ucast_eq take_bit_nat_eq_self)

lemma csd_size_bounds:
  "unat (deviceSize (csd_of raw fl)) < 0x1000" "unat (deviceSizeMultiplier (csd_of raw fl)) < 8"
proof -
  have 1: "unat (raw ! 2 AND 0x3FF) \<le> 0x3FF" using word_and_le1 [of "raw ! 2" "0x3FF"] by (simp add: word_le_nat_alt)
  have 2: "unat (push_bit 2 (raw ! 2 AND 0x3FF)) = 4 * unat (raw ! 2 AND 0x3FF)"
    using 1 by (simp add: push_bit_eq_mult unat_word_ariths)
  have 3: "unat (drop_bit 30 (raw ! 1 AND 0xC0000000)) < 4"
    using u32_bound [of "raw ! 1 AND 0xC0000000"] by (simp add: drop_bit_eq_div unat_div)
  have "unat (push_bit 2 (raw ! 2 AND 0x3FF) + drop_bit 30 (raw ! 1 AND 0xC0000000)) < 0x1000"
    using 1 2 3 by (subst unat_add_no_wrap) simp_all
  then show "unat (deviceSize (csd_of raw fl)) < 0x1000"
    by (simp add: csd_of_def unsigned_ucast_eq take_bit_nat_eq_self)
  have "unat (raw ! 1 AND 0x38000) \<le> 0x38000" using word_and_le1 [of "raw ! 1" "0x38000"] by (simp add: word_le_nat_alt)
  then have "unat (drop_bit 15 (raw ! 1 AND 0x38000)) < 8" by (simp add: drop_bit_eq_div unat_div)
  then show "unat (deviceSizeMultiplier (csd_of raw fl)) < 8"
    by (simp add: csd_of_def field8_def unsigned_ucast_eq take_bit_nat_eq_self)
qed

text \<open>
  The capacity a CSD stands for is \<open>(C_SIZE + 1) * 2 ^ (C_SIZE_MULT + 2)\<close> blocks; the driver divides this
  number of blocks by the block size of 512 once more.
\<close>

theorem csd_capacity:
  assumes "deviceSize (csd (MMC_DecodeCsd raw c)) \<noteq> 0xFFF"
  shows "unat (userPartitionBlocks (MMC_DecodeCsd raw c)) =
    (unat (deviceSize (csd (MMC_DecodeCsd raw c))) + 1) *
      2 ^ (unat (deviceSizeMultiplier (csd (MMC_DecodeCsd raw c))) + 2) div 512"
proof -
  define d where "d = csd_of raw (csd_flags (csd c))"
  have d: "deviceSize d \<noteq> 0xFFF" "unat (deviceSize d) < 0x1000" "unat (deviceSizeMultiplier d) < 8"
    using assms csd_size_bounds by (auto simp: d_def MMC_DecodeCsd_def Let_def split: if_splits)
  have s: "csd (MMC_DecodeCsd raw c) = d" "userPartitionBlocks (MMC_DecodeCsd raw c) = csd_user_blocks d"
    using d(1) by (simp_all add: MMC_DecodeCsd_def Let_def flip: d_def)
  define k where "k = unat (deviceSizeMultiplier d)"
  have k: "k < 8" using d(3) by (simp add: k_def)
  then have "k = 0 \<or> k = 1 \<or> k = 2 \<or> k = 3 \<or> k = 4 \<or> k = 5 \<or> k = 6 \<or> k = 7" by linarith
  then have m0: "unat (push_bit (k + 2 - 1) (2 :: u32)) = 2 ^ (k + 2)" "(2 :: nat) ^ (k + 2) \<le> 512"
    by (elim disjE; simp)+
  define M where "M = push_bit (k + 2 - 1) (2 :: u32)"
  define A where "A = (ucast (deviceSize d) + 1 :: u32)"
  have m: "unat M = 2 ^ (k + 2)" "unat M \<le> 512" using m0 by (simp_all only: M_def)
  have a: "unat A = unat (deviceSize d) + 1"
    unfolding A_def using d(2) by (subst unat_add_no_wrap) (simp_all add: unat_widen16)
  have "unat A * unat M \<le> 4096 * 512" using d(2) m(2) a by (intro mult_le_mono) simp_all
  then have "unat (A * M) = unat A * unat M" by (simp add: unat_word_ariths)
  moreover have "csd_user_blocks d = A * M div 512"
    unfolding csd_user_blocks_def A_def M_def k_def Let_def FSL_SDMMC_DEFAULT_BLOCK_SIZE_def by (rule refl)
  ultimately have "unat (csd_user_blocks d) = (unat (deviceSize d) + 1) * 2 ^ (k + 2) div 512"
    by (simp add: unat_div a m(1))
  then show ?thesis unfolding s k_def .
qed

theorem csd_capacity_witness:
  "unat (userPartitionBlocks (MMC_DecodeCsd [0, 0xC0038000, 0x3BF, 0] demo_card)) = 3840"
  using csd_capacity [of "[0, 0xC0038000, 0x3BF, 0]" demo_card]
  by (simp add: MMC_DecodeCsd_def Let_def csd_of_def field8_def)

text \<open>How a card lays out its identification register.\<close>

definition encode_cid :: "mmc_cid \<Rightarrow> u32 list" where
  "encode_cid x =
     (let n = (\<lambda>i. ucast (productName x ! i) :: u32); sn = productSerialNumber x
      in [push_bit 16 sn OR push_bit 8 (ucast (manufacturerData x)),
          push_bit 24 (n 5) OR push_bit 16 (ucast (productVersion x)) OR drop_bit 16 sn,
          push_bit 24 (n 1) OR push_bit 16 (n 2) OR push_bit 8 (n 3) OR n 4,
          push_bit 24 (ucast (manufacturerID x)) OR push_bit 8 (ucast (applicationID x)) OR n 0])"

lemma u8_eqI: "(\<And>i. i \<in> {0, 1, 2, 3, 4, 5, 6, 7} \<Longrightarrow> bit a i = bit b i) \<Longrightarrow> a = (b :: u8)"
  by (rule bit_word_eqI) (simp add: numeral_eq_Suc less_Suc_eq)

lemma u16_eqI: "(\<And>i. i < 16 \<Longrightarrow> bit a i = bit b i) \<Longrightarrow> a = (b :: u16)"
  by (rule bit_word_eqI) simp

lemma bit_above_u8: "8 \<le> i \<Longrightarrow> \<not> bit (x :: u8) i"
  using bit_imp_le_length [of x i] by auto

lemma bit_above_u16: "16 \<le> i \<Longrightarrow> \<not> bit (x :: u16) i"
  using bit_imp_le_length [of x i] by auto

lemma u16_cases: "(i :: nat) < 16 \<Longrightarrow>
  i \<in> {0, 1, 2, 3, 4, 5, 6, 7, 8, 9, 10, 11, 12, 13, 14, 15}"
  by (simp add: numeral_eq_Suc less_Suc_eq)

lemma halves: "push_bit 16 ((drop_bit 16 s OR x) AND 0xFFFF) OR drop_bit 16 ((push_bit 16 s OR y) AND 0xFFFF0000) = (s :: u32)"
  if "x AND 0xFFFF = 0" "drop_bit 16 y = 0"
proof -
  have 1: "(drop_bit 16 s OR x) AND 0xFFFF = drop_bit 16 s"
  proof -
    have "drop_bit 16 s AND 0xFFFF = drop_bit 16 s"
      using take_bit_eq_mask [of 16 "drop_bit 16 s"] by (simp add: mask_eq_exp_minus_1 take_bit_drop_bit take_bit_word_eq_self)
    then show ?thesis using that(1) by (simp add: bit.conj_disj_distrib2)
  qed
  have 2: "drop_bit 16 ((push_bit 16 s OR y) AND 0xFFFF0000) = take_bit 16 s"
  proof (rule bit_word_eqI)
    fix n :: nat assume "n < LENGTH(32)"
    have y: "\<not> bit y (16 + n)" using that(2) by (metis bit_0_eq bit_drop_bit_eq bot_apply bot_bool_def comp_apply)
    have "bit (0xFFFF0000 :: u32) (16 + n) \<longleftrightarrow> n < 16"
    proof -
      have e: "(0xFFFF0000 :: u32) = push_bit 16 (mask 16)" by (simp add: mask_eq_exp_minus_1)
      show ?thesis unfolding e by (auto simp: bit_simps)
    qed
    then show "bit (drop_bit 16 ((push_bit 16 s OR y) AND 0xFFFF0000)) n = bit (take_bit 16 s) n"
      using y \<open>n < LENGTH(32)\<close>
      by (simp only: bit_drop_bit_eq comp_def bit_and_iff bit_or_iff bit_push_bit_iff bit_take_bit_iff) auto
  qed
  show ?thesis unfolding 1 2
    by (rule bit_word_eqI) (auto simp: bit_simps)
qed

text \<open>
  C30. Decoding the identification register recovers every field that a card encodes in it.
\<close>

theorem cid_roundtrip:
  assumes "length (productName x) = 6"
  shows "cid (MMC_DecodeCid (encode_cid x) c) = x"
proof -
  obtain n0 n1 n2 n3 n4 n5 where n: "productName x = [n0, n1, n2, n3, n4, n5]"
    using assms by (auto simp: numeral_eq_Suc length_Suc_conv)
  obtain man app ver sn md where x: "x = \<lparr>manufacturerID = man, applicationID = app,
      productName = [n0, n1, n2, n3, n4, n5], productVersion = ver, productSerialNumber = sn, manufacturerData = md\<rparr>"
    using n by (cases x) simp
  define r0 r1 r2 r3 :: u32 where r:
    "r0 = push_bit 16 sn OR push_bit 8 (ucast md)"
    "r1 = push_bit 24 (ucast n5) OR push_bit 16 (ucast ver) OR drop_bit 16 sn"
    "r2 = push_bit 24 (ucast n1) OR push_bit 16 (ucast n2) OR push_bit 8 (ucast n3) OR ucast n4"
    "r3 = push_bit 24 (ucast man) OR push_bit 8 (ucast app) OR ucast n0"
  have e: "encode_cid x = [r0, r1, r2, r3]" by (simp add: encode_cid_def x r)
  have serial: "push_bit 16 (r1 AND 0xFFFF) OR drop_bit 16 (r0 AND 0xFFFF0000) = sn"
  proof -
    have m: "(0xFFFF :: u32) = mask 16" by (simp add: mask_eq_exp_minus_1)
    have 1: "(push_bit 24 (ucast n5) OR push_bit 16 (ucast ver)) AND 0xFFFF = (0 :: u32)"
      unfolding m by (rule bit_word_eqI) (auto simp: bit_simps)
    have 2: "drop_bit 16 (push_bit 8 (ucast md)) = (0 :: u32)"
      by (rule bit_word_eqI) (auto simp: bit_simps bit_above_u8)
    show ?thesis unfolding r using halves [OF 1 2, of sn] by (simp only: ac_simps)
  qed
  have app: "field16 0xFFFF00 8 r3 = app"
    unfolding field16_def r
    by (rule u16_eqI) (drule u16_cases, elim insertE emptyE; simp add: bit_simps bit_above_u8)
  have "field8 0xFF000000 24 r3 = man" "field8 0xFF 0 r3 = n0" "field8 0xFF000000 24 r2 = n1" "field8 0xFF0000 16 r2 = n2"
    "field8 0xFF00 8 r2 = n3" "field8 0xFF 0 r2 = n4" "field8 0xFF000000 24 r1 = n5" "field8 0xFF0000 16 r1 = ver"
    "field8 0xFF00 8 r0 = md"
    unfolding field8_def r
    by (rule u8_eqI, elim insertE emptyE; simp add: bit_simps bit_above_u8 bit_above_u16)+
  then show ?thesis unfolding e MMC_DecodeCid_def using serial app by (simp add: x)
qed

theorem cid_roundtrip_witness:
  "let x = \<lparr>manufacturerID = 0x15, applicationID = 0x100, productName = [1, 2, 3, 4, 5, 6], productVersion = 0x20,
      productSerialNumber = 0xDEADBEEF, manufacturerData = 0x47\<rparr>
   in cid (MMC_DecodeCid (encode_cid x) demo_card) = x"
  unfolding Let_def by (rule cid_roundtrip) simp

end
