(* ===== verification/AudioStream.thy ===== *)
theory AudioStream
  imports Fifo
begin

text \<open>
  The block stream between audio endpoints, \<^verbatim>\<open>src/module-audio/Audio/Stream.cpp\<close>: a circular buffer of
  equally sized blocks with copying access (push, pop) and zero-copy access (peek/consume, reserve/commit).
  An iterator over the buffer always stands at the start of a block and is the index of that block. Counters
  are 32-bit words. Each method holds a critical section, so that it is one step. Listeners are opaque
  identifiers, and what they are sent is recorded in a log.
\<close>

section \<open>Model\<close>

datatype stream_event = StreamFull | StreamHalfUsed | StreamEmpty | StreamOverflow | StreamUnderFlow

record stream =
  buffer :: "u8 list list"
  block_size :: nat
  block_count :: u32
  blocks_used :: u32
  peek_count :: u32
  reserve_count :: u32
  data_start :: nat
  data_end :: nat
  peek_position :: nat
  write_reservation :: nat
  listeners :: "nat list"
  event_log :: "(nat \<times> stream_event) list"

text \<open>A span handed out for zero-copy access: a block of the buffer, or the block of zeros.\<close>

datatype span = Block nat | NullSpan

definition init_stream :: "nat \<Rightarrow> u32 \<Rightarrow> stream" where
  "init_stream bs n = \<lparr>buffer = replicate (unat n) (replicate bs 0), block_size = bs, block_count = n, blocks_used = 0,
     peek_count = 0, reserve_count = 0, data_start = 0, data_end = 0, peek_position = 0, write_reservation = 0,
     listeners = [], event_log = []\<rparr>"

definition next_block :: "stream \<Rightarrow> nat \<Rightarrow> nat" where
  "next_block st i = (if i + 1 = unat (block_count st) then 0 else i + 1)"

definition prev_block :: "stream \<Rightarrow> nat \<Rightarrow> nat" where
  "prev_block st i = (if i = 0 then unat (block_count st) - 1 else i - 1)"

definition broadcast_event :: "stream_event \<Rightarrow> stream \<Rightarrow> stream" where
  "broadcast_event e st = st\<lparr>event_log := event_log st @ map (\<lambda>l. (l, e)) (listeners st)\<rparr>"

definition is_empty :: "stream \<Rightarrow> bool" where
  "is_empty st \<longleftrightarrow> blocks_used st = 0"

definition is_full :: "stream \<Rightarrow> bool" where
  "is_full st \<longleftrightarrow> blocks_used st = block_count st"

definition broadcast_state_events :: "stream \<Rightarrow> stream" where
  "broadcast_state_events st =
     (if blocks_used st = block_count st div 2 then broadcast_event StreamHalfUsed st
      else if is_empty st then broadcast_event StreamEmpty st
      else if is_full st then broadcast_event StreamFull st
      else st)"

definition null_span :: "stream \<Rightarrow> u8 list" where
  "null_span st = replicate (block_size st) 0"

definition stream_push :: "u8 list \<Rightarrow> stream \<Rightarrow> bool \<times> stream" where
  "stream_push bs st =
     (if length bs \<noteq> block_size st then (False, st)
      else if data_end st \<noteq> write_reservation st then (False, st)
      else if is_full st then (False, broadcast_event StreamOverflow st)
      else let st1 = st\<lparr>buffer := (buffer st)[data_end st := bs], data_end := next_block st (data_end st),
                       blocks_used := blocks_used st + 1, write_reservation := next_block st (data_end st)\<rparr>
           in (True, broadcast_state_events st1))"

definition stream_push_null :: "stream \<Rightarrow> bool \<times> stream" where
  "stream_push_null st = stream_push (null_span st) st"

text \<open>The caller's span is given by its size; \<open>None\<close> means that nothing was copied into it.\<close>

definition stream_pop :: "nat \<Rightarrow> stream \<Rightarrow> bool \<times> u8 list option \<times> stream" where
  "stream_pop n st =
     (if n \<noteq> block_size st then (False, None, st)
      else if data_start st \<noteq> peek_position st then (False, None, st)
      else if is_empty st then (False, None, broadcast_event StreamUnderFlow st)
      else let st1 = st\<lparr>data_start := next_block st (data_start st), blocks_used := blocks_used st - 1,
                       peek_position := next_block st (data_start st)\<rparr>
           in (True, Some (buffer st ! data_start st), broadcast_state_events st1))"

definition stream_consume :: "stream \<Rightarrow> stream" where
  "stream_consume st =
     broadcast_state_events
       (st\<lparr>blocks_used := blocks_used st - peek_count st, peek_count := 0, data_start := peek_position st\<rparr>)"

definition stream_peek :: "stream \<Rightarrow> bool \<times> span \<times> stream" where
  "stream_peek st =
     (if peek_count st < blocks_used st
      then (True, Block (peek_position st),
            st\<lparr>peek_position := next_block st (peek_position st), peek_count := peek_count st + 1\<rparr>)
      else (False, NullSpan, broadcast_event StreamUnderFlow st))"

definition stream_unpeek :: "stream \<Rightarrow> stream" where
  "stream_unpeek st = st\<lparr>peek_position := data_start st, peek_count := 0\<rparr>"

definition stream_reserve :: "stream \<Rightarrow> bool \<times> span \<times> stream" where
  "stream_reserve st =
     (if block_count st - blocks_used st > reserve_count st
      then let w = next_block st (write_reservation st)
           in (True, Block w, st\<lparr>write_reservation := w, reserve_count := reserve_count st + 1\<rparr>)
      else let w = next_block st (peek_position st)
           in (False, Block w,
               broadcast_event StreamOverflow
                 (st\<lparr>blocks_used := 0, data_end := peek_position st, reserve_count := 1, write_reservation := w\<rparr>)))"

definition stream_commit :: "stream \<Rightarrow> stream" where
  "stream_commit st =
     broadcast_state_events
       (st\<lparr>blocks_used := blocks_used st + reserve_count st, reserve_count := 0, data_end := write_reservation st\<rparr>)"

definition stream_release :: "stream \<Rightarrow> stream" where
  "stream_release st = st\<lparr>reserve_count := 0, write_reservation := data_end st\<rparr>"

definition stream_reset :: "stream \<Rightarrow> stream" where
  "stream_reset st = st\<lparr>data_start := 0, data_end := 0, peek_position := 0, write_reservation := 0,
     blocks_used := 0, peek_count := 0, reserve_count := 0\<rparr>"

definition register_listener :: "nat \<Rightarrow> stream \<Rightarrow> stream" where
  "register_listener l st = st\<lparr>listeners := listeners st @ [l]\<rparr>"

definition unregister_listeners :: "nat \<Rightarrow> stream \<Rightarrow> stream" where
  "unregister_listeners l st = st\<lparr>listeners := remove1 l (listeners st)\<rparr>"

text \<open>What the owner of a reserved span does with it.\<close>

definition fill_span :: "span \<Rightarrow> u8 list \<Rightarrow> stream \<Rightarrow> stream" where
  "fill_span s bs st = (case s of Block i \<Rightarrow> st\<lparr>buffer := (buffer st)[i := bs]\<rparr> | NullSpan \<Rightarrow> st)"

section \<open>What a stream stands for\<close>

abbreviation cap :: "stream \<Rightarrow> nat" where
  "cap st \<equiv> unat (block_count st)"

definition stream_at :: "stream \<Rightarrow> nat \<Rightarrow> u8 list" where
  "stream_at st k = buffer st ! ((data_start st + k) mod cap st)"

definition contents :: "stream \<Rightarrow> u8 list list" where
  "contents st = map (stream_at st) [0..<unat (blocks_used st)]"

definition stream_inv :: "stream \<Rightarrow> bool" where
  "stream_inv st \<longleftrightarrow>
     0 < cap st \<and> length (buffer st) = cap st \<and> (\<forall>b\<in>set (buffer st). length b = block_size st) \<and>
     data_start st < cap st \<and> unat (blocks_used st) + unat (reserve_count st) \<le> cap st \<and>
     unat (peek_count st) \<le> unat (blocks_used st) \<and>
     data_end st = (data_start st + unat (blocks_used st)) mod cap st \<and>
     peek_position st = (data_start st + unat (peek_count st)) mod cap st \<and>
     write_reservation st = (data_end st + unat (reserve_count st)) mod cap st"

lemma next_block_mod: "0 < cap st \<Longrightarrow> next_block st (i mod cap st) = (i + 1) mod cap st"
  by (simp add: next_block_def mod_Suc)

lemma next_block_pos: "i < cap st \<Longrightarrow> next_block st i = (i + 1) mod cap st"
  by (simp add: next_block_def)

lemma prev_next: "i < cap st \<Longrightarrow> prev_block st (next_block st i) = i"
  by (auto simp: prev_block_def next_block_def)


lemma broadcast_fields [simp]:
  "buffer (broadcast_event e st) = buffer st" "block_size (broadcast_event e st) = block_size st"
  "block_count (broadcast_event e st) = block_count st" "blocks_used (broadcast_event e st) = blocks_used st"
  "peek_count (broadcast_event e st) = peek_count st" "reserve_count (broadcast_event e st) = reserve_count st"
  "data_start (broadcast_event e st) = data_start st" "data_end (broadcast_event e st) = data_end st"
  "peek_position (broadcast_event e st) = peek_position st"
  "write_reservation (broadcast_event e st) = write_reservation st" "listeners (broadcast_event e st) = listeners st"
  by (simp_all add: broadcast_event_def)

lemma broadcast_state_fields [simp]:
  "buffer (broadcast_state_events st) = buffer st" "block_size (broadcast_state_events st) = block_size st"
  "block_count (broadcast_state_events st) = block_count st" "blocks_used (broadcast_state_events st) = blocks_used st"
  "peek_count (broadcast_state_events st) = peek_count st" "reserve_count (broadcast_state_events st) = reserve_count st"
  "data_start (broadcast_state_events st) = data_start st" "data_end (broadcast_state_events st) = data_end st"
  "peek_position (broadcast_state_events st) = peek_position st"
  "write_reservation (broadcast_state_events st) = write_reservation st"
  "listeners (broadcast_state_events st) = listeners st"
  by (simp_all add: broadcast_state_events_def)

section \<open>Arithmetic of positions\<close>

lemma count_inc: "unat (a :: u32) < unat (n :: u32) \<Longrightarrow> unat (a + 1) = unat a + 1"
  using u32_bound [of n] by (subst unat_add_no_wrap) auto

lemma count_dec: "a \<noteq> 0 \<Longrightarrow> unat (a - 1 :: u32) = unat a - 1"
  using unat_gt_0 [of a] by (subst unat_sub) (auto simp: word_le_nat_alt)

lemma count_neq: "(a :: u32) \<noteq> b \<Longrightarrow> unat a \<noteq> unat b"
  by (simp add: word_unat_eq_iff)

lemma mod_shift_neq: "k < u \<Longrightarrow> u < n \<Longrightarrow> (s + k) mod n \<noteq> (s + u) mod (n :: nat)"
proof
  assume a: "k < u" "u < n" "(s + k) mod n = (s + u) mod n"
  then have "n dvd (s + u) - (s + k)" by (metis add_le_cancel_left less_imp_le mod_eq_dvd_iff_nat)
  then show False using a(1,2) dvd_imp_le [of n "u - k"] by simp
qed

lemma mod_full_turn: "d < n \<Longrightarrow> (d + r) mod n = d \<Longrightarrow> r \<le> n \<Longrightarrow> r = 0 \<or> r = (n :: nat)"
  using mod_shift_neq [of 0 r n d] by (cases "r = 0"; cases "r = n") auto

lemma stream_invD:
  assumes "stream_inv st"
  shows "0 < cap st" "length (buffer st) = cap st" "\<forall>b\<in>set (buffer st). length b = block_size st" "data_start st < cap st"
    "unat (blocks_used st) + unat (reserve_count st) \<le> cap st" "unat (peek_count st) \<le> unat (blocks_used st)"
    "data_end st = (data_start st + unat (blocks_used st)) mod cap st"
    "peek_position st = (data_start st + unat (peek_count st)) mod cap st"
    "write_reservation st = (data_end st + unat (reserve_count st)) mod cap st"
    "data_end st < cap st" "peek_position st < cap st" "write_reservation st < cap st"
  using assms by (auto simp: stream_inv_def)

section \<open>Each operation\<close>

lemma stream_push_cases:
  assumes inv: "stream_inv st" and len: "length bs = block_size st"
  shows "stream_push bs st =
    (if data_end st \<noteq> write_reservation st then (False, st)
     else if is_full st then (False, broadcast_event StreamOverflow st)
     else (True, broadcast_state_events
       (st\<lparr>buffer := (buffer st)[data_end st := bs], data_end := next_block st (data_end st),
           blocks_used := blocks_used st + 1, write_reservation := next_block st (data_end st)\<rparr>)))"
  using len by (simp add: stream_push_def Let_def)

lemma stream_push_works:
  assumes inv: "stream_inv st" and len: "length bs = block_size st" and r: "reserve_count st = 0"
    and room: "unat (blocks_used st) < cap st"
  shows "\<exists>st'. stream_push bs st = (True, st') \<and> stream_inv st' \<and> contents st' = contents st @ [bs] \<and>
    block_count st' = block_count st \<and> block_size st' = block_size st \<and> peek_count st' = peek_count st \<and> reserve_count st' = 0"
proof -
  note I = stream_invD [OF inv]
  let ?n = "cap st" and ?u = "unat (blocks_used st)"
  define st1 where "st1 = st\<lparr>buffer := (buffer st)[data_end st := bs], data_end := next_block st (data_end st),
      blocks_used := blocks_used st + 1, write_reservation := next_block st (data_end st)\<rparr>"
  have w: "write_reservation st = data_end st" using I(9,10) r by simp
  have p: "stream_push bs st = (True, broadcast_state_events st1)"
    using room w by (auto simp: stream_push_cases [OF inv len] is_full_def st1_def)
  have u1: "unat (blocks_used st + 1) = ?u + 1" using room by (rule count_inc)
  have e1: "next_block st (data_end st) = (data_start st + (?u + 1)) mod ?n"
    using next_block_pos [OF I(10)] I(7) by (simp add: mod_Suc_eq)
  have sub: "b \<in> set ((buffer st)[data_end st := bs]) \<Longrightarrow> length b = block_size st" for b
    using I(3) len set_update_subset_insert [of "buffer st" "data_end st" bs] by auto
  have "stream_inv (broadcast_state_events st1)"
    using I(1,2,4,6,8) r room u1 e1 sub by (auto simp: stream_inv_def st1_def mod_Suc_eq)
  moreover have "contents (broadcast_state_events st1) = contents st @ [bs]"
  proof -
    have "stream_at (broadcast_state_events st1) k = stream_at st k" if "k < ?u" for k
      using mod_shift_neq [OF that room, of "data_start st"] I(7) by (simp add: stream_at_def st1_def)
    moreover have "stream_at (broadcast_state_events st1) ?u = bs"
      using I(2,7,10) by (simp add: stream_at_def st1_def)
    ultimately show ?thesis using u1 by (simp add: contents_def st1_def)
  qed
  ultimately show ?thesis using p r by (simp add: st1_def)
qed

lemma stream_pop_works:
  assumes inv: "stream_inv st" and pk: "peek_count st = 0" and ne: "blocks_used st \<noteq> 0"
  shows "\<exists>st'. stream_pop (block_size st) st = (True, Some (hd (contents st)), st') \<and> stream_inv st' \<and>
    contents st' = tl (contents st) \<and>
    block_count st' = block_count st \<and> block_size st' = block_size st \<and> peek_count st' = 0 \<and> reserve_count st' = reserve_count st"
proof -
  note I = stream_invD [OF inv]
  let ?n = "cap st" and ?u = "unat (blocks_used st)"
  define st1 where "st1 = st\<lparr>data_start := next_block st (data_start st), blocks_used := blocks_used st - 1,
      peek_position := next_block st (data_start st)\<rparr>"
  have q: "peek_position st = data_start st" using I(4,8) pk by simp
  have u: "unat (blocks_used st - 1) = ?u - 1" "0 < ?u" using ne count_dec by (simp_all add: unat_gt_0)
  have s1: "next_block st (data_start st) = (data_start st + 1) mod ?n" by (rule next_block_pos [OF I(4)])
  have c: "contents st = (buffer st ! data_start st) # map (stream_at st) [1..<?u]"
    using u(2) I(4) by (simp add: contents_def upt_conv_Cons stream_at_def)
  have p: "stream_pop (block_size st) st = (True, Some (hd (contents st)), broadcast_state_events st1)"
    using q ne by (simp add: stream_pop_def is_empty_def st1_def Let_def c)
  have "((data_start st + 1) mod ?n + (?u - 1)) mod ?n = (data_start st + 1 + (?u - 1)) mod ?n"
    by (rule mod_add_left_eq)
  also have "data_start st + 1 + (?u - 1) = data_start st + ?u" using u(2) by simp
  finally have "((data_start st + 1) mod ?n + (?u - 1)) mod ?n = (data_start st + ?u) mod ?n" .
  then have "stream_inv (broadcast_state_events st1)"
    using I(1,2,3,5,7,9) pk u s1 by (simp add: stream_inv_def st1_def)
  moreover have "contents (broadcast_state_events st1) = map (stream_at st) [1..<?u]"
  proof (rule nth_equalityI)
    show "length (contents (broadcast_state_events st1)) = length (map (stream_at st) [1..<?u])"
      using u by (simp add: contents_def st1_def)
    fix i assume "i < length (contents (broadcast_state_events st1))"
    then have "i < ?u - 1" using u by (simp add: contents_def st1_def)
    moreover have "((data_start st + 1) mod ?n + i) mod ?n = (data_start st + (1 + i)) mod ?n"
      by (simp add: mod_add_left_eq)
    ultimately show "contents (broadcast_state_events st1) ! i = map (stream_at st) [1..<?u] ! i"
      using u s1 by (simp add: contents_def stream_at_def st1_def)
  qed
  ultimately show ?thesis using p c pk by (simp add: st1_def)
qed

lemma stream_peek_works:
  assumes inv: "stream_inv st" and more: "unat (peek_count st) < unat (blocks_used st)"
  shows "\<exists>st'. stream_peek st = (True, Block (peek_position st), st') \<and> stream_inv st' \<and>
    buffer st ! peek_position st = contents st ! unat (peek_count st) \<and> contents st' = contents st \<and>
    unat (peek_count st') = unat (peek_count st) + 1 \<and> buffer st' = buffer st \<and> blocks_used st' = blocks_used st \<and>
    stream_unpeek st' = stream_unpeek st"
proof -
  note I = stream_invD [OF inv]
  have p1: "unat (peek_count st + 1) = unat (peek_count st) + 1" using more by (rule count_inc)
  have "next_block st (peek_position st) = (data_start st + (unat (peek_count st) + 1)) mod cap st"
    using next_block_pos [OF I(11)] I(8) by (simp add: mod_Suc_eq)
  moreover have "buffer st ! peek_position st = contents st ! unat (peek_count st)"
    using more I(8) by (simp add: contents_def stream_at_def)
  ultimately show ?thesis
    using inv p1 more
    by (simp add: stream_peek_def word_less_nat_alt stream_inv_def contents_def stream_at_def stream_unpeek_def
        cong: map_cong)
qed

lemma stream_unpeek_works:
  "stream_inv st \<Longrightarrow> stream_inv (stream_unpeek st) \<and> contents (stream_unpeek st) = contents st"
  by (auto simp: stream_inv_def stream_unpeek_def contents_def stream_at_def)

lemma stream_consume_works:
  assumes inv: "stream_inv st"
  shows "stream_inv (stream_consume st) \<and> contents (stream_consume st) = drop (unat (peek_count st)) (contents st)"
proof -
  note I = stream_invD [OF inv]
  let ?n = "cap st" and ?u = "unat (blocks_used st)" and ?p = "unat (peek_count st)"
  have u: "unat (blocks_used st - peek_count st) = ?u - ?p"
    using I(6) by (simp add: unat_sub word_le_nat_alt)
  have shift: "(peek_position st + k) mod ?n = (data_start st + (?p + k)) mod ?n" for k
    using I(8) by (simp add: mod_add_left_eq add.assoc)
  have "?p + (?u - ?p) = ?u" using I(6) by simp
  then have "stream_inv (stream_consume st)"
    using I(1,2,3,5,6,7,9,11) u shift [of "?u - ?p"] by (simp add: stream_inv_def stream_consume_def)
  moreover have "contents (stream_consume st) = drop ?p (contents st)"
    using u shift by (intro nth_equalityI) (simp_all add: contents_def stream_at_def stream_consume_def)
  ultimately show ?thesis ..
qed

lemma stream_reserve_works:
  assumes inv: "stream_inv st" and room: "unat (blocks_used st) + unat (reserve_count st) < cap st"
  shows "\<exists>st'. stream_reserve st = (True, Block (next_block st (write_reservation st)), st') \<and> stream_inv st' \<and>
    contents st' = contents st \<and> unat (reserve_count st') = unat (reserve_count st) + 1"
proof -
  note I = stream_invD [OF inv]
  have r1: "unat (reserve_count st + 1) = unat (reserve_count st) + 1"
    using room by (intro count_inc [of _ "block_count st"]) simp
  have g: "reserve_count st < block_count st - blocks_used st"
    using room by (simp add: word_less_nat_alt unat_sub word_le_nat_alt)
  have "next_block st (write_reservation st) = (data_end st + (unat (reserve_count st) + 1)) mod cap st"
    using next_block_pos [OF I(12)] I(9) by (simp add: mod_Suc_eq)
  then show ?thesis
    using inv r1 g room by (simp add: stream_reserve_def Let_def stream_inv_def contents_def stream_at_def cong: map_cong)
qed

lemma stream_commit_works:
  assumes inv: "stream_inv st"
  shows "stream_inv (stream_commit st) \<and>
    contents (stream_commit st) = contents st @
      map (\<lambda>k. buffer st ! ((data_end st + k) mod cap st)) [0..<unat (reserve_count st)]"
proof -
  note I = stream_invD [OF inv]
  let ?n = "cap st" and ?u = "unat (blocks_used st)" and ?r = "unat (reserve_count st)"
  have u: "unat (blocks_used st + reserve_count st) = ?u + ?r"
    using I(5) u32_bound [of "block_count st"] by (subst unat_add_no_wrap) simp_all
  have shift: "(data_end st + k) mod ?n = (data_start st + (k + ?u)) mod ?n" for k
    using I(7) by (simp add: mod_add_right_eq ac_simps)
  have "stream_inv (stream_commit st)"
    using I u shift [of ?r] by (simp add: stream_inv_def stream_commit_def add.commute)
  moreover have "[0..<?u + ?r] = [0..<?u] @ map (\<lambda>k. k + ?u) [0..<?r]"
    using upt_add_eq_append [of 0 ?u ?r] by (simp only: map_add_upt add.commute [of ?r ?u] le0)
  then have "contents (stream_commit st) = contents st @ map (\<lambda>k. buffer st ! ((data_end st + k) mod ?n)) [0..<?r]"
    using u shift by (simp add: contents_def stream_at_def stream_commit_def)
  ultimately show ?thesis ..
qed

lemma stream_release_works:
  "stream_inv st \<Longrightarrow> stream_inv (stream_release st) \<and> contents (stream_release st) = contents st"
  by (auto simp: stream_inv_def stream_release_def contents_def stream_at_def)

lemma stream_reset_works: "stream_inv st \<Longrightarrow> stream_inv (stream_reset st) \<and> contents (stream_reset st) = []"
  by (auto simp: stream_inv_def stream_reset_def contents_def)

lemma stream_overflow_works:
  assumes inv: "stream_inv st" and pk: "peek_count st = 0" and full: "\<not> unat (blocks_used st) + unat (reserve_count st) < cap st"
  shows "\<exists>st'. stream_reserve st = (False, Block (next_block st (peek_position st)), st') \<and> stream_inv st' \<and>
    contents st' = []"
proof -
  note I = stream_invD [OF inv]
  have g: "\<not> reserve_count st < block_count st - blocks_used st"
    using full I(5) by (simp add: word_less_nat_alt unat_sub word_le_nat_alt)
  have d: "peek_position st = data_start st" using I(4,8) pk by simp
  show ?thesis
    using I(1-4) g d pk by (simp add: stream_reserve_def Let_def stream_inv_def contents_def next_block_pos)
qed

lemma init_stream_inv: "0 < n \<Longrightarrow> stream_inv (init_stream bs n) \<and> contents (init_stream bs n) = []"
  by (simp add: stream_inv_def init_stream_def contents_def word_less_nat_alt)

section \<open>Any sequence of calls\<close>

text \<open>
  The calls of a writer that reserves or pushes, of a reader that peeks or pops, and of listeners; \<open>Fill\<close> is
  the owner of a handed-out span writing to it.
\<close>

datatype stream_op = PushBlock "u8 list" | PushNull | PopBlock nat | PeekBlock | Unpeek | Consume | ReserveBlock
  | Fill span "u8 list" | Commit | Release | Reset | Register nat | Unregister nat

fun stream_call :: "stream_op \<Rightarrow> stream \<Rightarrow> stream" where
  "stream_call (PushBlock bs) st = snd (stream_push bs st)"
| "stream_call PushNull st = snd (stream_push_null st)"
| "stream_call (PopBlock n) st = snd (snd (stream_pop n st))"
| "stream_call PeekBlock st = snd (snd (stream_peek st))"
| "stream_call Unpeek st = stream_unpeek st"
| "stream_call Consume st = stream_consume st"
| "stream_call ReserveBlock st = snd (snd (stream_reserve st))"
| "stream_call (Fill s bs) st = fill_span s bs st"
| "stream_call Commit st = stream_commit st"
| "stream_call Release st = stream_release st"
| "stream_call Reset st = stream_reset st"
| "stream_call (Register l) st = register_listener l st"
| "stream_call (Unregister l) st = unregister_listeners l st"

text \<open>
  The calls that break the bookkeeping, none of which the code refuses: a push while every block of the
  buffer is reserved, a pop while every block of the buffer is peeked, a reservation that overflows the
  stream while blocks are peeked, and a write to a span that does not have the size of the span.
\<close>

fun offends :: "stream_op \<Rightarrow> stream \<Rightarrow> bool" where
  "offends (PushBlock bs) st \<longleftrightarrow> length bs = block_size st \<and> reserve_count st = block_count st"
| "offends PushNull st \<longleftrightarrow> reserve_count st = block_count st"
| "offends (PopBlock n) st \<longleftrightarrow> n = block_size st \<and> peek_count st = block_count st"
| "offends ReserveBlock st \<longleftrightarrow>
     peek_count st \<noteq> 0 \<and> unat (blocks_used st) + unat (reserve_count st) \<ge> unat (block_count st)"
| "offends (Fill s bs) st \<longleftrightarrow> (case s of Block i \<Rightarrow> i < length (buffer st) \<and> length bs \<noteq> block_size st | NullSpan \<Rightarrow> False)"
| "offends _ st \<longleftrightarrow> False"

fun stream_calls :: "stream_op list \<Rightarrow> stream \<Rightarrow> stream" where
  "stream_calls [] st = st"
| "stream_calls (c # cs) st = stream_calls cs (stream_call c st)"

fun well_used :: "stream_op list \<Rightarrow> stream \<Rightarrow> bool" where
  "well_used [] st \<longleftrightarrow> True"
| "well_used (c # cs) st \<longleftrightarrow> \<not> offends c st \<and> well_used cs (stream_call c st)"

lemma broadcast_inv [simp]: "stream_inv (broadcast_event e st) = stream_inv st"
  by (simp add: stream_inv_def)

lemma push_inv:
  assumes inv: "stream_inv st" and safe: "reserve_count st = 0 \<or> unat (reserve_count st) < cap st"
  shows "stream_inv (snd (stream_push bs st))"
proof -
  note I = stream_invD [OF inv]
  consider "fst (stream_push bs st)" | "\<not> fst (stream_push bs st)" by blast
  then show ?thesis
  proof cases
    case 1
    then have c: "length bs = block_size st" "data_end st = write_reservation st" "\<not> is_full st"
      by (auto simp: stream_push_def Let_def split: if_splits)
    have "(data_end st + unat (reserve_count st)) mod cap st = data_end st" using I(9) c(2) by presburger
    moreover have "unat (reserve_count st) \<le> cap st" using I(5) by linarith
    ultimately have "unat (reserve_count st) = 0 \<or> unat (reserve_count st) = cap st" by (rule mod_full_turn [OF I(10)])
    then have "reserve_count st = 0" using safe by (auto simp: unat_eq_zero)
    moreover have "unat (blocks_used st) < cap st"
      using c(3) I(5) count_neq [of "blocks_used st" "block_count st"] by (auto simp: is_full_def)
    ultimately show ?thesis using stream_push_works [OF inv c(1)] by auto
  next
    case 2
    then show ?thesis using inv by (auto simp: stream_push_def Let_def split: if_splits)
  qed
qed

lemma pop_inv:
  assumes inv: "stream_inv st" and safe: "unat (peek_count st) < cap st"
  shows "stream_inv (snd (snd (stream_pop n st)))"
proof -
  note I = stream_invD [OF inv]
  consider "fst (stream_pop n st)" | "\<not> fst (stream_pop n st)" by blast
  then show ?thesis
  proof cases
    case 1
    then have c: "n = block_size st" "data_start st = peek_position st" "\<not> is_empty st"
      by (auto simp: stream_pop_def Let_def split: if_splits)
    have "(data_start st + unat (peek_count st)) mod cap st = data_start st" using I(8) c(2) by presburger
    moreover have "unat (peek_count st) \<le> cap st" using safe by linarith
    ultimately have "unat (peek_count st) = 0 \<or> unat (peek_count st) = cap st" by (rule mod_full_turn [OF I(4)])
    then have "peek_count st = 0" using safe by (simp add: unat_eq_zero)
    then show ?thesis using stream_pop_works [OF inv] c(1,3) by (auto simp: is_empty_def)
  next
    case 2
    then show ?thesis using inv by (auto simp: stream_pop_def Let_def split: if_splits)
  qed
qed

lemma push_offends:
  assumes inv: "stream_inv st" and off: "length bs = block_size st" "reserve_count st = block_count st"
  shows "\<not> stream_inv (snd (stream_push bs st))"
proof -
  note I = stream_invD [OF inv]
  have u: "blocks_used st = 0" using I(5) off(2) by (simp add: unat_eq_0)
  have "write_reservation st = data_end st" using I(9,10) off(2) by simp
  moreover have "\<not> is_full st" using u I(1) by (auto simp: is_full_def)
  ultimately show ?thesis using stream_push_cases [OF inv off(1)] u off(2) by (simp add: stream_inv_def)
qed

lemma pop_offends:
  assumes inv: "stream_inv st" and off: "n = block_size st" "peek_count st = block_count st"
  shows "\<not> stream_inv (snd (snd (stream_pop n st)))"
proof -
  note I = stream_invD [OF inv]
  have u: "blocks_used st = block_count st" using I(5,6) off(2) by (simp add: word_unat_eq_iff)
  have "peek_position st = data_start st" using I(4,8) off(2) by simp
  moreover have ne: "block_count st \<noteq> 0" using I(1) by auto
  ultimately have "peek_count (snd (snd (stream_pop n st))) = block_count st"
    "blocks_used (snd (snd (stream_pop n st))) = block_count st - 1"
    using u off by (simp_all add: stream_pop_def is_empty_def Let_def)
  then show ?thesis using count_dec [OF ne] I(1) stream_invD(6) [of "snd (snd (stream_pop n st))"] by auto
qed

lemma reserve_offends:
  assumes inv: "stream_inv st" and off: "peek_count st \<noteq> 0" "unat (blocks_used st) + unat (reserve_count st) \<ge> cap st"
  shows "\<not> stream_inv (snd (snd (stream_reserve st)))"
proof -
  have "\<not> reserve_count st < block_count st - blocks_used st"
    using off(2) stream_invD(5) [OF inv] by (simp add: word_less_nat_alt unat_sub word_le_nat_alt)
  then show ?thesis using off(1) by (simp add: stream_reserve_def Let_def stream_inv_def unat_eq_0)
qed

lemma fill_inv:
  assumes inv: "stream_inv st"
  shows "stream_inv (fill_span s bs st) \<longleftrightarrow> \<not> offends (Fill s bs) st"
proof (cases s)
  case (Block i)
  have "stream_inv (fill_span s bs st) \<longleftrightarrow> (\<forall>b\<in>set ((buffer st)[i := bs]). length b = block_size st)"
    using inv Block by (simp add: stream_inv_def fill_span_def)
  moreover have "\<forall>b\<in>set ((buffer st)[i := bs]). length b = block_size st" if "length bs = block_size st"
    using set_update_subset_insert [of "buffer st" i bs] stream_invD(3) [OF inv] that by auto
  moreover have "bs \<in> set ((buffer st)[i := bs])" if "i < length (buffer st)"
    using that by (rule set_update_memI)
  moreover have "(buffer st)[i := bs] = buffer st" if "\<not> i < length (buffer st)"
    using that by (intro list_update_beyond) simp
  ultimately show ?thesis using Block stream_invD(3) [OF inv] by auto
next
  case NullSpan
  then show ?thesis using inv by (simp add: fill_span_def)
qed

lemma peek_inv: "stream_inv st \<Longrightarrow> stream_inv (snd (snd (stream_peek st)))"
  using stream_peek_works [of st]
  by (cases "unat (peek_count st) < unat (blocks_used st)") (auto simp: stream_peek_def word_less_nat_alt)

lemma reserve_inv:
  assumes "stream_inv st" "peek_count st = 0 \<or> unat (blocks_used st) + unat (reserve_count st) < cap st"
  shows "stream_inv (snd (snd (stream_reserve st)))"
  using assms stream_reserve_works [of st] stream_overflow_works [of st]
  by (cases "unat (blocks_used st) + unat (reserve_count st) < cap st") auto

lemma null_span_length [simp]: "length (null_span st) = block_size st"
  by (simp add: null_span_def)

text \<open>A call keeps the bookkeeping exactly if it is none of the four.\<close>

lemma call_inv: "stream_inv st \<Longrightarrow> stream_inv (stream_call c st) \<longleftrightarrow> \<not> offends c st"
proof (cases c)
  case (PushBlock bs)
  assume inv: "stream_inv st"
  have "unat (reserve_count st) < cap st" if "reserve_count st \<noteq> block_count st"
    using stream_invD(5) [OF inv] count_neq [OF that] by linarith
  moreover have "stream_inv (snd (stream_push bs st))" if "length bs \<noteq> block_size st"
    using inv that by (simp add: stream_push_def)
  ultimately show ?thesis using PushBlock push_inv [OF inv] push_offends [OF inv] by auto
next
  case PushNull
  assume inv: "stream_inv st"
  have "unat (reserve_count st) < cap st" if "reserve_count st \<noteq> block_count st"
    using stream_invD(5) [OF inv] count_neq [OF that] by linarith
  then show ?thesis
    using PushNull push_inv [OF inv] push_offends [OF inv null_span_length] by (auto simp: stream_push_null_def)
next
  case (PopBlock n)
  assume inv: "stream_inv st"
  have "unat (peek_count st) < cap st" if "peek_count st \<noteq> block_count st"
    using stream_invD(5,6) [OF inv] count_neq [OF that] by linarith
  moreover have "stream_inv (snd (snd (stream_pop n st)))" if "n \<noteq> block_size st"
    using inv that by (simp add: stream_pop_def)
  ultimately show ?thesis using PopBlock pop_inv [OF inv] pop_offends [OF inv] by auto
next
  case ReserveBlock
  assume inv: "stream_inv st"
  show ?thesis unfolding ReserveBlock stream_call.simps offends.simps
    using reserve_inv [OF inv] reserve_offends [OF inv] not_le by blast
next
  case (Fill s bs)
  assume "stream_inv st"
  then show ?thesis using fill_inv Fill by simp
qed (simp_all add: peek_inv stream_unpeek_works stream_consume_works stream_commit_works stream_release_works
    stream_reset_works, simp_all add: stream_inv_def register_listener_def unregister_listeners_def)

lemma calls_inv: "stream_inv st \<Longrightarrow> well_used cs st \<Longrightarrow> stream_inv (stream_calls cs st)"
  by (induction cs arbitrary: st) (simp_all add: call_inv)

section \<open>A first-in first-out queue of blocks\<close>

definition stream_put :: "u8 list \<Rightarrow> stream \<Rightarrow> (bool \<times> stream) outcome" where
  "stream_put bs st = Inr (stream_push bs st)"

definition stream_get :: "stream \<Rightarrow> (u8 list option \<times> stream) outcome" where
  "stream_get st = (case stream_pop (block_size st) st of (ok, b, st') \<Rightarrow> Inr (if ok then b else None, st'))"

definition stream_rep :: "nat \<Rightarrow> u32 \<Rightarrow> stream \<Rightarrow> u8 list list \<Rightarrow> bool" where
  "stream_rep bs n st xs \<longleftrightarrow> stream_inv st \<and> block_size st = bs \<and> block_count st = n \<and> peek_count st = 0 \<and>
     reserve_count st = 0 \<and> contents st = xs"

text \<open>A block is accepted if it has the block size and fewer blocks than the capacity are stored.\<close>

definition stream_accepts :: "nat \<Rightarrow> u32 \<Rightarrow> u8 list list \<Rightarrow> u8 list \<Rightarrow> bool" where
  "stream_accepts bs n xs x \<longleftrightarrow> length x = bs \<and> length xs < unat n"

lemma length_contents [simp]: "length (contents st) = unat (blocks_used st)"
  by (simp add: contents_def)

lemma contents_broadcast [simp]: "contents (broadcast_event e st) = contents st"
  by (simp add: contents_def stream_at_def)

lemma stream_rep_init: "0 < n \<Longrightarrow> stream_rep bs n (init_stream bs n) []"
  using init_stream_inv [of n bs] by (simp add: stream_rep_def init_stream_def)

lemma stream_put_refuses:
  assumes "stream_rep bs n st xs" "\<not> stream_accepts bs n xs x"
  shows "\<exists>st'. stream_put x st = Inr (False, st') \<and> stream_rep bs n st' xs"
proof -
  have R: "stream_inv st" "block_size st = bs" "block_count st = n" "contents st = xs"
    using assms(1) by (simp_all add: stream_rep_def)
  have "length xs = unat (blocks_used st)" using length_contents [of st] R(4) by simp
  then have "is_full st" if "length x = bs"
    using assms(2) that R(3) stream_invD(5) [OF R(1)] by (simp add: stream_accepts_def is_full_def word_unat_eq_iff)
  then show ?thesis using assms(1) R(2)
    by (auto simp: stream_put_def stream_push_def stream_rep_def Let_def)
qed

lemma stream_put_accepts:
  assumes "stream_rep bs n st xs" "stream_accepts bs n xs x"
  shows "\<exists>st'. stream_put x st = Inr (True, st') \<and> stream_rep bs n st' (xs @ [x])"
  using assms stream_push_works [of st x] by (auto simp: stream_rep_def stream_put_def stream_accepts_def)

interpretation block_queue: fifo "stream_rep bs n" "\<lambda>xs x. True" "stream_accepts bs n" True stream_put stream_get for bs n
proof
  fix st xs x
  assume "stream_rep bs n st xs"
  then show "\<exists>s'. stream_put x st = Inr (stream_accepts bs n xs x, s') \<and>
      stream_rep bs n s' (if stream_accepts bs n xs x = True then xs @ [x] else xs)"
    using stream_put_accepts stream_put_refuses by (cases "stream_accepts bs n xs x") auto
next
  fix st
  assume "stream_rep bs n st []"
  then show "\<exists>s'. stream_get st = Inr (None, s') \<and> stream_rep bs n s' []"
    using length_contents [of st] stream_invD(4,8) [of st]
    by (simp add: stream_rep_def stream_get_def stream_pop_def is_empty_def unat_eq_0)
next
  fix st x xs
  assume rep: "stream_rep bs n st (x # xs)"
  then have "blocks_used st \<noteq> 0" using length_contents [of st] by (auto simp: stream_rep_def simp del: length_contents)
  then show "\<exists>s'. stream_get st = Inr (Some x, s') \<and> stream_rep bs n s' xs"
    using rep stream_pop_works [of st] by (auto simp: stream_rep_def stream_get_def)
qed

section \<open>Properties\<close>

text \<open>
  C17. A stream whose sides push and pop is a bounded first-in first-out queue: for every sequence of pushes
  and pops, in any interleaving, each push answers true exactly if the block has the block size and the
  queue is not full, and appends the block then and only then; each pop gives the oldest block, or fails on
  an empty queue; and the blocks popped, followed by the blocks left in the stream, are the blocks that were
  there and those accepted, in that order.
\<close>

theorem stream_fifo:
  assumes "stream_rep bs n st xs"
  shows "\<exists>st' replies left. impl_run stream_put stream_get calls st = Inr (replies, st') \<and>
    queue_run (stream_accepts bs n) True calls xs = (replies, left) \<and> stream_rep bs n st' left \<and>
    given_out replies @ left = xs @ taken_in True calls replies"
  by (rule block_queue.run_refines [OF assms]) simp

text \<open>Two blocks fit; the third and one of the wrong size are refused, and the last pop finds nothing.\<close>

theorem stream_fifo_witness:
  "\<exists>st'. impl_run stream_put stream_get [Put [1], Get, Put [2], Put [3], Put [4], Put [5, 6], Get, Get, Get] (init_stream 1 2) =
     Inr ([PutReply True, GetReply (Some [1]), PutReply True, PutReply True, PutReply False, PutReply False,
           GetReply (Some [2]), GetReply (Some [3]), GetReply None], st') \<and> stream_rep 1 2 st' []"
  using stream_fifo [OF stream_rep_init [of 2 1], of "[Put [1], Get, Put [2], Put [3], Put [4], Put [5, 6], Get, Get, Get]"]
  by (simp add: stream_accepts_def)

text \<open>
  C18. After every sequence of calls on a new stream with at least one block in which none of four misuses
  occurs, the bookkeeping is consistent: the blocks in use and reserved fit the buffer, no more blocks are
  peeked than are in use, and the four positions are where the counters say. The next call keeps it
  consistent exactly if it is no misuse. The misuses, none of which the code refuses, are a push while every
  block is reserved, a pop while every block is peeked, a reservation that overflows the stream while blocks
  are peeked, and a write to a handed-out block that is not of the block size.
\<close>

theorem stream_bookkeeping:
  assumes "0 < n" "well_used calls (init_stream bs n)"
  shows "let st = stream_calls calls (init_stream bs n) in
    (unat (blocks_used st) + unat (reserve_count st) \<le> unat (block_count st) \<and>
     unat (peek_count st) \<le> unat (blocks_used st) \<and> data_start st < length (buffer st) \<and>
     data_end st = (data_start st + unat (blocks_used st)) mod length (buffer st) \<and>
     peek_position st = (data_start st + unat (peek_count st)) mod length (buffer st) \<and>
     write_reservation st = (data_end st + unat (reserve_count st)) mod length (buffer st)) \<and>
    (stream_inv (stream_call c st) \<longleftrightarrow> \<not> offends c st)"
proof -
  have inv: "stream_inv (stream_calls calls (init_stream bs n))"
    using assms init_stream_inv by (intro calls_inv) simp_all
  show ?thesis unfolding Let_def using call_inv [OF inv] inv by (simp only: stream_inv_def simp_thms)
qed

theorem stream_bookkeeping_witness:
  "let st = stream_calls [PushBlock [7], PeekBlock, ReserveBlock] (init_stream 1 2)
   in unat (blocks_used st) + unat (reserve_count st) \<le> unat (block_count st) \<and> write_reservation st = 0 \<and>
      \<not> stream_inv (stream_call ReserveBlock st)"
proof -
  let ?cs = "[PushBlock [7], PeekBlock, ReserveBlock]"
  note evaluate = init_stream_def stream_push_def is_full_def next_block_def stream_peek_def stream_reserve_def
    broadcast_state_events_def broadcast_event_def Let_def
  have "0 < (2 :: u32)" "well_used ?cs (init_stream 1 2)" by (simp_all add: evaluate)
  from stream_bookkeeping [OF this, of ReserveBlock] have "let st = stream_calls ?cs (init_stream 1 2) in
      unat (blocks_used st) + unat (reserve_count st) \<le> unat (block_count st) \<and>
      (stream_inv (stream_call ReserveBlock st) \<longleftrightarrow> \<not> offends ReserveBlock st)"
    unfolding Let_def by blast
  then show ?thesis by (simp add: evaluate)
qed

text \<open>The spans of \<open>k\<close> peeks in a row.\<close>

fun peeks :: "nat \<Rightarrow> stream \<Rightarrow> span list \<times> stream" where
  "peeks 0 st = ([], st)"
| "peeks (Suc k) st = (let (_, s, st1) = stream_peek st; (ss, st2) = peeks k st1 in (s # ss, st2))"

definition span_data :: "stream \<Rightarrow> span \<Rightarrow> u8 list" where
  "span_data st s = (case s of Block i \<Rightarrow> buffer st ! i | NullSpan \<Rightarrow> null_span st)"

lemma peeks_works:
  "stream_inv st \<Longrightarrow> unat (peek_count st) + k \<le> unat (blocks_used st) \<Longrightarrow>
   \<exists>ss st'. peeks k st = (ss, st') \<and> stream_inv st' \<and> map (span_data st) ss = take k (drop (unat (peek_count st)) (contents st)) \<and>
     contents st' = contents st \<and> unat (peek_count st') = unat (peek_count st) + k \<and> stream_unpeek st' = stream_unpeek st"
proof (induction k arbitrary: st)
  case 0
  then show ?case by simp
next
  case (Suc k)
  have more: "unat (peek_count st) < unat (blocks_used st)" using Suc.prems(2) by simp
  from stream_peek_works [OF Suc.prems(1) more] obtain st1
    where 1: "stream_peek st = (True, Block (peek_position st), st1)" "stream_inv st1"
      "buffer st ! peek_position st = contents st ! unat (peek_count st)" "contents st1 = contents st"
      "unat (peek_count st1) = unat (peek_count st) + 1" "buffer st1 = buffer st" "blocks_used st1 = blocks_used st"
      "stream_unpeek st1 = stream_unpeek st" by blast
  from Suc.IH [OF 1(2)] 1(5,7) Suc.prems(2) obtain ss st2
    where 2: "peeks k st1 = (ss, st2)" "stream_inv st2"
      "map (span_data st1) ss = take k (drop (unat (peek_count st) + 1) (contents st))" "contents st2 = contents st"
      "unat (peek_count st2) = unat (peek_count st) + 1 + k" "stream_unpeek st2 = stream_unpeek st"
    using 1(4,8) by auto
  have "block_size st1 = block_size st" using 1(1) by (auto simp: stream_peek_def split: if_splits)
  then have "span_data st1 = span_data st"
    using 1(6) by (auto simp: span_data_def null_span_def fun_eq_iff split: span.split)
  moreover have "take (Suc k) (drop (unat (peek_count st)) (contents st)) =
      contents st ! unat (peek_count st) # take k (drop (unat (peek_count st) + 1) (contents st))"
    using more by (simp add: Cons_nth_drop_Suc [symmetric])
  moreover have "span_data st (Block (peek_position st)) = contents st ! unat (peek_count st)"
    using 1(3) by (simp add: span_data_def)
  ultimately show ?case using 1(1) 2 by simp
qed

text \<open>
  C19. Zero-copy reading: \<open>k\<close> peeks of a stream that has \<open>k\<close> blocks hand out its first \<open>k\<close> blocks in order;
  consuming then removes exactly these blocks, and taking the peeks back leaves the stream as it was.
\<close>

theorem peek_consume:
  assumes "stream_rep bs n st xs" "k \<le> length xs"
  shows "\<exists>ss st'. peeks k st = (ss, st') \<and> map (span_data st) ss = take k xs \<and>
    stream_rep bs n (stream_consume st') (drop k xs) \<and> stream_unpeek st' = st"
proof -
  have R: "stream_inv st" "peek_count st = 0" "contents st = xs" "block_size st = bs" "block_count st = n"
    "reserve_count st = 0" using assms(1) by (simp_all add: stream_rep_def)
  have "k \<le> unat (blocks_used st)" using assms(2) length_contents [of st] R(3) by simp
  from peeks_works [OF R(1), of k] this R(2,3) obtain ss st'
    where p: "peeks k st = (ss, st')" "stream_inv st'" "map (span_data st) ss = take k xs" "contents st' = xs"
      "unat (peek_count st') = k" "stream_unpeek st' = stream_unpeek st" by auto
  have st: "stream_unpeek st = st" using stream_invD(4,8) [OF R(1)] R(2) by (simp add: stream_unpeek_def)
  have "block_size (stream_unpeek st') = bs \<and> block_count (stream_unpeek st') = n \<and> reserve_count (stream_unpeek st') = 0"
    using p(6) R st by simp
  then have "stream_rep bs n (stream_consume st') (drop k xs)"
    using stream_consume_works [OF p(2)] p(4,5)
    by (simp add: stream_rep_def stream_unpeek_def) (simp add: stream_consume_def)
  then show ?thesis using p(1,3,6) st by (intro exI [of _ ss] exI [of _ st']) simp
qed

theorem peek_consume_witness:
  "\<exists>ss st'. peeks 1 (snd (stream_push [7] (init_stream 1 2))) = (ss, st') \<and>
    stream_unpeek st' = snd (stream_push [7] (init_stream 1 2)) \<and> stream_rep 1 2 (stream_consume st') []"
proof -
  have "stream_rep 1 2 (snd (stream_push [7] (init_stream 1 2))) [[7]]"
    using stream_put_accepts [OF stream_rep_init [of 2 1], of "[7]"] by (auto simp: stream_accepts_def stream_put_def)
  from peek_consume [OF this, of 1] show ?thesis by auto
qed

text \<open>
  Zero-copy writing hands out the block after the one that a push would fill: when a block is reserved,
  filled and committed, what the reader finds at the end of the stream is the old contents of the block
  before it.
\<close>

theorem reserve_commit_shifts:
  assumes "stream_rep bs n st xs" "length xs < unat n" "1 < unat n"
  shows "\<exists>st1. stream_reserve st = (True, Block (next_block st (data_end st)), st1) \<and>
    contents (stream_commit (fill_span (Block (next_block st (data_end st))) data st1)) =
      contents (fill_span (Block (next_block st (data_end st))) data st1) @ [buffer st ! data_end st]"
proof -
  have R: "stream_inv st" "contents st = xs" "block_count st = n" "reserve_count st = 0"
    using assms(1) by (simp_all add: stream_rep_def)
  note I = stream_invD [OF R(1)]
  have w: "write_reservation st = data_end st" using I(9,10) R(4) by simp
  have "length (contents st) < unat n" using assms(2) R(2) by simp
  then have u: "unat (blocks_used st) < cap st" using R(3) by simp
  define w1 where "w1 = next_block st (data_end st)"
  define st1 where "st1 = st\<lparr>write_reservation := w1, reserve_count := reserve_count st + 1\<rparr>"
  have "reserve_count st < block_count st - blocks_used st"
    using u R(4) by (simp add: word_less_nat_alt unat_sub word_le_nat_alt)
  then have r: "stream_reserve st = (True, Block w1, st1)"
    by (simp add: stream_reserve_def Let_def w st1_def w1_def)
  have ne: "w1 \<noteq> data_end st" using assms(3) R(3) by (auto simp: w1_def next_block_def)
  let ?f = "fill_span (Block w1) data st1"
  have "[0..<unat (blocks_used st + 1)] = [0..<unat (blocks_used st)] @ [unat (blocks_used st)]"
    using count_inc [OF u] by simp
  then have "contents (stream_commit ?f) = contents ?f @ [stream_at ?f (unat (blocks_used st))]"
    using R(4) by (simp add: contents_def stream_commit_def fill_span_def st1_def stream_at_def)
  moreover have "stream_at ?f (unat (blocks_used st)) = buffer st ! data_end st"
    using ne I(7) by (simp add: stream_at_def fill_span_def st1_def)
  ultimately show ?thesis using r by (simp add: w1_def)
qed

theorem reserve_commit_shifts_witness:
  "contents (stream_commit (fill_span (Block 1) [9] (snd (snd (stream_reserve (init_stream 1 2)))))) = [[0]]"
proof -
  from reserve_commit_shifts [OF stream_rep_init [of 2 1], of "[9]"] show ?thesis
    by (auto simp: contents_def next_block_def init_stream_def fill_span_def stream_reserve_def Let_def)
qed

text \<open>
  A pop while every block of a full stream is peeked is not refused, since the peek position has come round
  to the start; consuming the peeks afterwards takes the number of blocks in use below zero.
\<close>

lemma pop_during_full_peek:
  "let st = snd (stream_push [2] (snd (stream_push [1] (init_stream 1 2)))); (ss, st1) = peeks (Suc (Suc 0)) st;
       (ok, b, st2) = stream_pop 1 st1
   in ok \<and> blocks_used (stream_consume st2) = - 1"
  by (simp add: init_stream_def stream_push_def is_full_def next_block_def stream_peek_def stream_pop_def
      is_empty_def stream_consume_def broadcast_state_events_def broadcast_event_def Let_def)

end
