(* ===== verification/ServiceOrder.thy ===== *)
theory ServiceOrder
  imports Prelude "HOL-Library.Multiset"
begin

text \<open>
  The order in which the system manager starts the services,
  \<^verbatim>\<open>src/module-sys/SystemManager/graph/TopologicalSort.cpp\<close>: a depth-first search over the dependencies that
  the services declare. A map that inserts a default on first access is a list of the names visited; the
  recursion depth counter of the source has no effect and is left out.
\<close>

section \<open>Model\<close>

record service_node =
  node_name :: string
  dependencies :: "string list"

definition createEdges :: "service_node list \<Rightarrow> string \<Rightarrow> string list" where
  "createEdges nodes s = concat (map dependencies (filter (\<lambda>n. node_name n = s) nodes))"

text \<open>
  The loop over the dependencies of a service, or over all services: names not visited yet are visited,
  that is marked, their own dependencies handled, and then appended to the result.
\<close>

function visit_deps ::
    "service_node list \<Rightarrow> string list \<Rightarrow> string list \<times> string list \<Rightarrow> string list \<times> string list" where
  "visit_deps nodes [] (visited, out) = (visited, out)"
| "visit_deps nodes (d # ds) (visited, out) =
     (if d \<in> set visited then visit_deps nodes ds (visited, out)
      else let (visited1, out1) = visit_deps nodes (createEdges nodes d) (d # visited, out)
           in visit_deps nodes ds (visited1, out1 @ [d]))"
  by pat_completeness auto

definition all_names :: "service_node list \<Rightarrow> string set" where
  "all_names nodes = node_name ` set nodes \<union> (\<Union>n\<in>set nodes. set (dependencies n))"

lemma finite_all_names [simp]: "finite (all_names nodes)"
  by (simp add: all_names_def)

lemma edges_known: "createEdges nodes s \<noteq> [] \<Longrightarrow> s \<in> all_names nodes"
  by (auto simp: createEdges_def all_names_def filter_empty_conv)

lemma visited_grows:
  "visit_deps_dom (nodes, ds, s) \<Longrightarrow> set (fst s) \<subseteq> set (fst (visit_deps nodes ds s))"
  by (induction rule: visit_deps.pinduct) (fastforce simp: visit_deps.psimps split: prod.split)+

termination visit_deps
proof (relation "inv_image (finite_psubset <*lex*> less_than)
    (\<lambda>(nodes, ds, s). (all_names nodes - set (fst s), length ds))", goal_cases)
  case 1
  then show ?case by (intro wf_inv_image wf_lex_prod wf_finite_psubset wf_less_than)
next
  case (2 nodes d ds visited out)
  then show ?case by simp
next
  case (3 nodes d ds visited out)
  then show ?case
    using edges_known [of nodes d]
    by (cases "createEdges nodes d = []"; cases "d \<in> all_names nodes") (auto simp: finite_psubset_def)
next
  case (4 nodes d ds visited out x visited1 out1)
  then have "insert d (set visited) \<subseteq> set visited1"
    using visited_grows [of nodes "createEdges nodes d" "(d # visited, out)"] by (metis fst_conv list.simps(15))
  then show ?case
    by (auto simp: finite_psubset_def)
qed

declare visit_deps.simps(2) [simp del]

definition visit ::
    "service_node list \<Rightarrow> string \<Rightarrow> string list \<times> string list \<Rightarrow> string list \<times> string list" where
  "visit nodes d s =
     (let (visited1, out1) = visit_deps nodes (createEdges nodes d) (d # fst s, snd s) in (visited1, out1 @ [d]))"

fun prepareOutput :: "service_node list \<Rightarrow> string list \<Rightarrow> service_node list outcome" where
  "prepareOutput nodes [] = Inr []"
| "prepareOutput nodes (s # names) =
     (case find (\<lambda>n. node_name n = s) nodes of
        None \<Rightarrow> Inl AssertFailed
      | Some n \<Rightarrow> (case prepareOutput nodes names of Inl e \<Rightarrow> Inl e | Inr ns \<Rightarrow> Inr (n # ns)))"

definition topological_sort :: "service_node list \<Rightarrow> service_node list outcome" where
  "topological_sort nodes = prepareOutput nodes (snd (visit_deps nodes (map node_name nodes) ([], [])))"

section \<open>The search\<close>

definition depends :: "service_node list \<Rightarrow> (string \<times> string) set" where
  "depends nodes = {(a, b). b \<in> set (createEdges nodes a)}"

definition deps_first :: "service_node list \<Rightarrow> string list \<Rightarrow> bool" where
  "deps_first nodes out \<longleftrightarrow> (\<forall>xs y ys. out = xs @ y # ys \<longrightarrow> set (createEdges nodes y) \<subseteq> set xs)"

lemma visit_deps_Cons:
  "visit_deps nodes (d # ds) (visited, out) =
     visit_deps nodes ds (if d \<in> set visited then (visited, out) else visit nodes d (visited, out))"
  by (simp add: visit_deps.simps(2) visit_def split: prod.split)

lemma visit_deps_result:
  assumes "visit_deps nodes ds (visited, out) = (visited', out')"
  shows "\<exists>new. out' = out @ new \<and> set visited' = set visited \<union> set new \<and> distinct new \<and>
    set new \<inter> set visited = {} \<and> set ds \<subseteq> set visited' \<and>
    (\<forall>x \<in> set new. set (createEdges nodes x) \<subseteq> set visited') \<and>
    set new \<subseteq> (depends nodes)\<^sup>* `` set ds"
  using assms
proof (induction nodes ds "(visited, out)" arbitrary: visited out visited' out' rule: visit_deps.induct)
  case (1 nodes visited out)
  then show ?case by simp
next
  case (2 nodes d ds visited out)
  show ?case
  proof (cases "d \<in> set visited")
    case True
    with 2(4) have "visit_deps nodes ds (visited, out) = (visited', out')" by (simp add: visit_deps.simps(2))
    from 2(1) [OF True this] obtain new where n: "out' = out @ new" "set visited' = set visited \<union> set new"
      "distinct new" "set new \<inter> set visited = {}" "set ds \<subseteq> set visited'"
      "\<forall>x \<in> set new. set (createEdges nodes x) \<subseteq> set visited'"
      "set new \<subseteq> (depends nodes)\<^sup>* `` set ds" by blast
    have "(depends nodes)\<^sup>* `` set ds \<subseteq> (depends nodes)\<^sup>* `` set (d # ds)" by (intro Image_mono) auto
    with n True show ?thesis by (intro exI [of _ new]) auto
  next
    case False
    obtain v1 o1 where r1: "visit_deps nodes (createEdges nodes d) (d # visited, out) = (v1, o1)" by fastforce
    with 2(4) False have r2: "visit_deps nodes ds (v1, o1 @ [d]) = (visited', out')"
      by (simp add: visit_deps.simps(2))
    from 2(2) [OF False r1] obtain a where a: "o1 = out @ a" "set v1 = set (d # visited) \<union> set a" "distinct a"
      "set a \<inter> set (d # visited) = {}" "set (createEdges nodes d) \<subseteq> set v1"
      "\<forall>x \<in> set a. set (createEdges nodes x) \<subseteq> set v1" "set a \<subseteq> (depends nodes)\<^sup>* `` set (createEdges nodes d)" by blast
    from 2(3) [OF False r1 [symmetric] refl r2] obtain b where b: "out' = (o1 @ [d]) @ b"
      "set visited' = set v1 \<union> set b" "distinct b" "set b \<inter> set v1 = {}" "set ds \<subseteq> set visited'"
      "\<forall>x \<in> set b. set (createEdges nodes x) \<subseteq> set visited'"
      "set b \<subseteq> (depends nodes)\<^sup>* `` set ds" by blast
    have "set a \<subseteq> (depends nodes)\<^sup>* `` {d}"
      using a(7) by (auto simp: depends_def intro: converse_rtrancl_into_rtrancl)
    with a b False show ?thesis
      by (intro exI [of _ "a @ d # b"]) auto
  qed
qed

lemma deps_first_snoc: "deps_first nodes out \<Longrightarrow> set (createEdges nodes d) \<subseteq> set out \<Longrightarrow> deps_first nodes (out @ [d])"
  unfolding deps_first_def
proof (intro allI impI)
  fix xs y ys
  assume h: "\<forall>xs y ys. out = xs @ y # ys \<longrightarrow> set (createEdges nodes y) \<subseteq> set xs"
    "set (createEdges nodes d) \<subseteq> set out" "out @ [d] = xs @ y # ys"
  show "set (createEdges nodes y) \<subseteq> set xs"
  proof (cases ys rule: rev_cases)
    case Nil
    with h show ?thesis by simp
  next
    case (snoc zs z)
    with h(3) have "out = xs @ y # zs" by simp
    with h(1) show ?thesis by blast
  qed
qed

text \<open>
  The nodes that are visited and not yet in the result are being worked on; each of them reaches every name
  of the worklist, so that on an acyclic graph no dependency of a finished node is among them.
\<close>

lemma visit_deps_order:
  assumes "visit_deps nodes ds (visited, out) = (visited', out')" "acyclic (depends nodes)"
    "deps_first nodes out" "set out \<subseteq> set visited"
    "\<forall>g \<in> set visited - set out. \<forall>w \<in> set ds. (g, w) \<in> (depends nodes)\<^sup>+"
  shows "deps_first nodes out'"
  using assms
proof (induction nodes ds "(visited, out)" arbitrary: visited out visited' out' rule: visit_deps.induct)
  case (1 nodes visited out)
  then show ?case by simp
next
  case (2 nodes d ds visited out)
  let ?E = "depends nodes"
  show ?case
  proof (cases "d \<in> set visited")
    case True
    with 2 show ?thesis by (auto simp: visit_deps.simps(2))
  next
    case False
    obtain v1 o1 where r1: "visit_deps nodes (createEdges nodes d) (d # visited, out) = (v1, o1)" by fastforce
    with 2(4) False have r2: "visit_deps nodes ds (v1, o1 @ [d]) = (visited', out')"
      by (simp add: visit_deps.simps(2))
    have succ: "(d, w) \<in> ?E" if "w \<in> set (createEdges nodes d)" for w using that by (simp add: depends_def)
    have grey: "(g, d) \<in> ?E\<^sup>+" if "g \<in> set visited - set out" for g using 2(8) that by simp
    have "\<forall>g \<in> set (d # visited) - set out. \<forall>w \<in> set (createEdges nodes d). (g, w) \<in> ?E\<^sup>+"
      using grey succ by (auto intro: trancl_into_trancl)
    with 2(2) [OF False r1] 2(5-7) have o1: "deps_first nodes o1" by auto
    from visit_deps_result [OF r1] obtain a where a: "o1 = out @ a" "set v1 = set (d # visited) \<union> set a"
      "set (createEdges nodes d) \<subseteq> set v1" by blast
    have "w \<in> set o1" if w: "w \<in> set (createEdges nodes d)" for w
    proof (rule ccontr)
      assume "w \<notin> set o1"
      with w a have "w = d \<or> w \<in> set visited - set out" by auto
      then have "(d, d) \<in> ?E\<^sup>+" using succ [OF w] grey by (auto intro: trancl_into_trancl2)
      with 2(5) show False by (simp add: acyclic_def)
    qed
    with o1 have "deps_first nodes (o1 @ [d])" by (auto intro: deps_first_snoc)
    with 2(3) [OF False r1 [symmetric] refl r2] 2(5,7,8) a show ?thesis by auto
  qed
qed

lemma search_result:
  assumes "visit_deps nodes (map node_name nodes) ([], []) = (visited, out)"
  shows "distinct out" "set out = set visited" "node_name ` set nodes \<subseteq> set out"
    "x \<in> set out \<Longrightarrow> set (createEdges nodes x) \<subseteq> set out"
    "set out \<subseteq> all_names nodes"
proof -
  from visit_deps_result [OF assms] have r: "distinct out" "set out = set visited"
    "set (map node_name nodes) \<subseteq> set visited" "\<forall>x \<in> set out. set (createEdges nodes x) \<subseteq> set visited"
    "set out \<subseteq> (depends nodes)\<^sup>* `` set (map node_name nodes)"
    unfolding append_Nil list.set(1) Un_empty_left by blast+
  then show "distinct out" "set out = set visited" "node_name ` set nodes \<subseteq> set out" by auto
  show "set (createEdges nodes x) \<subseteq> set out" if "x \<in> set out" using r(2,4) that by blast
  have "y \<in> all_names nodes" if "(x, y) \<in> (depends nodes)\<^sup>*" "x \<in> node_name ` set nodes" for x y
    using that by (induction rule: rtrancl_induct) (auto simp: all_names_def depends_def createEdges_def)
  with r(5) [unfolded set_map] show "set out \<subseteq> all_names nodes" by blast
qed

lemma createEdges_unique:
  assumes "distinct (map node_name nodes)" "n \<in> set nodes"
  shows "createEdges nodes (node_name n) = dependencies n"
proof -
  from assms have "filter (\<lambda>m. node_name m = node_name n) nodes = [n]"
    by (induction nodes) (auto simp: filter_empty_conv, (metis image_eqI)+)
  then show ?thesis by (simp add: createEdges_def)
qed

lemma find_unique:
  "distinct (map node_name nodes) \<Longrightarrow> n \<in> set nodes \<Longrightarrow> find (\<lambda>m. node_name m = node_name n) nodes = Some n"
  by (induction nodes) (auto simp: rev_image_eqI)

lemma prepareOutput_found:
  "distinct (map node_name nodes) \<Longrightarrow> set names \<subseteq> node_name ` set nodes \<Longrightarrow>
   \<exists>out. prepareOutput nodes names = Inr out \<and> map node_name out = names \<and> set out \<subseteq> set nodes"
proof (induction names)
  case (Cons s names)
  then obtain n where "n \<in> set nodes" "s = node_name n" by auto
  with Cons find_unique [of nodes n] show ?case by auto
qed simp

lemma prepareOutput_missing:
  "s \<in> set names \<Longrightarrow> s \<notin> node_name ` set nodes \<Longrightarrow> prepareOutput nodes names = Inl AssertFailed"
proof (induction names)
  case (Cons a names)
  show ?case
  proof (cases "a = s")
    case True
    with Cons(3) have "find (\<lambda>n. node_name n = a) nodes = None" by (auto simp: find_None_iff)
    then show ?thesis by simp
  next
    case False
    with Cons show ?thesis by (auto split: option.split)
  qed
qed simp

section \<open>Properties\<close>

text \<open>
  C20. When the dependencies of the services form no cycle, the names are distinct and every dependency is
  itself a service, the sort succeeds: its result holds exactly the given services, and each service comes
  after all the services that it depends on, so that starting them in this order is safe.
\<close>

theorem sort_orders_services:
  assumes "acyclic (depends nodes)" "distinct (map node_name nodes)"
    "\<forall>n \<in> set nodes. set (dependencies n) \<subseteq> node_name ` set nodes"
  shows "\<exists>out. topological_sort nodes = Inr out \<and> mset out = mset nodes \<and>
    (\<forall>xs n ys. out = xs @ n # ys \<longrightarrow> set (dependencies n) \<subseteq> node_name ` set xs)"
proof -
  obtain visited names where r: "visit_deps nodes (map node_name nodes) ([], []) = (visited, names)" by fastforce
  note s = search_result [OF r]
  from assms(3) have "all_names nodes = node_name ` set nodes" by (auto simp: all_names_def)
  with s have names: "set names = node_name ` set nodes" by auto
  with prepareOutput_found [OF assms(2), of names] obtain out where out: "prepareOutput nodes names = Inr out"
    "map node_name out = names" "set out \<subseteq> set nodes" by auto
  have dist: "distinct out" using s(1) out(2) distinct_map by blast
  have "set out = set nodes"
  proof
    show "set nodes \<subseteq> set out"
    proof
      fix n assume n: "n \<in> set nodes"
      with names out(2) obtain m where m: "m \<in> set out" "node_name m = node_name n" by (metis image_iff image_set)
      with out(3) n assms(2) have "m = n" by (meson distinct_map inj_on_def subsetD)
      with m show "n \<in> set out" by simp
    qed
  qed (rule out(3))
  with dist assms(2) have ms: "mset out = mset nodes"
    by (meson distinct_map set_eq_iff_mset_eq_distinct)
  have df: "deps_first nodes names"
    by (rule visit_deps_order [OF r assms(1)]) (simp_all add: deps_first_def)
  have "set (dependencies n) \<subseteq> node_name ` set xs" if "out = xs @ n # ys" for xs n ys
  proof -
    from that out(2) have "names = map node_name xs @ node_name n # map node_name ys" by auto
    with df have "set (createEdges nodes (node_name n)) \<subseteq> set (map node_name xs)"
      unfolding deps_first_def by blast
    moreover from that out(3) have "n \<in> set nodes" by auto
    ultimately show ?thesis using createEdges_unique [OF assms(2)] by simp
  qed
  then have "\<forall>xs n ys. out = xs @ n # ys \<longrightarrow> set (dependencies n) \<subseteq> node_name ` set xs" by blast
  with r out ms show ?thesis by (intro exI [of _ out]) (simp add: topological_sort_def)
qed

definition three_services :: "service_node list" where
  "three_services = [\<lparr>node_name = ''gui'', dependencies = [''evt'', ''db'']\<rparr>,
     \<lparr>node_name = ''evt'', dependencies = [''db'']\<rparr>, \<lparr>node_name = ''db'', dependencies = []\<rparr>]"

lemma three_services_depends: "depends three_services = {(''gui'', ''evt''), (''gui'', ''db''), (''evt'', ''db'')}"
  by (auto simp: depends_def three_services_def createEdges_def split: if_splits)

lemma three_services_acyclic: "acyclic (depends three_services)"
proof -
  have "depends three_services \<subseteq> inv_image less_than (\<lambda>s. if s = ''gui'' then 0 else if s = ''evt'' then 1 else 2)"
    by (auto simp: three_services_depends)
  then show ?thesis by (meson acyclic_subset wf_acyclic wf_inv_image wf_less_than)
qed

lemma sort_orders_services_witness:
  "topological_sort three_services = Inr (rev three_services) \<and>
   (\<exists>out. topological_sort three_services = Inr out \<and> mset out = mset three_services \<and>
    (\<forall>xs n ys. out = xs @ n # ys \<longrightarrow> set (dependencies n) \<subseteq> node_name ` set xs))"
proof
  show "topological_sort three_services = Inr (rev three_services)"
    by (simp add: topological_sort_def three_services_def visit_deps.simps createEdges_def)
qed (rule sort_orders_services [OF three_services_acyclic]; simp add: three_services_def)

text \<open>
  A service that depends on a name no service has makes the sort fail its assertion, whatever else the
  list holds: the missing dependency is never dropped silently.
\<close>

theorem sort_missing_dependency:
  assumes "n \<in> set nodes" "d \<in> set (dependencies n)" "d \<notin> node_name ` set nodes"
  shows "topological_sort nodes = Inl AssertFailed"
proof -
  obtain visited names where r: "visit_deps nodes (map node_name nodes) ([], []) = (visited, names)" by fastforce
  note s = search_result [OF r]
  from assms(1,2) have "d \<in> set (createEdges nodes (node_name n))" by (auto simp: createEdges_def)
  with s(3) s(4) [of "node_name n"] assms(1) have "d \<in> set names" by auto
  with prepareOutput_missing assms(3) r show ?thesis by (simp add: topological_sort_def)
qed

lemma sort_missing_dependency_witness:
  "topological_sort [\<lparr>node_name = ''gui'', dependencies = [''evt'']\<rparr>] = Inl AssertFailed"
  by (rule sort_missing_dependency [of "\<lparr>node_name = ''gui'', dependencies = [''evt'']\<rparr>" _ "''evt''"]) simp_all

text \<open>
  A cycle is not reported: the search cuts it at the first name met again, so that a service may be started
  before one it depends on.
\<close>

lemma cycle_is_cut:
  "topological_sort [\<lparr>node_name = ''a'', dependencies = [''b'']\<rparr>, \<lparr>node_name = ''b'', dependencies = [''a'']\<rparr>] =
     Inr [\<lparr>node_name = ''b'', dependencies = [''a'']\<rparr>, \<lparr>node_name = ''a'', dependencies = [''b'']\<rparr>]"
  by (simp add: topological_sort_def visit_deps.simps createEdges_def)

end
