(* ===== verification/LowPower.thy ===== *)
theory LowPower
  imports Prelude
begin

text \<open>
  Clock and voltage control of the i.MX RT1051, \<^verbatim>\<open>src/module-bsp/board/rt1051\<close>: the frequency levels
  (\<^verbatim>\<open>bsp/common.hpp\<close>), the low-power controller \<^verbatim>\<open>RT1051LPMCommon\<close> with the clock selection
  \<^verbatim>\<open>CpuFreqLPM\<close>, the oscillator, the core supply \<^verbatim>\<open>DCDC\<close>, the bandgap and the linear regulators, and the
  reference-counted use of PLL2 by \<^verbatim>\<open>RT1051DriverPLL2\<close> and \<^verbatim>\<open>RT1051DriverSEMC\<close>. The registers that these
  functions write are the fields of a record, and every write is recorded, so that a property can speak of
  each intermediate state of the hardware. Busy waits for a regulator or an oscillator to settle end by
  the hardware's documentation and have no effect on the state.
\<close>

section \<open>Frequency levels\<close>

datatype CpuFrequencyMHz = Level_0 | Level_1 | Level_2 | Level_3 | Level_4 | Level_5 | Level_6

fun mhz :: "CpuFrequencyMHz \<Rightarrow> nat" where
  "mhz Level_0 = 4"
| "mhz Level_1 = 12"
| "mhz Level_2 = 24"
| "mhz Level_3 = 66"
| "mhz Level_4 = 132"
| "mhz Level_5 = 264"
| "mhz Level_6 = 528"

lemma mhz_inj: "mhz a = mhz b \<Longrightarrow> a = b"
  by (cases a; cases b) simp_all

instantiation CpuFrequencyMHz :: linorder
begin

definition less_eq_CpuFrequencyMHz :: "CpuFrequencyMHz \<Rightarrow> CpuFrequencyMHz \<Rightarrow> bool" where
  "less_eq_CpuFrequencyMHz a b \<longleftrightarrow> mhz a \<le> mhz b"

definition less_CpuFrequencyMHz :: "CpuFrequencyMHz \<Rightarrow> CpuFrequencyMHz \<Rightarrow> bool" where
  "less_CpuFrequencyMHz a b \<longleftrightarrow> mhz a < mhz b"

instance
  by standard (auto simp: less_eq_CpuFrequencyMHz_def less_CpuFrequencyMHz_def intro: mhz_inj)

end

lemmas freq_order [simp] = less_eq_CpuFrequencyMHz_def less_CpuFrequencyMHz_def

section \<open>Registers\<close>

datatype periph_source = Pll2_528MHz | Osc_24MHz
datatype semc_source = SemcMuxPLL2Clock | SemcMuxPeripheralClock
datatype clock_ip = Lpuart nat | Lpspi nat | Usdhc nat

record hw =
  periph_mux :: periph_source
  ahb_div :: nat
  semc_mux :: semc_source
  pll2_enabled :: bool
  osc_sel :: bool
  xtal_24m_pwd :: bool
  osc_xtalok_en :: bool
  rc_osc_en :: bool
  osc_config0 :: u32
  osc_config1 :: u32
  oscnt :: u8
  dcdc_external :: bool
  vdd_run :: u32
  disable_step :: bool
  pwd_zcd :: bool
  load_resistor :: bool
  pwd_cmp_offset :: bool
  rcscale :: u8
  dcm_set_ctrl :: bool
  fet_odrive :: bool
  reftop_pwd :: bool
  lpbg_sel :: bool
  reftop_lowpower :: bool
  linreg_2p5 :: bool
  weak_linreg_2p5 :: bool
  linreg_1p1 :: bool
  weak_linreg_1p1 :: bool
  clocks_enabled :: "clock_ip list"

text \<open>
  The oscillator is the external one unless \<^verbatim>\<open>OSC_SEL\<close> is set. The bandgap is in regular mode when it is powered
  and its low power variant is off, and so are the two linear regulators.
\<close>

definition external_osc :: "hw \<Rightarrow> bool" where
  "external_osc h \<longleftrightarrow> \<not> osc_sel h"

definition bandgap_regular :: "hw \<Rightarrow> bool" where
  "bandgap_regular h \<longleftrightarrow> \<not> reftop_pwd h \<and> \<not> lpbg_sel h \<and> \<not> reftop_lowpower h"

definition ldo_regular :: "hw \<Rightarrow> bool" where
  "ldo_regular h \<longleftrightarrow> linreg_2p5 h \<and> \<not> weak_linreg_2p5 h \<and> linreg_1p1 h \<and> \<not> weak_linreg_1p1 h"

text \<open>
  The controller: the current level, the registers, whether the driver of the external RAM holds its PLL2
  object, whether entering WFI is allowed, and all earlier states of the registers, the latest first.
\<close>

record lpm =
  currentFrequency :: CpuFrequencyMHz
  regs :: hw
  semc_holds_pll2 :: bool
  wfiModeAllowed :: bool
  history :: "hw list"

definition write_reg :: "(hw \<Rightarrow> hw) \<Rightarrow> lpm \<Rightarrow> lpm" where
  "write_reg f s = s\<lparr>regs := f (regs s), history := regs s # history s\<rparr>"

definition VDDRun_950_mV :: u32 where "VDDRun_950_mV = 0x06"
definition VDDRun_1150_mV :: u32 where "VDDRun_1150_mV = 0x0E"
definition VDDRun_1275_mV :: u32 where "VDDRun_1275_mV = 0x13"

definition IsClockEnabled :: "clock_ip \<Rightarrow> lpm \<Rightarrow> bool" where
  "IsClockEnabled c s \<longleftrightarrow> c \<in> set (clocks_enabled (regs s))"

section \<open>Core supply, bandgap and regulators\<close>

text \<open>The functions of the supply's driver (\<^verbatim>\<open>fsl_dcdc.c\<close>).\<close>

definition DCDC_AdjustTargetVoltage :: "u32 \<Rightarrow> lpm \<Rightarrow> lpm" where
  "DCDC_AdjustTargetVoltage v s = write_reg (\<lambda>h. h\<lparr>vdd_run := v\<rparr>) (write_reg (\<lambda>h. h\<lparr>disable_step := False\<rparr>) s)"

definition DCDC_BootIntoCCM :: "lpm \<Rightarrow> lpm" where
  "DCDC_BootIntoCCM s =
     write_reg (\<lambda>h. h\<lparr>rcscale := 3\<rparr>) (write_reg (\<lambda>h. h\<lparr>pwd_zcd := True, pwd_cmp_offset := False\<rparr>) s)"

definition DCDC_BootIntoDCM :: "lpm \<Rightarrow> lpm" where
  "DCDC_BootIntoDCM s =
     write_reg (\<lambda>h. h\<lparr>rcscale := 5, dcm_set_ctrl := True\<rparr>) (write_reg (\<lambda>h. h\<lparr>pwd_zcd := False, pwd_cmp_offset := False\<rparr>) s)"

definition DCDC_SetClockSource :: "bool \<Rightarrow> lpm \<Rightarrow> lpm" where
  "DCDC_SetClockSource external s = write_reg (\<lambda>h. h\<lparr>dcdc_external := external\<rparr>) s"

definition SwitchToOverdriveConfig :: "lpm \<Rightarrow> lpm" where
  "SwitchToOverdriveConfig s =
     write_reg (\<lambda>h. h\<lparr>fet_odrive := False\<rparr>) (DCDC_AdjustTargetVoltage VDDRun_1275_mV
       (write_reg (\<lambda>h. h\<lparr>load_resistor := True\<rparr>) (DCDC_BootIntoCCM s)))"

definition SwitchToRegularConfig :: "lpm \<Rightarrow> lpm" where
  "SwitchToRegularConfig s = DCDC_AdjustTargetVoltage VDDRun_1150_mV s"

definition SwitchToLowPowerConfig :: "lpm \<Rightarrow> lpm" where
  "SwitchToLowPowerConfig s =
     write_reg (\<lambda>h. h\<lparr>fet_odrive := True\<rparr>) (write_reg (\<lambda>h. h\<lparr>pwd_cmp_offset := True\<rparr>)
       (write_reg (\<lambda>h. h\<lparr>load_resistor := False\<rparr>) (DCDC_BootIntoDCM (DCDC_AdjustTargetVoltage VDDRun_950_mV s))))"

definition bandgap_SwitchToRegularMode :: "lpm \<Rightarrow> lpm" where
  "bandgap_SwitchToRegularMode s = write_reg (\<lambda>h. h\<lparr>reftop_lowpower := False\<rparr>) (write_reg (\<lambda>h. h\<lparr>lpbg_sel := False\<rparr>)
       (write_reg (\<lambda>h. h\<lparr>reftop_pwd := False\<rparr>) s))"

definition bandgap_SwitchToLowPowerMode :: "lpm \<Rightarrow> lpm" where
  "bandgap_SwitchToLowPowerMode s = write_reg (\<lambda>h. h\<lparr>reftop_pwd := True\<rparr>) (write_reg (\<lambda>h. h\<lparr>lpbg_sel := True\<rparr>)
       (write_reg (\<lambda>h. h\<lparr>reftop_lowpower := True\<rparr>) s))"

definition ldo_SwitchToRegularMode :: "lpm \<Rightarrow> lpm" where
  "ldo_SwitchToRegularMode s = write_reg (\<lambda>h. h\<lparr>weak_linreg_1p1 := False\<rparr>) (write_reg (\<lambda>h. h\<lparr>linreg_1p1 := True\<rparr>)
       (write_reg (\<lambda>h. h\<lparr>weak_linreg_2p5 := False\<rparr>) (write_reg (\<lambda>h. h\<lparr>linreg_2p5 := True\<rparr>) s)))"

definition ldo_SwitchToLowPowerMode :: "lpm \<Rightarrow> lpm" where
  "ldo_SwitchToLowPowerMode s = write_reg (\<lambda>h. h\<lparr>linreg_1p1 := False\<rparr>) (write_reg (\<lambda>h. h\<lparr>weak_linreg_1p1 := True\<rparr>)
       (write_reg (\<lambda>h. h\<lparr>linreg_2p5 := False\<rparr>) (write_reg (\<lambda>h. h\<lparr>weak_linreg_2p5 := True\<rparr>) s)))"

section \<open>PLL2 and the external RAM\<close>

text \<open>Construction and destruction of an \<^verbatim>\<open>RT1051DriverPLL2\<close> object.\<close>

definition IsPLL2Enabled :: "lpm \<Rightarrow> bool" where
  "IsPLL2Enabled s \<longleftrightarrow> pll2_enabled (regs s)"

definition pll2_create :: "lpm \<Rightarrow> lpm" where
  "pll2_create s =
     (if IsPLL2Enabled s then s
      else let overdrive = vdd_run (regs s) \<ge> VDDRun_1275_mV;
               s1 = if overdrive then s else SwitchToOverdriveConfig s;
               s2 = ldo_SwitchToRegularMode (bandgap_SwitchToRegularMode s1);
               s3 = if overdrive then s2 else SwitchToRegularConfig s2
           in write_reg (\<lambda>h. h\<lparr>pll2_enabled := True\<rparr>) s3)"

definition pll2_destroy :: "lpm \<Rightarrow> lpm" where
  "pll2_destroy s =
     (if semc_mux (regs s) = SemcMuxPeripheralClock \<and> \<not> IsClockEnabled (Lpspi 1) s \<and> \<not> IsClockEnabled (Lpspi 2) s \<and>
         \<not> IsClockEnabled (Lpspi 3) s \<and> \<not> IsClockEnabled (Lpspi 4) s \<and> \<not> IsClockEnabled (Usdhc 1) s \<and>
         \<not> IsClockEnabled (Usdhc 2) s
      then bandgap_SwitchToLowPowerMode (ldo_SwitchToLowPowerMode
             (SwitchToLowPowerConfig (write_reg (\<lambda>h. h\<lparr>pll2_enabled := False\<rparr>) s)))
      else s)"

definition SwitchToPLL2ClockSource :: "lpm \<Rightarrow> lpm" where
  "SwitchToPLL2ClockSource s =
     (let s1 = if semc_holds_pll2 s then s else (pll2_create s)\<lparr>semc_holds_pll2 := True\<rparr>
      in write_reg (\<lambda>h. h\<lparr>semc_mux := SemcMuxPLL2Clock\<rparr>) s1)"

definition SwitchToPeripheralClockSource :: "lpm \<Rightarrow> lpm" where
  "SwitchToPeripheralClockSource s =
     (let s1 = write_reg (\<lambda>h. h\<lparr>semc_mux := SemcMuxPeripheralClock\<rparr>) s
      in if semc_holds_pll2 s1 then (pll2_destroy s1)\<lparr>semc_holds_pll2 := False\<rparr> else s1)"

section \<open>Oscillator\<close>

text \<open>
  The functions of the clock driver (\<^verbatim>\<open>fsl_clock.c\<close>). The tuning value of the RC oscillator is
  the one written; that the hardware tunes it further is not modelled.
\<close>

definition CLOCK_InitExternalClk :: "lpm \<Rightarrow> lpm" where
  "CLOCK_InitExternalClk s =
     write_reg (\<lambda>h. h\<lparr>osc_xtalok_en := False\<rparr>) (write_reg (\<lambda>h. h\<lparr>osc_xtalok_en := True\<rparr>)
       (write_reg (\<lambda>h. h\<lparr>xtal_24m_pwd := False\<rparr>) s))"

definition CLOCK_DeinitExternalClk :: "lpm \<Rightarrow> lpm" where
  "CLOCK_DeinitExternalClk s = write_reg (\<lambda>h. h\<lparr>xtal_24m_pwd := True\<rparr>) s"

datatype clock_osc = kCLOCK_RcOsc | kCLOCK_XtalOsc

definition CLOCK_SwitchOsc :: "clock_osc \<Rightarrow> lpm \<Rightarrow> lpm" where
  "CLOCK_SwitchOsc osc s = write_reg (\<lambda>h. h\<lparr>osc_sel := (osc = kCLOCK_RcOsc)\<rparr>) s"

definition CLOCK_InitRcOsc24M :: "lpm \<Rightarrow> lpm" where
  "CLOCK_InitRcOsc24M s = write_reg (\<lambda>h. h\<lparr>rc_osc_en := True\<rparr>) s"

definition CLOCK_DeinitRcOsc24M :: "lpm \<Rightarrow> lpm" where
  "CLOCK_DeinitRcOsc24M s = write_reg (\<lambda>h. h\<lparr>rc_osc_en := False\<rparr>) s"

definition IsExternalOscillatorEnabled :: "lpm \<Rightarrow> bool" where
  "IsExternalOscillatorEnabled s \<longleftrightarrow> \<not> osc_sel (regs s)"

definition SwitchToExternalOscillator :: "lpm \<Rightarrow> lpm" where
  "SwitchToExternalOscillator s =
     (if \<not> IsExternalOscillatorEnabled s
      then write_reg (\<lambda>h. h\<lparr>oscnt := 127\<rparr>) (CLOCK_DeinitRcOsc24M (CLOCK_SwitchOsc kCLOCK_XtalOsc
             (DCDC_SetClockSource True (CLOCK_InitExternalClk s))))
      else s)"

text \<open>The values of the RC oscillator's configuration: tuning, start and enable; then with hysteresis.\<close>

definition rc_tuning :: u32 where
  "rc_tuning = push_bit 24 0x4 OR push_bit 16 0x2 OR push_bit 4 0xA7 OR 0x1 OR 0x2"

definition add_hysteresis :: "u32 \<Rightarrow> u32" where
  "add_hysteresis v = v AND NOT (0xF000 OR 0xF0000) OR (push_bit 12 0x3 OR push_bit 16 0x3)"

definition SwitchToInternalOscillator :: "lpm \<Rightarrow> bool \<times> lpm" where
  "SwitchToInternalOscillator s =
     (if IsExternalOscillatorEnabled s
      then if IsClockEnabled (Lpuart 1) s \<or> IsClockEnabled (Lpuart 2) s \<or> IsClockEnabled (Lpuart 3) s \<or>
              IsClockEnabled (Lpuart 4) s \<or> IsClockEnabled (Lpuart 5) s \<or> IsClockEnabled (Lpuart 6) s \<or>
              IsClockEnabled (Lpuart 7) s \<or> IsClockEnabled (Lpuart 8) s
           then (False, s)
           else (True, CLOCK_DeinitExternalClk (CLOCK_SwitchOsc kCLOCK_RcOsc (DCDC_SetClockSource False
                   (write_reg (\<lambda>h. h\<lparr>osc_config0 := add_hysteresis (osc_config0 h)\<rparr>)
                     (write_reg (\<lambda>h. h\<lparr>osc_config1 := push_bit 20 0x40 OR 0x2DC\<rparr>)
                       (write_reg (\<lambda>h. h\<lparr>osc_config0 := rc_tuning\<rparr>) (CLOCK_InitRcOsc24M s)))))))
      else (True, s))"

datatype OscillatorSource = ExternalSource | InternalSource

definition SwitchOscillatorSource :: "OscillatorSource \<Rightarrow> lpm \<Rightarrow> lpm" where
  "SwitchOscillatorSource src s =
     (case src of InternalSource \<Rightarrow> snd (SwitchToInternalOscillator s)
      | ExternalSource \<Rightarrow> SwitchToExternalOscillator s)"

section \<open>Frequency changes\<close>

text \<open>Permission to enter WFI, as the alarm clock product implements it (\<^verbatim>\<open>WfiController.cpp\<close>).\<close>

definition allowEnteringWfiMode :: "lpm \<Rightarrow> lpm" where
  "allowEnteringWfiMode s = s\<lparr>wfiModeAllowed := True\<rparr>"

definition blockEnteringWfiMode :: "lpm \<Rightarrow> lpm" where
  "blockEnteringWfiMode s = s\<lparr>wfiModeAllowed := False\<rparr>"

datatype CpuClock = CpuClock_Osc_4_Mhz | CpuClock_Osc_12_Mhz | CpuClock_Osc_24_Mhz | CpuClock_Pll2_66_Mhz
  | CpuClock_Pll2_132_Mhz | CpuClock_Pll2_264_Mhz | CpuClock_Pll2_528_Mhz

definition set_mux :: "periph_source \<Rightarrow> lpm \<Rightarrow> lpm" where
  "set_mux m = write_reg (\<lambda>h. h\<lparr>periph_mux := m\<rparr>)"

definition set_div :: "nat \<Rightarrow> lpm \<Rightarrow> lpm" where
  "set_div d = write_reg (\<lambda>h. h\<lparr>ahb_div := d\<rparr>)"

text \<open>A divider register that holds \<open>d\<close> divides by \<open>d + 1\<close>.\<close>

fun CpuFreqLPM_SetCpuFrequency :: "CpuClock \<Rightarrow> lpm \<Rightarrow> lpm" where
  "CpuFreqLPM_SetCpuFrequency CpuClock_Osc_4_Mhz s = set_div 5 (set_mux Osc_24MHz s)"
| "CpuFreqLPM_SetCpuFrequency CpuClock_Osc_12_Mhz s = set_div 1 (set_mux Osc_24MHz s)"
| "CpuFreqLPM_SetCpuFrequency CpuClock_Osc_24_Mhz s = set_div 0 (set_mux Osc_24MHz s)"
| "CpuFreqLPM_SetCpuFrequency CpuClock_Pll2_66_Mhz s = set_mux Pll2_528MHz (set_div 7 s)"
| "CpuFreqLPM_SetCpuFrequency CpuClock_Pll2_132_Mhz s = set_mux Pll2_528MHz (set_div 3 s)"
| "CpuFreqLPM_SetCpuFrequency CpuClock_Pll2_264_Mhz s = set_mux Pll2_528MHz (set_div 1 s)"
| "CpuFreqLPM_SetCpuFrequency CpuClock_Pll2_528_Mhz s = set_mux Pll2_528MHz (set_div 0 s)"

fun clock_of_level :: "CpuFrequencyMHz \<Rightarrow> CpuClock" where
  "clock_of_level Level_0 = CpuClock_Osc_4_Mhz"
| "clock_of_level Level_1 = CpuClock_Osc_12_Mhz"
| "clock_of_level Level_2 = CpuClock_Osc_24_Mhz"
| "clock_of_level Level_3 = CpuClock_Pll2_66_Mhz"
| "clock_of_level Level_4 = CpuClock_Pll2_132_Mhz"
| "clock_of_level Level_5 = CpuClock_Pll2_264_Mhz"
| "clock_of_level Level_6 = CpuClock_Pll2_528_Mhz"

definition onChangeUp :: "CpuFrequencyMHz \<Rightarrow> CpuFrequencyMHz \<Rightarrow> lpm \<Rightarrow> lpm" where
  "onChangeUp freq newFrequency s =
     (if freq \<le> Level_1 \<and> newFrequency > Level_1
      then SwitchToPLL2ClockSource (SwitchOscillatorSource ExternalSource (blockEnteringWfiMode s))
      else s)"

definition onChangeDown :: "CpuFrequencyMHz \<Rightarrow> lpm \<Rightarrow> lpm" where
  "onChangeDown newFrequency s =
     (if newFrequency \<le> Level_1
      then allowEnteringWfiMode (SwitchToPeripheralClockSource (SwitchOscillatorSource InternalSource s))
      else s)"

definition lpm_SetCpuFrequency :: "CpuFrequencyMHz \<Rightarrow> lpm \<Rightarrow> lpm" where
  "lpm_SetCpuFrequency freq s =
     (if currentFrequency s = freq then s
      else let above12 = currentFrequency s > Level_1 \<or> freq > Level_1;
               up = currentFrequency s < freq;
               s1 = if above12 then SwitchToOverdriveConfig s else s;
               s2 = if up then onChangeUp (currentFrequency s) freq s1 else s1;
               s3 = CpuFreqLPM_SetCpuFrequency (clock_of_level freq) s2;
               s4 = if above12 then SwitchToRegularConfig s3 else s3;
               s5 = if \<not> up then onChangeDown freq s4 else s4
           in s5\<lparr>currentFrequency := freq\<rparr>)"

section \<open>Safety of the hardware\<close>

definition cpu_mhz :: "hw \<Rightarrow> nat" where
  "cpu_mhz h = (case periph_mux h of Pll2_528MHz \<Rightarrow> 528 | Osc_24MHz \<Rightarrow> 24) div (ahb_div h + 1)"

text \<open>
  What each state of the registers has to satisfy: the core and the external RAM are clocked from PLL2 only
  while it is enabled, PLL2 runs only from the regular bandgap and regulators with at least 1.15 V core
  voltage, and the core runs from PLL2 only while the external oscillator feeds it. The selected oscillator
  runs, and so does the one the core supply is clocked from; one of the two bandgaps and one of the two regulators
  of each voltage is on.
\<close>

definition oscillators_run :: "hw \<Rightarrow> bool" where
  "oscillators_run h \<longleftrightarrow>
     (if osc_sel h then rc_osc_en h else \<not> xtal_24m_pwd h) \<and> (dcdc_external h \<longrightarrow> \<not> xtal_24m_pwd h)"

definition supplies_on :: "hw \<Rightarrow> bool" where
  "supplies_on h \<longleftrightarrow>
     (reftop_pwd h \<longrightarrow> lpbg_sel h \<and> reftop_lowpower h) \<and>
     (linreg_2p5 h \<or> weak_linreg_2p5 h) \<and> (linreg_1p1 h \<or> weak_linreg_1p1 h)"

definition hw_safe :: "hw \<Rightarrow> bool" where
  "hw_safe h \<longleftrightarrow>
     (periph_mux h = Pll2_528MHz \<longrightarrow> pll2_enabled h \<and> external_osc h) \<and>
     (semc_mux h = SemcMuxPLL2Clock \<longrightarrow> pll2_enabled h) \<and>
     (pll2_enabled h \<longrightarrow> bandgap_regular h \<and> ldo_regular h \<and> vdd_run h \<ge> VDDRun_1150_mV) \<and>
     oscillators_run h \<and> supplies_on h"

definition hist_safe :: "lpm \<Rightarrow> bool" where
  "hist_safe s \<longleftrightarrow> (\<forall>h \<in> set (regs s # history s). hw_safe h)"

definition lpm_inv :: "lpm \<Rightarrow> bool" where
  "lpm_inv s \<longleftrightarrow>
     hist_safe s \<and>
     cpu_mhz (regs s) = mhz (currentFrequency s) \<and>
     (periph_mux (regs s) = Pll2_528MHz \<longleftrightarrow> currentFrequency s > Level_2) \<and>
     (semc_mux (regs s) = SemcMuxPLL2Clock \<longleftrightarrow> currentFrequency s > Level_1) \<and>
     (semc_holds_pll2 s \<longleftrightarrow> currentFrequency s > Level_1) \<and>
     (currentFrequency s > Level_1 \<longrightarrow> external_osc (regs s) \<and> \<not> wfiModeAllowed s)"

lemma write_reg_simps [simp]:
  "regs (write_reg f s) = f (regs s)" "history (write_reg f s) = regs s # history s"
  "currentFrequency (write_reg f s) = currentFrequency s" "semc_holds_pll2 (write_reg f s) = semc_holds_pll2 s"
  "wfiModeAllowed (write_reg f s) = wfiModeAllowed s"
  by (simp_all add: write_reg_def)

lemmas vdd_values [simp] = VDDRun_950_mV_def VDDRun_1150_mV_def VDDRun_1275_mV_def

lemma hist_safe_write [simp]: "hist_safe (write_reg f s) \<longleftrightarrow> hw_safe (f (regs s)) \<and> hist_safe s"
  by (auto simp: hist_safe_def)

lemma hist_safe_regs: "hist_safe s \<Longrightarrow> hw_safe (regs s)"
  by (simp add: hist_safe_def)

lemma hist_safe_fields [simp]:
  "hist_safe (s\<lparr>currentFrequency := f\<rparr>) = hist_safe s" "hist_safe (s\<lparr>semc_holds_pll2 := b\<rparr>) = hist_safe s"
  "hist_safe (s\<lparr>wfiModeAllowed := b\<rparr>) = hist_safe s"
  by (simp_all add: hist_safe_def)

text \<open>
  The steps of a frequency change that do not touch the selection of the core clock: they keep the
  registers that select it, also in the states in between.
\<close>

definition core_clocks :: "lpm \<Rightarrow> nat set" where
  "core_clocks s = cpu_mhz ` set (regs s # history s)"

definition same_core :: "lpm \<Rightarrow> lpm \<Rightarrow> bool" where
  "same_core s t \<longleftrightarrow> periph_mux (regs t) = periph_mux (regs s) \<and> ahb_div (regs t) = ahb_div (regs s) \<and>
     currentFrequency t = currentFrequency s \<and> core_clocks t = core_clocks s"

lemma same_core_trans: "same_core s t \<Longrightarrow> same_core t u \<Longrightarrow> same_core s u"
  by (simp add: same_core_def)

lemma core_clocks_write [simp]: "core_clocks (write_reg f s) = insert (cpu_mhz (f (regs s))) (core_clocks s)"
  by (simp add: core_clocks_def)

lemma core_clocks_regs [simp]: "insert (cpu_mhz (regs s)) (core_clocks s) = core_clocks s"
  by (auto simp: core_clocks_def)

lemma core_clocks_fields [simp]:
  "core_clocks (s\<lparr>currentFrequency := f\<rparr>) = core_clocks s" "core_clocks (s\<lparr>semc_holds_pll2 := b\<rparr>) = core_clocks s"
  "core_clocks (s\<lparr>wfiModeAllowed := b\<rparr>) = core_clocks s"
  by (simp_all add: core_clocks_def)

lemma cpu_mhz_fields [simp]:
  "cpu_mhz (h\<lparr>disable_step := b\<rparr>) = cpu_mhz h" "cpu_mhz (h\<lparr>rcscale := w\<rparr>) = cpu_mhz h"
  "cpu_mhz (h\<lparr>dcm_set_ctrl := b\<rparr>) = cpu_mhz h"
  "cpu_mhz (h\<lparr>semc_mux := a\<rparr>) = cpu_mhz h" "cpu_mhz (h\<lparr>pll2_enabled := b\<rparr>) = cpu_mhz h"
  "cpu_mhz (h\<lparr>osc_sel := b\<rparr>) = cpu_mhz h" "cpu_mhz (h\<lparr>xtal_24m_pwd := b\<rparr>) = cpu_mhz h"
  "cpu_mhz (h\<lparr>osc_xtalok_en := b\<rparr>) = cpu_mhz h" "cpu_mhz (h\<lparr>rc_osc_en := b\<rparr>) = cpu_mhz h"
  "cpu_mhz (h\<lparr>osc_config0 := v\<rparr>) = cpu_mhz h" "cpu_mhz (h\<lparr>osc_config1 := v\<rparr>) = cpu_mhz h"
  "cpu_mhz (h\<lparr>oscnt := w\<rparr>) = cpu_mhz h" "cpu_mhz (h\<lparr>dcdc_external := b\<rparr>) = cpu_mhz h"
  "cpu_mhz (h\<lparr>vdd_run := v\<rparr>) = cpu_mhz h" "cpu_mhz (h\<lparr>pwd_zcd := b\<rparr>) = cpu_mhz h"
  "cpu_mhz (h\<lparr>load_resistor := b\<rparr>) = cpu_mhz h" "cpu_mhz (h\<lparr>pwd_cmp_offset := b\<rparr>) = cpu_mhz h"
  "cpu_mhz (h\<lparr>fet_odrive := b\<rparr>) = cpu_mhz h" "cpu_mhz (h\<lparr>reftop_pwd := b\<rparr>) = cpu_mhz h"
  "cpu_mhz (h\<lparr>lpbg_sel := b\<rparr>) = cpu_mhz h" "cpu_mhz (h\<lparr>reftop_lowpower := b\<rparr>) = cpu_mhz h"
  "cpu_mhz (h\<lparr>linreg_2p5 := b\<rparr>) = cpu_mhz h" "cpu_mhz (h\<lparr>weak_linreg_2p5 := b\<rparr>) = cpu_mhz h"
  "cpu_mhz (h\<lparr>linreg_1p1 := b\<rparr>) = cpu_mhz h" "cpu_mhz (h\<lparr>weak_linreg_1p1 := b\<rparr>) = cpu_mhz h"
  "cpu_mhz (h\<lparr>clocks_enabled := cs\<rparr>) = cpu_mhz h"
  by (simp_all add: cpu_mhz_def)

text \<open>Which writes leave these parts alone.\<close>

lemma external_osc_fields [simp]:
  "external_osc (h\<lparr>disable_step := b\<rparr>) = external_osc h" "external_osc (h\<lparr>rcscale := w\<rparr>) = external_osc h"
  "external_osc (h\<lparr>dcm_set_ctrl := b\<rparr>) = external_osc h"
  "external_osc (h\<lparr>periph_mux := m\<rparr>) = external_osc h" "external_osc (h\<lparr>ahb_div := d\<rparr>) = external_osc h"
  "external_osc (h\<lparr>semc_mux := a\<rparr>) = external_osc h" "external_osc (h\<lparr>pll2_enabled := b\<rparr>) = external_osc h"
  "external_osc (h\<lparr>xtal_24m_pwd := b\<rparr>) = external_osc h" "external_osc (h\<lparr>osc_xtalok_en := b\<rparr>) = external_osc h"
  "external_osc (h\<lparr>rc_osc_en := b\<rparr>) = external_osc h" "external_osc (h\<lparr>osc_config0 := v\<rparr>) = external_osc h"
  "external_osc (h\<lparr>osc_config1 := v\<rparr>) = external_osc h" "external_osc (h\<lparr>oscnt := w\<rparr>) = external_osc h"
  "external_osc (h\<lparr>dcdc_external := b\<rparr>) = external_osc h" "external_osc (h\<lparr>vdd_run := v\<rparr>) = external_osc h"
  "external_osc (h\<lparr>pwd_zcd := b\<rparr>) = external_osc h" "external_osc (h\<lparr>load_resistor := b\<rparr>) = external_osc h"
  "external_osc (h\<lparr>pwd_cmp_offset := b\<rparr>) = external_osc h" "external_osc (h\<lparr>fet_odrive := b\<rparr>) = external_osc h"
  "external_osc (h\<lparr>reftop_pwd := b\<rparr>) = external_osc h" "external_osc (h\<lparr>lpbg_sel := b\<rparr>) = external_osc h"
  "external_osc (h\<lparr>reftop_lowpower := b\<rparr>) = external_osc h" "external_osc (h\<lparr>linreg_2p5 := b\<rparr>) = external_osc h"
  "external_osc (h\<lparr>weak_linreg_2p5 := b\<rparr>) = external_osc h" "external_osc (h\<lparr>linreg_1p1 := b\<rparr>) = external_osc h"
  "external_osc (h\<lparr>weak_linreg_1p1 := b\<rparr>) = external_osc h" "external_osc (h\<lparr>clocks_enabled := cs\<rparr>) = external_osc h"
  by (simp_all add: external_osc_def)

lemma bandgap_regular_fields [simp]:
  "bandgap_regular (h\<lparr>disable_step := b\<rparr>) = bandgap_regular h" "bandgap_regular (h\<lparr>rcscale := w\<rparr>) = bandgap_regular h"
  "bandgap_regular (h\<lparr>dcm_set_ctrl := b\<rparr>) = bandgap_regular h"
  "bandgap_regular (h\<lparr>periph_mux := m\<rparr>) = bandgap_regular h" "bandgap_regular (h\<lparr>ahb_div := d\<rparr>) = bandgap_regular h"
  "bandgap_regular (h\<lparr>semc_mux := a\<rparr>) = bandgap_regular h" "bandgap_regular (h\<lparr>pll2_enabled := b\<rparr>) = bandgap_regular h"
  "bandgap_regular (h\<lparr>osc_sel := b\<rparr>) = bandgap_regular h" "bandgap_regular (h\<lparr>xtal_24m_pwd := b\<rparr>) = bandgap_regular h"
  "bandgap_regular (h\<lparr>osc_xtalok_en := b\<rparr>) = bandgap_regular h" "bandgap_regular (h\<lparr>rc_osc_en := b\<rparr>) = bandgap_regular h"
  "bandgap_regular (h\<lparr>osc_config0 := v\<rparr>) = bandgap_regular h" "bandgap_regular (h\<lparr>osc_config1 := v\<rparr>) = bandgap_regular h"
  "bandgap_regular (h\<lparr>oscnt := w\<rparr>) = bandgap_regular h" "bandgap_regular (h\<lparr>dcdc_external := b\<rparr>) = bandgap_regular h"
  "bandgap_regular (h\<lparr>vdd_run := v\<rparr>) = bandgap_regular h" "bandgap_regular (h\<lparr>pwd_zcd := b\<rparr>) = bandgap_regular h"
  "bandgap_regular (h\<lparr>load_resistor := b\<rparr>) = bandgap_regular h" "bandgap_regular (h\<lparr>pwd_cmp_offset := b\<rparr>) = bandgap_regular h"
  "bandgap_regular (h\<lparr>fet_odrive := b\<rparr>) = bandgap_regular h" "bandgap_regular (h\<lparr>linreg_2p5 := b\<rparr>) = bandgap_regular h"
  "bandgap_regular (h\<lparr>weak_linreg_2p5 := b\<rparr>) = bandgap_regular h" "bandgap_regular (h\<lparr>linreg_1p1 := b\<rparr>) = bandgap_regular h"
  "bandgap_regular (h\<lparr>weak_linreg_1p1 := b\<rparr>) = bandgap_regular h" "bandgap_regular (h\<lparr>clocks_enabled := cs\<rparr>) = bandgap_regular h"
  by (simp_all add: bandgap_regular_def)

lemma ldo_regular_fields [simp]:
  "ldo_regular (h\<lparr>disable_step := b\<rparr>) = ldo_regular h" "ldo_regular (h\<lparr>rcscale := w\<rparr>) = ldo_regular h"
  "ldo_regular (h\<lparr>dcm_set_ctrl := b\<rparr>) = ldo_regular h"
  "ldo_regular (h\<lparr>periph_mux := m\<rparr>) = ldo_regular h" "ldo_regular (h\<lparr>ahb_div := d\<rparr>) = ldo_regular h"
  "ldo_regular (h\<lparr>semc_mux := a\<rparr>) = ldo_regular h" "ldo_regular (h\<lparr>pll2_enabled := b\<rparr>) = ldo_regular h"
  "ldo_regular (h\<lparr>osc_sel := b\<rparr>) = ldo_regular h" "ldo_regular (h\<lparr>xtal_24m_pwd := b\<rparr>) = ldo_regular h"
  "ldo_regular (h\<lparr>osc_xtalok_en := b\<rparr>) = ldo_regular h" "ldo_regular (h\<lparr>rc_osc_en := b\<rparr>) = ldo_regular h"
  "ldo_regular (h\<lparr>osc_config0 := v\<rparr>) = ldo_regular h" "ldo_regular (h\<lparr>osc_config1 := v\<rparr>) = ldo_regular h"
  "ldo_regular (h\<lparr>oscnt := w\<rparr>) = ldo_regular h" "ldo_regular (h\<lparr>dcdc_external := b\<rparr>) = ldo_regular h"
  "ldo_regular (h\<lparr>vdd_run := v\<rparr>) = ldo_regular h" "ldo_regular (h\<lparr>pwd_zcd := b\<rparr>) = ldo_regular h"
  "ldo_regular (h\<lparr>load_resistor := b\<rparr>) = ldo_regular h" "ldo_regular (h\<lparr>pwd_cmp_offset := b\<rparr>) = ldo_regular h"
  "ldo_regular (h\<lparr>fet_odrive := b\<rparr>) = ldo_regular h" "ldo_regular (h\<lparr>reftop_pwd := b\<rparr>) = ldo_regular h"
  "ldo_regular (h\<lparr>lpbg_sel := b\<rparr>) = ldo_regular h" "ldo_regular (h\<lparr>reftop_lowpower := b\<rparr>) = ldo_regular h"
  "ldo_regular (h\<lparr>clocks_enabled := cs\<rparr>) = ldo_regular h"
  by (simp_all add: ldo_regular_def)

lemma oscillators_run_fields [simp]:
  "oscillators_run (h\<lparr>disable_step := b\<rparr>) = oscillators_run h" "oscillators_run (h\<lparr>rcscale := w\<rparr>) = oscillators_run h"
  "oscillators_run (h\<lparr>dcm_set_ctrl := b\<rparr>) = oscillators_run h"
  "oscillators_run (h\<lparr>periph_mux := m\<rparr>) = oscillators_run h" "oscillators_run (h\<lparr>ahb_div := d\<rparr>) = oscillators_run h"
  "oscillators_run (h\<lparr>semc_mux := a\<rparr>) = oscillators_run h" "oscillators_run (h\<lparr>pll2_enabled := b\<rparr>) = oscillators_run h"
  "oscillators_run (h\<lparr>osc_xtalok_en := b\<rparr>) = oscillators_run h" "oscillators_run (h\<lparr>osc_config0 := v\<rparr>) = oscillators_run h"
  "oscillators_run (h\<lparr>osc_config1 := v\<rparr>) = oscillators_run h" "oscillators_run (h\<lparr>oscnt := w\<rparr>) = oscillators_run h"
  "oscillators_run (h\<lparr>vdd_run := v\<rparr>) = oscillators_run h" "oscillators_run (h\<lparr>pwd_zcd := b\<rparr>) = oscillators_run h"
  "oscillators_run (h\<lparr>load_resistor := b\<rparr>) = oscillators_run h" "oscillators_run (h\<lparr>pwd_cmp_offset := b\<rparr>) = oscillators_run h"
  "oscillators_run (h\<lparr>fet_odrive := b\<rparr>) = oscillators_run h" "oscillators_run (h\<lparr>reftop_pwd := b\<rparr>) = oscillators_run h"
  "oscillators_run (h\<lparr>lpbg_sel := b\<rparr>) = oscillators_run h" "oscillators_run (h\<lparr>reftop_lowpower := b\<rparr>) = oscillators_run h"
  "oscillators_run (h\<lparr>linreg_2p5 := b\<rparr>) = oscillators_run h" "oscillators_run (h\<lparr>weak_linreg_2p5 := b\<rparr>) = oscillators_run h"
  "oscillators_run (h\<lparr>linreg_1p1 := b\<rparr>) = oscillators_run h" "oscillators_run (h\<lparr>weak_linreg_1p1 := b\<rparr>) = oscillators_run h"
  "oscillators_run (h\<lparr>clocks_enabled := cs\<rparr>) = oscillators_run h"
  by (simp_all add: oscillators_run_def)

lemma supplies_on_fields [simp]:
  "supplies_on (h\<lparr>disable_step := b\<rparr>) = supplies_on h" "supplies_on (h\<lparr>rcscale := w\<rparr>) = supplies_on h"
  "supplies_on (h\<lparr>dcm_set_ctrl := b\<rparr>) = supplies_on h"
  "supplies_on (h\<lparr>periph_mux := m\<rparr>) = supplies_on h" "supplies_on (h\<lparr>ahb_div := d\<rparr>) = supplies_on h"
  "supplies_on (h\<lparr>semc_mux := a\<rparr>) = supplies_on h" "supplies_on (h\<lparr>pll2_enabled := b\<rparr>) = supplies_on h"
  "supplies_on (h\<lparr>osc_sel := b\<rparr>) = supplies_on h" "supplies_on (h\<lparr>xtal_24m_pwd := b\<rparr>) = supplies_on h"
  "supplies_on (h\<lparr>osc_xtalok_en := b\<rparr>) = supplies_on h" "supplies_on (h\<lparr>rc_osc_en := b\<rparr>) = supplies_on h"
  "supplies_on (h\<lparr>osc_config0 := v\<rparr>) = supplies_on h" "supplies_on (h\<lparr>osc_config1 := v\<rparr>) = supplies_on h"
  "supplies_on (h\<lparr>oscnt := w\<rparr>) = supplies_on h" "supplies_on (h\<lparr>dcdc_external := b\<rparr>) = supplies_on h"
  "supplies_on (h\<lparr>vdd_run := v\<rparr>) = supplies_on h" "supplies_on (h\<lparr>pwd_zcd := b\<rparr>) = supplies_on h"
  "supplies_on (h\<lparr>load_resistor := b\<rparr>) = supplies_on h" "supplies_on (h\<lparr>pwd_cmp_offset := b\<rparr>) = supplies_on h"
  "supplies_on (h\<lparr>fet_odrive := b\<rparr>) = supplies_on h" "supplies_on (h\<lparr>clocks_enabled := cs\<rparr>) = supplies_on h"
  by (simp_all add: supplies_on_def)

lemmas dcdc_defs = DCDC_AdjustTargetVoltage_def DCDC_BootIntoCCM_def DCDC_BootIntoDCM_def

lemmas hw_parts = external_osc_def bandgap_regular_def ldo_regular_def oscillators_run_def supplies_on_def

lemmas osc_driver_defs = CLOCK_InitExternalClk_def CLOCK_DeinitExternalClk_def CLOCK_SwitchOsc_def CLOCK_InitRcOsc24M_def
  CLOCK_DeinitRcOsc24M_def DCDC_SetClockSource_def IsExternalOscillatorEnabled_def

lemma overdrive_effect:
  "same_core s (SwitchToOverdriveConfig s)" "semc_mux (regs (SwitchToOverdriveConfig s)) = semc_mux (regs s)"
  "external_osc (regs (SwitchToOverdriveConfig s)) = external_osc (regs s)"
  "pll2_enabled (regs (SwitchToOverdriveConfig s)) = pll2_enabled (regs s)"
  "vdd_run (regs (SwitchToOverdriveConfig s)) = VDDRun_1275_mV"
  "semc_holds_pll2 (SwitchToOverdriveConfig s) = semc_holds_pll2 s"
  "wfiModeAllowed (SwitchToOverdriveConfig s) = wfiModeAllowed s"
  "hist_safe s \<Longrightarrow> hist_safe (SwitchToOverdriveConfig s)"
  by (simp_all add: SwitchToOverdriveConfig_def dcdc_defs same_core_def) (frule hist_safe_regs, simp add: hw_safe_def)

lemma regular_effect:
  "same_core s (SwitchToRegularConfig s)" "semc_mux (regs (SwitchToRegularConfig s)) = semc_mux (regs s)"
  "external_osc (regs (SwitchToRegularConfig s)) = external_osc (regs s)"
  "pll2_enabled (regs (SwitchToRegularConfig s)) = pll2_enabled (regs s)"
  "semc_holds_pll2 (SwitchToRegularConfig s) = semc_holds_pll2 s"
  "wfiModeAllowed (SwitchToRegularConfig s) = wfiModeAllowed s"
  "vdd_run (regs (SwitchToRegularConfig s)) = VDDRun_1150_mV"
  "bandgap_regular (regs (SwitchToRegularConfig s)) = bandgap_regular (regs s)"
  "ldo_regular (regs (SwitchToRegularConfig s)) = ldo_regular (regs s)"
  "hist_safe s \<Longrightarrow> hist_safe (SwitchToRegularConfig s)"
  by (simp_all add: SwitchToRegularConfig_def dcdc_defs same_core_def) (frule hist_safe_regs, simp add: hw_safe_def)

lemma bandgap_ldo_regular_effect:
  fixes s
  defines "t \<equiv> ldo_SwitchToRegularMode (bandgap_SwitchToRegularMode s)"
  shows "same_core s t" "semc_mux (regs t) = semc_mux (regs s)" "external_osc (regs t) = external_osc (regs s)"
    "pll2_enabled (regs t) = pll2_enabled (regs s)" "semc_holds_pll2 t = semc_holds_pll2 s"
    "wfiModeAllowed t = wfiModeAllowed s" "vdd_run (regs t) = vdd_run (regs s)"
    "bandgap_regular (regs t)" "ldo_regular (regs t)" "hist_safe s \<Longrightarrow> hist_safe t"
  unfolding t_def
  by (simp_all add: ldo_SwitchToRegularMode_def bandgap_SwitchToRegularMode_def same_core_def bandgap_regular_def ldo_regular_def)
    (frule hist_safe_regs, simp add: hw_safe_def hw_parts)

lemmas step_effects = overdrive_effect regular_effect bandgap_ldo_regular_effect

lemma pll2_create_effect:
  "same_core s (pll2_create s)" "semc_mux (regs (pll2_create s)) = semc_mux (regs s)"
  "external_osc (regs (pll2_create s)) = external_osc (regs s)" "pll2_enabled (regs (pll2_create s))"
  "semc_holds_pll2 (pll2_create s) = semc_holds_pll2 s" "wfiModeAllowed (pll2_create s) = wfiModeAllowed s"
proof -
  show "same_core s (pll2_create s)"
    using step_effects by (auto simp: pll2_create_def Let_def same_core_def)
qed (auto simp: pll2_create_def Let_def step_effects IsPLL2Enabled_def)

lemma pll2_enable_safe:
  "hist_safe t \<Longrightarrow> bandgap_regular (regs t) \<Longrightarrow> ldo_regular (regs t) \<Longrightarrow> vdd_run (regs t) \<ge> VDDRun_1150_mV \<Longrightarrow>
   hist_safe (write_reg (\<lambda>h. h\<lparr>pll2_enabled := True\<rparr>) t)"
  using hist_safe_regs [of t] by (auto simp: hw_safe_def)

lemma pll2_create_safe:
  assumes "hist_safe s"
  shows "hist_safe (pll2_create s)"
proof (cases "vdd_run (regs s) \<ge> VDDRun_1275_mV")
  case True
  moreover have "VDDRun_1150_mV \<le> VDDRun_1275_mV" by simp
  ultimately have "VDDRun_1150_mV \<le> vdd_run (regs s)" by (rule order_trans [rotated])
  with True assms show ?thesis
    unfolding pll2_create_def Let_def
    by (simp only: if_True split: if_split) (intro impI conjI pll2_enable_safe; simp add: bandgap_ldo_regular_effect)
next
  case False
  with assms show ?thesis
    unfolding pll2_create_def Let_def
    by (simp only: if_False split: if_split) (intro impI conjI pll2_enable_safe; simp add: step_effects)
qed

lemma pll2_destroy_effect:
  "same_core s (pll2_destroy s)" "semc_mux (regs (pll2_destroy s)) = semc_mux (regs s)"
  "external_osc (regs (pll2_destroy s)) = external_osc (regs s)"
  "semc_holds_pll2 (pll2_destroy s) = semc_holds_pll2 s" "wfiModeAllowed (pll2_destroy s) = wfiModeAllowed s"
  "hist_safe s \<Longrightarrow> periph_mux (regs s) = Osc_24MHz \<Longrightarrow> hist_safe (pll2_destroy s)"
proof -
  show "hist_safe (pll2_destroy s)" if "hist_safe s" "periph_mux (regs s) = Osc_24MHz"
    using that hist_safe_regs [of s]
    by (simp add: pll2_destroy_def SwitchToLowPowerConfig_def dcdc_defs ldo_SwitchToLowPowerMode_def
        bandgap_SwitchToLowPowerMode_def hw_safe_def supplies_on_def)
qed (simp_all add: pll2_destroy_def SwitchToLowPowerConfig_def dcdc_defs ldo_SwitchToLowPowerMode_def
       bandgap_SwitchToLowPowerMode_def same_core_def)

lemma semc_pll2_effect:
  "same_core s (SwitchToPLL2ClockSource s)" "semc_mux (regs (SwitchToPLL2ClockSource s)) = SemcMuxPLL2Clock"
  "external_osc (regs (SwitchToPLL2ClockSource s)) = external_osc (regs s)"
  "semc_holds_pll2 (SwitchToPLL2ClockSource s)" "wfiModeAllowed (SwitchToPLL2ClockSource s) = wfiModeAllowed s"
  "(semc_holds_pll2 s \<longrightarrow> pll2_enabled (regs s)) \<Longrightarrow> pll2_enabled (regs (SwitchToPLL2ClockSource s))"
  "hist_safe s \<Longrightarrow> (semc_holds_pll2 s \<longrightarrow> pll2_enabled (regs s)) \<Longrightarrow> hist_safe (SwitchToPLL2ClockSource s)"
proof -
  show "hist_safe (SwitchToPLL2ClockSource s)" if "hist_safe s" "semc_holds_pll2 s \<longrightarrow> pll2_enabled (regs s)"
    using that pll2_create_safe [OF that(1)] hist_safe_regs [of s] hist_safe_regs [of "pll2_create s"]
      pll2_create_effect(4) [of s]
    by (simp add: SwitchToPLL2ClockSource_def hw_safe_def)
  show "same_core s (SwitchToPLL2ClockSource s)"
    using pll2_create_effect(1) [of s] by (simp add: SwitchToPLL2ClockSource_def same_core_def)
qed (simp_all add: SwitchToPLL2ClockSource_def pll2_create_effect)

lemma semc_peripheral_effect:
  "same_core s (SwitchToPeripheralClockSource s)"
  "semc_mux (regs (SwitchToPeripheralClockSource s)) = SemcMuxPeripheralClock"
  "\<not> semc_holds_pll2 (SwitchToPeripheralClockSource s)"
  "hist_safe s \<Longrightarrow> periph_mux (regs s) = Osc_24MHz \<Longrightarrow> hist_safe (SwitchToPeripheralClockSource s)"
proof -
  let ?t = "write_reg (\<lambda>h. h\<lparr>semc_mux := SemcMuxPeripheralClock\<rparr>) s"
  show "hist_safe (SwitchToPeripheralClockSource s)" if "hist_safe s" "periph_mux (regs s) = Osc_24MHz"
    using that pll2_destroy_effect(6) [of ?t] hist_safe_regs [of s]
    by (simp add: SwitchToPeripheralClockSource_def hw_safe_def Let_def)
  show "same_core s (SwitchToPeripheralClockSource s)"
    using pll2_destroy_effect(1) [of ?t] by (simp add: SwitchToPeripheralClockSource_def same_core_def Let_def)
qed (simp_all add: SwitchToPeripheralClockSource_def pll2_destroy_effect Let_def)

lemma external_effect:
  "same_core s (SwitchToExternalOscillator s)" "external_osc (regs (SwitchToExternalOscillator s))"
  "semc_mux (regs (SwitchToExternalOscillator s)) = semc_mux (regs s)"
  "pll2_enabled (regs (SwitchToExternalOscillator s)) = pll2_enabled (regs s)"
  "semc_holds_pll2 (SwitchToExternalOscillator s) = semc_holds_pll2 s"
  "wfiModeAllowed (SwitchToExternalOscillator s) = wfiModeAllowed s"
  "hist_safe s \<Longrightarrow> hist_safe (SwitchToExternalOscillator s)"
  by (simp_all add: SwitchToExternalOscillator_def osc_driver_defs same_core_def external_osc_def) (auto dest!: hist_safe_regs simp: hw_safe_def external_osc_def oscillators_run_def)

lemma internal_effect:
  fixes s
  defines "t \<equiv> snd (SwitchToInternalOscillator s)"
  shows "same_core s t" "semc_mux (regs t) = semc_mux (regs s)" "pll2_enabled (regs t) = pll2_enabled (regs s)"
    "semc_holds_pll2 t = semc_holds_pll2 s"
    "hist_safe s \<Longrightarrow> periph_mux (regs s) = Osc_24MHz \<Longrightarrow> hist_safe t"
  unfolding t_def
  by (simp_all add: SwitchToInternalOscillator_def osc_driver_defs same_core_def external_osc_def) (auto dest!: hist_safe_regs simp: hw_safe_def external_osc_def oscillators_run_def)

lemma core_clock_regs:
  "regs (CpuFreqLPM_SetCpuFrequency (clock_of_level f) s) = (regs s)
     \<lparr>periph_mux := if f > Level_2 then Pll2_528MHz else Osc_24MHz,
      ahb_div := (case f of Level_0 \<Rightarrow> 5 | Level_1 \<Rightarrow> 1 | Level_2 \<Rightarrow> 0 | Level_3 \<Rightarrow> 7 | Level_4 \<Rightarrow> 3 | Level_5 \<Rightarrow> 1 | Level_6 \<Rightarrow> 0)\<rparr>"
  by (cases f) (simp_all add: set_mux_def set_div_def)

lemma core_clock_fields [simp]:
  "semc_holds_pll2 (CpuFreqLPM_SetCpuFrequency c s) = semc_holds_pll2 s"
  "wfiModeAllowed (CpuFreqLPM_SetCpuFrequency c s) = wfiModeAllowed s"
  "currentFrequency (CpuFreqLPM_SetCpuFrequency c s) = currentFrequency s"
  by (cases c; simp add: set_mux_def set_div_def; fail)+

lemma core_clock_mhz: "cpu_mhz (regs (CpuFreqLPM_SetCpuFrequency (clock_of_level f) s)) = mhz f"
  unfolding core_clock_regs by (cases f) (simp_all add: cpu_mhz_def numeral_2_eq_2 [symmetric])

lemma core_clock_safe:
  assumes "hist_safe s" "f > Level_2 \<longrightarrow> pll2_enabled (regs s) \<and> external_osc (regs s)"
  shows "hist_safe (CpuFreqLPM_SetCpuFrequency (clock_of_level f) s)"
  using assms hist_safe_regs [OF assms(1)]
  by (cases f) (simp_all add: set_mux_def set_div_def hw_safe_def)

text \<open>What holds before the core clock is switched to a level above 12 MHz.\<close>

definition pll2_ready :: "lpm \<Rightarrow> bool" where
  "pll2_ready s \<longleftrightarrow> pll2_enabled (regs s) \<and> external_osc (regs s) \<and> semc_mux (regs s) = SemcMuxPLL2Clock \<and>
     semc_holds_pll2 s \<and> \<not> wfiModeAllowed s"

definition semc_idle :: "lpm \<Rightarrow> bool" where
  "semc_idle s \<longleftrightarrow> semc_mux (regs s) = SemcMuxPeripheralClock \<and> \<not> semc_holds_pll2 s"

lemma change_up_effect:
  assumes "hist_safe s" "c > Level_1 \<longrightarrow> pll2_ready s" "c \<le> Level_1 \<longrightarrow> semc_idle s"
  shows "hist_safe (onChangeUp c f s)" "same_core s (onChangeUp c f s)" "f > Level_1 \<Longrightarrow> pll2_ready (onChangeUp c f s)"
    "f \<le> Level_1 \<Longrightarrow> onChangeUp c f s = s"
proof -
  define t where "t = SwitchToExternalOscillator (blockEnteringWfiMode s)"
  have b: "hist_safe (blockEnteringWfiMode s)" "same_core s (blockEnteringWfiMode s)"
    "semc_holds_pll2 (blockEnteringWfiMode s) = semc_holds_pll2 s" "\<not> wfiModeAllowed (blockEnteringWfiMode s)"
    using assms(1) by (simp_all add: blockEnteringWfiMode_def same_core_def)
  have t: "hist_safe t" "same_core s t" "external_osc (regs t)" "semc_holds_pll2 t = semc_holds_pll2 s" "\<not> wfiModeAllowed t"
    unfolding t_def using b external_effect same_core_trans by auto
  have u: "onChangeUp c f s = (if c \<le> Level_1 \<and> f > Level_1 then SwitchToPLL2ClockSource t else s)"
    by (simp add: onChangeUp_def SwitchOscillatorSource_def t_def)
  show "hist_safe (onChangeUp c f s)" using assms t semc_pll2_effect(7) [of t] by (simp add: u semc_idle_def)
  show "same_core s (onChangeUp c f s)"
    using t(2) semc_pll2_effect(1) [of t] same_core_trans [of s t] by (simp add: u same_core_def)
  show "pll2_ready (onChangeUp c f s)" if "f > Level_1"
    using that assms t semc_pll2_effect [of t] by (auto simp: u semc_idle_def pll2_ready_def)
  show "f \<le> Level_1 \<Longrightarrow> onChangeUp c f s = s" by (simp add: u)
qed

lemma change_down_effect:
  assumes "hist_safe s" "f \<le> Level_1 \<longrightarrow> periph_mux (regs s) = Osc_24MHz"
  shows "hist_safe (onChangeDown f s)" "same_core s (onChangeDown f s)" "f > Level_1 \<Longrightarrow> onChangeDown f s = s"
    "f \<le> Level_1 \<Longrightarrow> semc_idle (onChangeDown f s)"
proof -
  define t where "t = snd (SwitchToInternalOscillator s)"
  have t: "f \<le> Level_1 \<longrightarrow> hist_safe t \<and> periph_mux (regs t) = Osc_24MHz" "same_core s t"
    unfolding t_def using assms internal_effect [of s] by (auto simp: same_core_def)
  have u: "onChangeDown f s = (if f \<le> Level_1 then allowEnteringWfiMode (SwitchToPeripheralClockSource t) else s)"
    by (simp add: onChangeDown_def SwitchOscillatorSource_def t_def)
  show "hist_safe (onChangeDown f s)"
    using assms t semc_peripheral_effect(4) [of t] by (simp add: u allowEnteringWfiMode_def)
  show "same_core s (onChangeDown f s)"
    using t(2) semc_peripheral_effect(1) [of t] by (simp add: u same_core_def allowEnteringWfiMode_def)
  show "f > Level_1 \<Longrightarrow> onChangeDown f s = s" by (simp add: u)
  show "f \<le> Level_1 \<Longrightarrow> semc_idle (onChangeDown f s)"
    using semc_peripheral_effect [of t] by (simp add: u allowEnteringWfiMode_def semc_idle_def)
qed

lemma lpm_inv_alt:
  "lpm_inv s \<longleftrightarrow> hist_safe s \<and> cpu_mhz (regs s) = mhz (currentFrequency s) \<and>
     (periph_mux (regs s) = Pll2_528MHz \<longleftrightarrow> currentFrequency s > Level_2) \<and>
     (currentFrequency s > Level_1 \<longrightarrow> pll2_ready s) \<and> (currentFrequency s \<le> Level_1 \<longrightarrow> semc_idle s)"
  using hist_safe_regs [of s]
  by (auto simp: lpm_inv_def pll2_ready_def semc_idle_def hw_safe_def intro: semc_source.exhaust)

lemma core_clock_history:
  assumes "periph_mux (regs s) = Pll2_528MHz \<longleftrightarrow> c > Level_2" "cpu_mhz (regs s) = mhz c"
    "x \<in> core_clocks (CpuFreqLPM_SetCpuFrequency (clock_of_level f) s)"
  shows "x \<in> core_clocks s \<or> x \<le> max (mhz c) (mhz f)"
proof -
  have "(24 :: nat) div Suc d \<le> 528 div Suc d" for d by (rule div_le_mono) simp
  then have old: "24 div Suc (ahb_div (regs s)) \<le> mhz c"
    using assms(1,2) by (cases "periph_mux (regs s)") (auto simp: cpu_mhz_def, metis)
  then show ?thesis
    using assms by (cases f; cases "periph_mux (regs s)") (auto simp: set_mux_def set_div_def cpu_mhz_def numeral_2_eq_2 [symmetric])
qed

lemma set_frequency_steps:
  assumes "lpm_inv s" "currentFrequency s \<noteq> f"
  shows "hist_safe (lpm_SetCpuFrequency f s) \<and> lpm_inv (lpm_SetCpuFrequency f s) \<and>
    (\<forall>x \<in> core_clocks (lpm_SetCpuFrequency f s). x \<in> core_clocks s \<or> x \<le> max (mhz (currentFrequency s)) (mhz f))"
proof -
  let ?c = "currentFrequency s" and ?above = "currentFrequency s > Level_1 \<or> f > Level_1"
  define s1 where "s1 = (if ?above then SwitchToOverdriveConfig s else s)"
  define s2 where "s2 = (if ?c < f then onChangeUp ?c f s1 else s1)"
  define s3 where "s3 = CpuFreqLPM_SetCpuFrequency (clock_of_level f) s2"
  define s4 where "s4 = (if ?above then SwitchToRegularConfig s3 else s3)"
  define s5 where "s5 = (if \<not> ?c < f then onChangeDown f s4 else s4)"
  have inv: "hist_safe s" "cpu_mhz (regs s) = mhz ?c" "periph_mux (regs s) = Pll2_528MHz \<longleftrightarrow> ?c > Level_2"
    "?c > Level_1 \<longrightarrow> pll2_ready s" "?c \<le> Level_1 \<longrightarrow> semc_idle s" using assms(1) by (simp_all add: lpm_inv_alt)
  have s1: "hist_safe s1" "same_core s s1" "?c > Level_1 \<longrightarrow> pll2_ready s1" "?c \<le> Level_1 \<longrightarrow> semc_idle s1"
    unfolding s1_def using inv overdrive_effect [of s] by (auto simp: pll2_ready_def semc_idle_def same_core_def)
  note up = change_up_effect [OF s1(1,3,4), of f]
  have s2: "hist_safe s2" "same_core s s2" "f > Level_1 \<longrightarrow> pll2_ready s2" "f \<le> Level_1 \<and> ?c < f \<longrightarrow> semc_idle s2"
    unfolding s2_def using up s1 same_core_trans [OF s1(2)] by auto
  have s3: "hist_safe s3" "cpu_mhz (regs s3) = mhz f" "periph_mux (regs s3) = Pll2_528MHz \<longleftrightarrow> f > Level_2"
    "f > Level_1 \<longrightarrow> pll2_ready s3" "f \<le> Level_1 \<and> ?c < f \<longrightarrow> semc_idle s3"
    unfolding s3_def core_clock_mhz using s2 core_clock_safe [OF s2(1), of f]
    by (auto simp: core_clock_regs pll2_ready_def semc_idle_def)
  have s4: "hist_safe s4" "same_core s3 s4" "f > Level_1 \<longrightarrow> pll2_ready s4" "f \<le> Level_1 \<and> ?c < f \<longrightarrow> semc_idle s4"
    unfolding s4_def using s3 regular_effect [of s3] by (auto simp: pll2_ready_def semc_idle_def same_core_def)
  have mux4: "f \<le> Level_1 \<longrightarrow> periph_mux (regs s4) = Osc_24MHz"
    using s3(3) s4(2) by (cases "periph_mux (regs s4)") (auto simp: same_core_def)
  note down = change_down_effect [OF s4(1) mux4]
  have s5: "hist_safe s5" "same_core s3 s5" "f > Level_1 \<longrightarrow> pll2_ready s5" "f \<le> Level_1 \<longrightarrow> semc_idle s5"
    unfolding s5_def using down s4 same_core_trans [OF s4(2)] by auto
  have r: "lpm_SetCpuFrequency f s = s5\<lparr>currentFrequency := f\<rparr>"
    using assms(2) by (simp add: lpm_SetCpuFrequency_def Let_def s1_def s2_def s3_def s4_def s5_def)
  have cm: "cpu_mhz (regs s5) = mhz f" using s3(2) s5(2) by (simp add: cpu_mhz_def same_core_def)
  have "core_clocks s5 = core_clocks s3" "core_clocks s2 = core_clocks s" using s5(2) s2(2) by (auto simp: same_core_def)
  moreover have "cpu_mhz (regs s2) = mhz ?c" "periph_mux (regs s2) = Pll2_528MHz \<longleftrightarrow> ?c > Level_2"
    using inv(2,3) s2(2) by (auto simp: cpu_mhz_def same_core_def)
  ultimately have "\<forall>x \<in> core_clocks s5. x \<in> core_clocks s \<or> x \<le> max (mhz ?c) (mhz f)"
    using core_clock_history [of s2 ?c] s3_def by blast
  moreover have "lpm_inv (s5\<lparr>currentFrequency := f\<rparr>)"
    using s5 cm s3(3) by (auto simp: lpm_inv_alt pll2_ready_def semc_idle_def same_core_def)
  ultimately show ?thesis using s5(1) by (simp add: r)
qed

lemma set_frequency_inv: "lpm_inv s \<Longrightarrow> lpm_inv (lpm_SetCpuFrequency f s)"
  using set_frequency_steps [of s f] by (cases "currentFrequency s = f") (auto simp: lpm_SetCpuFrequency_def)

lemma set_frequency_current [simp]: "currentFrequency (lpm_SetCpuFrequency f s) = f"
  by (auto simp: lpm_SetCpuFrequency_def Let_def)

section \<open>Reachable states\<close>

text \<open>
  The controller changes the frequency while other drivers create and destroy their PLL2 objects, gate their
  clocks, ask for the external oscillator, and the sleep routine withdraws the permission to enter WFI.
\<close>

inductive lpm_step :: "lpm \<Rightarrow> lpm \<Rightarrow> bool" where
  change_frequency: "lpm_step s (lpm_SetCpuFrequency f s)"
| create_pll2: "lpm_step s (pll2_create s)"
| destroy_pll2: "lpm_step s (pll2_destroy s)"
| gate_clocks: "lpm_step s (write_reg (\<lambda>h. h\<lparr>clocks_enabled := cs\<rparr>) s)"
| use_external: "lpm_step s (SwitchToExternalOscillator s)"
| block_wfi: "lpm_step s (blockEnteringWfiMode s)"

definition core_same_mode :: "lpm \<Rightarrow> lpm \<Rightarrow> bool" where
  "core_same_mode s t \<longleftrightarrow> same_core s t \<and> semc_mux (regs t) = semc_mux (regs s) \<and>
     semc_holds_pll2 t = semc_holds_pll2 s \<and> (wfiModeAllowed t \<longrightarrow> wfiModeAllowed s) \<and>
     (external_osc (regs s) \<longrightarrow> external_osc (regs t))"

lemma core_same_mode_inv:
  assumes "lpm_inv s" "core_same_mode s t" "hist_safe t"
  shows "lpm_inv t"
proof -
  from assms(2) have "cpu_mhz (regs t) = cpu_mhz (regs s)" by (simp add: cpu_mhz_def core_same_mode_def same_core_def)
  with assms show ?thesis by (auto simp: lpm_inv_def core_same_mode_def same_core_def)
qed

lemma gated_safe: "hist_safe s \<Longrightarrow> hw_safe ((regs s)\<lparr>clocks_enabled := cs\<rparr>)"
  by (drule hist_safe_regs) (simp add: hw_safe_def)

lemma lpm_step_inv: "lpm_step s t \<Longrightarrow> lpm_inv s \<Longrightarrow> lpm_inv t"
proof (induction rule: lpm_step.induct)
  case (change_frequency s f)
  then show ?case by (rule set_frequency_inv)
next
  case (create_pll2 s)
  then show ?case
    by (rule core_same_mode_inv) (use create_pll2 in \<open>auto simp: core_same_mode_def pll2_create_effect pll2_create_safe lpm_inv_def\<close>)
next
  case (destroy_pll2 s)
  show ?case
  proof (cases "currentFrequency s > Level_1")
    case True
    with destroy_pll2 have "pll2_destroy s = s" by (simp add: pll2_destroy_def lpm_inv_def)
    with destroy_pll2 show ?thesis by simp
  next
    case False
    with destroy_pll2 have "periph_mux (regs s) = Osc_24MHz"
      by (cases "periph_mux (regs s)") (auto simp: lpm_inv_def)
    with destroy_pll2 show ?thesis
      by (intro core_same_mode_inv [OF destroy_pll2]) (auto simp: core_same_mode_def pll2_destroy_effect lpm_inv_def)
  qed
next
  case (gate_clocks s cs)
  then have "hist_safe s" by (simp add: lpm_inv_def)
  from core_same_mode_inv [OF gate_clocks] this gated_safe [OF this] show ?case
    by (simp add: core_same_mode_def same_core_def)
next
  case (use_external s)
  then show ?case
    by (rule core_same_mode_inv) (use use_external in \<open>auto simp: core_same_mode_def external_effect lpm_inv_def\<close>)
next
  case (block_wfi s)
  then show ?case
    by (rule core_same_mode_inv)
      (use block_wfi in \<open>auto simp: core_same_mode_def same_core_def blockEnteringWfiMode_def lpm_inv_def\<close>)
qed

section \<open>Properties\<close>

text \<open>
  C21. From a safe state, whatever the sequence of frequency changes, uses of PLL2 by other drivers, clock
  gatings and oscillator requests, every state the registers pass through is safe, also between the writes
  of one operation: the core and the external RAM never run from a stopped PLL2, PLL2 never runs without its
  supplies, the selected oscillator and one bandgap and regulator of each kind always run, and the core clock is
  the one of the current level whenever an operation has ended. Each write of the register functions is a state
  of its own, except for the setup of the PLL itself (\<open>pll2_enabled\<close>), which counts as one write.
\<close>

theorem clocks_always_safe:
  assumes "lpm_step\<^sup>*\<^sup>* s t" "lpm_inv s"
  shows "(\<forall>h \<in> set (regs t # history t). hw_safe h) \<and> cpu_mhz (regs t) = mhz (currentFrequency t)"
proof -
  from assms have "lpm_inv t" by (induction rule: rtranclp_induct) (auto intro: lpm_step_inv)
  then show ?thesis by (simp add: lpm_inv_def hist_safe_def)
qed

definition full_speed :: lpm where
  "full_speed = \<lparr>currentFrequency = Level_6,
     regs = \<lparr>periph_mux = Pll2_528MHz, ahb_div = 0, semc_mux = SemcMuxPLL2Clock, pll2_enabled = True,
       osc_sel = False, xtal_24m_pwd = False, osc_xtalok_en = False, rc_osc_en = False, osc_config0 = 0, osc_config1 = 0,
       oscnt = 127, dcdc_external = True,
       vdd_run = VDDRun_1150_mV, disable_step = False, pwd_zcd = True, load_resistor = True, pwd_cmp_offset = False,
       rcscale = 3, dcm_set_ctrl = False,
       fet_odrive = False, reftop_pwd = False, lpbg_sel = False, reftop_lowpower = False, linreg_2p5 = True,
       weak_linreg_2p5 = False, linreg_1p1 = True, weak_linreg_1p1 = False, clocks_enabled = [Lpuart 3]\<rparr>,
     semc_holds_pll2 = True, wfiModeAllowed = False, history = []\<rparr>"

lemma full_speed_inv: "lpm_inv full_speed"
  by (simp add: full_speed_def lpm_inv_def hist_safe_def hw_safe_def hw_parts cpu_mhz_def)

lemma clocks_always_safe_witness:
  "let t = lpm_SetCpuFrequency Level_4 (lpm_SetCpuFrequency Level_0 full_speed)
   in (\<forall>h \<in> set (regs t # history t). hw_safe h) \<and> cpu_mhz (regs t) = mhz (currentFrequency t)"
  unfolding Let_def
  by (rule clocks_always_safe [OF _ full_speed_inv])
    (meson change_frequency rtranclp.rtrancl_into_rtrancl rtranclp.rtrancl_refl)

text \<open>
  C22. During a frequency change the core clock never exceeds the faster of the old and the new level: the
  divider and the multiplexer are written in the order that avoids it.
\<close>

theorem no_overclock_in_transition:
  assumes "lpm_inv s"
  shows "\<forall>h \<in> set (history (lpm_SetCpuFrequency f (s\<lparr>history := []\<rparr>))). cpu_mhz h \<le> max (mhz (currentFrequency s)) (mhz f)"
proof -
  let ?s = "s\<lparr>history := []\<rparr>"
  have i: "lpm_inv ?s" using assms by (simp add: lpm_inv_def hist_safe_def)
  have c: "core_clocks ?s = {mhz (currentFrequency s)}" using assms by (auto simp: core_clocks_def lpm_inv_def)
  show ?thesis
  proof (cases "currentFrequency ?s = f")
    case True
    then show ?thesis by (simp add: lpm_SetCpuFrequency_def)
  next
    case False
    from set_frequency_steps [OF i False] c have "\<forall>x \<in> core_clocks (lpm_SetCpuFrequency f ?s). x \<le> max (mhz (currentFrequency s)) (mhz f)"
      by fastforce
    then show ?thesis by (auto simp: core_clocks_def)
  qed
qed

lemma no_overclock_in_transition_witness:
  "list_all (\<lambda>h. cpu_mhz h \<le> 528) (history (lpm_SetCpuFrequency Level_1 (full_speed\<lparr>history := []\<rparr>)))"
  using no_overclock_in_transition [OF full_speed_inv, of Level_1] by (simp add: list_all_iff full_speed_def)

text \<open>
  The refusal of the internal oscillator while a UART is clocked is not looked at: the system still counts as
  ready for WFI.
\<close>

lemma internal_refusal_ignored:
  "let t = lpm_SetCpuFrequency Level_0 full_speed in external_osc (regs t) \<and> wfiModeAllowed t"
  by (simp add: lpm_SetCpuFrequency_def full_speed_def SwitchToOverdriveConfig_def SwitchToRegularConfig_def
      onChangeDown_def SwitchOscillatorSource_def SwitchToInternalOscillator_def IsClockEnabled_def
      IsExternalOscillatorEnabled_def dcdc_defs
      SwitchToPeripheralClockSource_def pll2_destroy_effect set_mux_def set_div_def allowEnteringWfiMode_def Let_def)
    (simp add: external_osc_def)

end
