(* ===== verification/Governor.thy ===== *)
theory Governor
  imports LowPower
begin

text \<open>
  The CPU frequency governor, \<^verbatim>\<open>src/module-sys/SystemManager/CpuGovernor.cpp\<close> and
  \<^verbatim>\<open>GovernorSentinelOperations.cpp\<close>. Services own sentinel objects and the governor keeps weak pointers to
  them: a store maps the addresses of the sentinels that are alive to their contents, and a weak pointer is
  an address that may be gone from the store. The governor's own entries are made by \<^verbatim>\<open>make_unique\<close> only, are
  never reset, and so are never null.
\<close>

section \<open>Model\<close>

record cpu_sentinel =
  sentinel_name :: string
  sentinel_frequency :: CpuFrequencyMHz
  has_callback :: bool
  sentinel_reason :: string

type_synonym sentinel_store = "nat \<rightharpoonup> cpu_sentinel"

record governor_sentinel =
  sentinelPtr :: nat
  requestedFrequency :: CpuFrequencyMHz
  wfiBlocked :: bool

definition new_governor_sentinel :: "nat \<Rightarrow> governor_sentinel" where
  "new_governor_sentinel p = \<lparr>sentinelPtr = p, requestedFrequency = Level_0, wfiBlocked = False\<rparr>"

definition expired :: "sentinel_store \<Rightarrow> governor_sentinel \<Rightarrow> bool" where
  "expired m g \<longleftrightarrow> m (sentinelPtr g) = None"

definition named :: "sentinel_store \<Rightarrow> string \<Rightarrow> governor_sentinel \<Rightarrow> bool" where
  "named m n g \<longleftrightarrow> (case m (sentinelPtr g) of None \<Rightarrow> False | Some s \<Rightarrow> sentinel_name s = n)"

text \<open>
  The loop from the last entry to the first: \<open>k\<close> entries are left. An expired entry is erased, which moves
  only entries that have been handled already; the callback ends the loop by answering true.
\<close>

fun for_each_governed_sentinel ::
    "('s \<Rightarrow> governor_sentinel \<Rightarrow> bool) \<Rightarrow> (governor_sentinel \<Rightarrow> 's \<Rightarrow> bool \<times> 's) \<Rightarrow> nat \<Rightarrow>
     governor_sentinel list \<Rightarrow> 's \<Rightarrow> governor_sentinel list \<times> 's" where
  "for_each_governed_sentinel ex f 0 v s = (v, s)"
| "for_each_governed_sentinel ex f (Suc k) v s =
     (if ex s (v ! k) then for_each_governed_sentinel ex f k (take k v @ drop (Suc k) v) s
      else let (stop, s1) = f (v ! k) s
           in if stop then (v, s1) else for_each_governed_sentinel ex f k v s1)"

definition clean :: "sentinel_store \<Rightarrow> governor_sentinel list \<Rightarrow> governor_sentinel list" where
  "clean m v = fst (for_each_governed_sentinel (\<lambda>_. expired m) (\<lambda>_ _. (False, ())) (length v) v ())"

text \<open>\<open>None\<close> is a null pointer; the flag says whether the sentinel was added.\<close>

definition RegisterNewSentinel ::
    "sentinel_store \<Rightarrow> nat option \<Rightarrow> governor_sentinel list \<Rightarrow> bool \<times> governor_sentinel list" where
  "RegisterNewSentinel m p v =
     (case p of None \<Rightarrow> (False, v)
      | Some a \<Rightarrow>
          (case m a of None \<Rightarrow> (False, v)
           | Some s \<Rightarrow>
               let (v1, registered) = for_each_governed_sentinel (\<lambda>_. expired m)
                     (\<lambda>g r. if named m (sentinel_name s) g then (True, True) else (False, r)) (length v) v False
               in if registered then (False, v1) else (True, v1 @ [new_governor_sentinel a])))"

definition RemoveSentinel :: "sentinel_store \<Rightarrow> string \<Rightarrow> governor_sentinel list \<Rightarrow> governor_sentinel list" where
  "RemoveSentinel m n v = (if n = [] then v else filter (\<lambda>g. \<not> named m n g) v)"

fun update_first :: "('a \<Rightarrow> bool) \<Rightarrow> ('a \<Rightarrow> 'a) \<Rightarrow> 'a list \<Rightarrow> 'a list" where
  "update_first p f [] = []"
| "update_first p f (x # xs) = (if p x then f x # xs else x # update_first p f xs)"

definition SetCpuFrequencyRequest ::
    "sentinel_store \<Rightarrow> string \<Rightarrow> CpuFrequencyMHz \<Rightarrow> governor_sentinel list \<Rightarrow> governor_sentinel list" where
  "SetCpuFrequencyRequest m n f = update_first (named m n) (\<lambda>g. g\<lparr>requestedFrequency := f\<rparr>)"

definition ResetCpuFrequencyRequest :: "sentinel_store \<Rightarrow> string \<Rightarrow> governor_sentinel list \<Rightarrow> governor_sentinel list" where
  "ResetCpuFrequencyRequest m n = SetCpuFrequencyRequest m n Level_0"

definition BlockWfiMode :: "sentinel_store \<Rightarrow> string \<Rightarrow> bool \<Rightarrow> governor_sentinel list \<Rightarrow> governor_sentinel list" where
  "BlockWfiMode m n b = update_first (named m n) (\<lambda>g. g\<lparr>wfiBlocked := b\<rparr>)"

definition IsWfiBlocked :: "governor_sentinel list \<Rightarrow> bool" where
  "IsWfiBlocked v \<longleftrightarrow> (\<exists>g \<in> set v. wfiBlocked g)"

record sentinel_view =
  view_name :: string
  minFrequency :: CpuFrequencyMHz
  view_reason :: string

text \<open>The first of the entries with the highest request, as \<^verbatim>\<open>std::max_element\<close> finds it.\<close>

fun max_request :: "governor_sentinel \<Rightarrow> governor_sentinel list \<Rightarrow> governor_sentinel" where
  "max_request b [] = b"
| "max_request b (g # gs) = max_request (if requestedFrequency b < requestedFrequency g then g else b) gs"

text \<open>
  The iterator at the end of a vector that has become empty is dereferenced; the result also carries the
  entries that are left.
\<close>

definition GetMinimumFrequencyRequested ::
    "sentinel_store \<Rightarrow> governor_sentinel list \<Rightarrow> (sentinel_view \<times> governor_sentinel list) outcome" where
  "GetMinimumFrequencyRequested m v =
     (if v = [] then Inr (\<lparr>view_name = [], minFrequency = Level_0, view_reason = ''empty''\<rparr>, v)
      else case clean m v of
             [] \<Rightarrow> Inl OutOfBounds
           | g # gs \<Rightarrow>
               let b = max_request g gs
               in (case m (sentinelPtr b) of
                     Some s \<Rightarrow> Inr (\<lparr>view_name = sentinel_name s, minFrequency = requestedFrequency b,
                                     view_reason = sentinel_reason s\<rparr>, g # gs)
                   | None \<Rightarrow> Inr (\<lparr>view_name = [], minFrequency = requestedFrequency b, view_reason = ''cant lock''\<rparr>, g # gs)))"

text \<open>The callbacks that are called are recorded in a log.\<close>

definition CpuFrequencyHasChanged ::
    "CpuFrequencyMHz \<Rightarrow> nat \<Rightarrow> sentinel_store \<times> (string \<times> CpuFrequencyMHz) list \<Rightarrow>
     sentinel_store \<times> (string \<times> CpuFrequencyMHz) list" where
  "CpuFrequencyHasChanged f p st =
     (case fst st p of None \<Rightarrow> st
      | Some s \<Rightarrow> ((fst st)(p \<mapsto> s\<lparr>sentinel_frequency := f\<rparr>),
                  snd st @ (if has_callback s then [(sentinel_name s, f)] else [])))"

definition InformSentinelsAboutCpuFrequencyChange ::
    "CpuFrequencyMHz \<Rightarrow> governor_sentinel list \<Rightarrow> sentinel_store \<times> (string \<times> CpuFrequencyMHz) list \<Rightarrow>
     governor_sentinel list \<times> sentinel_store \<times> (string \<times> CpuFrequencyMHz) list" where
  "InformSentinelsAboutCpuFrequencyChange f v st =
     for_each_governed_sentinel (\<lambda>s. expired (fst s)) (\<lambda>g s. (False, CpuFrequencyHasChanged f (sentinelPtr g) s))
       (length v) v st"

section \<open>The loop over the sentinels\<close>

text \<open>
  Erasing while iterating backwards skips nothing: a loop whose callback never stops calls it on the live
  entries from the last to the first and leaves exactly these.
\<close>

lemma for_each_all:
  assumes "k \<le> length v" "\<forall>s s' g. ex (snd (f g s)) s' = ex s s'" "\<forall>g s. \<not> fst (f g s)"
  shows "for_each_governed_sentinel ex f k v s =
    (filter (\<lambda>g. \<not> ex s g) (take k v) @ drop k v, foldr (\<lambda>g s. snd (f g s)) (filter (\<lambda>g. \<not> ex s g) (take k v)) s)"
  using assms(1)
proof (induction k arbitrary: v s)
  case (Suc k)
  have t: "take (Suc k) v = take k v @ [v ! k]" using Suc.prems by (simp add: take_Suc_conv_app_nth)
  show ?case
  proof (cases "ex s (v ! k)")
    case True
    with Suc.IH [of "take k v @ drop (Suc k) v" s] Suc.prems t show ?thesis by simp
  next
    case False
    obtain b s1 where f: "f (v ! k) s = (b, s1)" by fastforce
    with assms(3) have "\<not> b" by (metis fst_conv)
    moreover have "ex s1 = ex s" using assms(2) f by (intro ext) (metis snd_conv)
    ultimately show ?thesis
      using False f Suc t by (simp add: Cons_nth_drop_Suc)
  qed
qed simp

lemma clean_filter: "clean m v = filter (\<lambda>g. \<not> expired m g) v"
  by (simp add: clean_def for_each_all)

lemma for_each_search:
  assumes "k \<le> length v" "\<And>g. p g \<Longrightarrow> \<not> ex g"
  shows "\<exists>v'. for_each_governed_sentinel (\<lambda>_. ex) (\<lambda>g r. if p g then (True, True) else (False, r)) k v False =
      (v', \<exists>g \<in> set (take k v). p g) \<and> filter (\<lambda>g. \<not> ex g) v' = filter (\<lambda>g. \<not> ex g) v \<and> set v' \<subseteq> set v \<and>
      (\<not> (\<exists>g \<in> set (take k v). p g) \<longrightarrow> v' = filter (\<lambda>g. \<not> ex g) (take k v) @ drop k v)"
  using assms(1)
proof (induction k arbitrary: v)
  case (Suc k)
  have t: "take (Suc k) v = take k v @ [v ! k]" "take k v @ v ! k # drop (Suc k) v = v" "drop k v = v ! k # drop (Suc k) v"
    using Suc.prems by (simp_all add: take_Suc_conv_app_nth id_take_nth_drop [symmetric] Cons_nth_drop_Suc)
  show ?case
  proof (cases "ex (v ! k)")
    case True
    let ?w = "take k v @ drop (Suc k) v"
    from True assms(2) have "\<not> p (v ! k)" by blast
    moreover have "filter (\<lambda>g. \<not> ex g) ?w = filter (\<lambda>g. \<not> ex g) v"
      using True by (subst (3) t(2) [symmetric]) simp
    moreover have "set ?w \<subseteq> set v" by (auto dest: in_set_takeD in_set_dropD)
    moreover have "k \<le> length ?w" "take k ?w = take k v" "drop k ?w = drop (Suc k) v" using Suc.prems by auto
    ultimately show ?thesis using True Suc.IH [of ?w] t(1) by (simp del: append_take_drop_id) blast
  next
    case False
    with Suc.IH [of v] Suc.prems t(1,3) show ?thesis by (cases "p (v ! k)") auto
  qed
qed simp

lemma named_live: "named m n g \<Longrightarrow> \<not> expired m g"
  by (auto simp: named_def expired_def split: option.splits)

section \<open>The registry\<close>

definition live_names :: "sentinel_store \<Rightarrow> governor_sentinel list \<Rightarrow> string list" where
  "live_names m v = map (\<lambda>g. sentinel_name (the (m (sentinelPtr g)))) (filter (\<lambda>g. \<not> expired m g) v)"

definition registry_ok :: "sentinel_store \<Rightarrow> governor_sentinel list \<Rightarrow> bool" where
  "registry_ok m v \<longleftrightarrow> distinct (live_names m v)"

lemma named_in_live_names: "(\<exists>g \<in> set v. named m n g) \<longleftrightarrow> n \<in> set (live_names m v)"
  by (force simp: live_names_def named_def expired_def split: option.splits)

lemma register_result:
  assumes "m a = Some s"
  shows "sentinel_name s \<in> set (live_names m v) \<Longrightarrow>
      \<exists>v'. RegisterNewSentinel m (Some a) v = (False, v') \<and> live_names m v' = live_names m v"
    and "sentinel_name s \<notin> set (live_names m v) \<Longrightarrow>
      RegisterNewSentinel m (Some a) v = (True, filter (\<lambda>g. \<not> expired m g) v @ [new_governor_sentinel a])"
proof -
  have "\<And>g. named m (sentinel_name s) g \<Longrightarrow> \<not> expired m g" by (rule named_live)
  from for_each_search [of "length v" v "named m (sentinel_name s)" "expired m", OF _ this] obtain v' where
    v': "for_each_governed_sentinel (\<lambda>_. expired m)
        (\<lambda>g r. if named m (sentinel_name s) g then (True, True) else (False, r)) (length v) v False =
        (v', \<exists>g \<in> set v. named m (sentinel_name s) g)"
      "filter (\<lambda>g. \<not> expired m g) v' = filter (\<lambda>g. \<not> expired m g) v"
      "\<not> (\<exists>g \<in> set v. named m (sentinel_name s) g) \<longrightarrow> v' = filter (\<lambda>g. \<not> expired m g) v" by auto
  then show "sentinel_name s \<in> set (live_names m v) \<Longrightarrow>
      \<exists>v'. RegisterNewSentinel m (Some a) v = (False, v') \<and> live_names m v' = live_names m v"
    and "sentinel_name s \<notin> set (live_names m v) \<Longrightarrow>
      RegisterNewSentinel m (Some a) v = (True, filter (\<lambda>g. \<not> expired m g) v @ [new_governor_sentinel a])"
    using assms unfolding named_in_live_names by (auto simp: RegisterNewSentinel_def live_names_def)
qed

lemma register_ok:
  assumes "registry_ok m v" "m a = Some s"
  shows "registry_ok m (snd (RegisterNewSentinel m (Some a) v))"
proof (cases "sentinel_name s \<in> set (live_names m v)")
  case True
  from register_result(1) [where v = v, OF assms(2) True] assms(1) show ?thesis by (auto simp: registry_ok_def)
next
  case False
  have "\<not> expired m (new_governor_sentinel a)" using assms(2) by (simp add: expired_def new_governor_sentinel_def)
  then have "live_names m (filter (\<lambda>g. \<not> expired m g) v @ [new_governor_sentinel a]) = live_names m v @ [sentinel_name s]"
    using assms(2) by (simp add: live_names_def new_governor_sentinel_def)
  with register_result(2) [where v = v, OF assms(2) False] False assms(1) show ?thesis by (simp add: registry_ok_def)
qed

lemma update_first_names:
  assumes "\<And>g. sentinelPtr (f g) = sentinelPtr g"
  shows "live_names m (update_first p f v) = live_names m v"
  using assms by (induction v) (simp_all add: live_names_def expired_def)

lemma request_names [simp]:
  "live_names m (SetCpuFrequencyRequest m n f v) = live_names m v" "live_names m (BlockWfiMode m n b v) = live_names m v"
  by (simp_all add: SetCpuFrequencyRequest_def BlockWfiMode_def update_first_names)

lemma distinct_names_filter:
  assumes "distinct (live_names m v)" "\<And>g :: governor_sentinel. m' (sentinelPtr g) \<noteq> None \<Longrightarrow> m' (sentinelPtr g) = m (sentinelPtr g)"
  shows "distinct (live_names m' (filter q v))"
proof -
  have l: "\<not> expired m g" if "\<not> expired m' g" for g using assms(2) [of g] that by (simp add: expired_def)
  have f: "filter (\<lambda>g. \<not> expired m' g) (filter q v) = filter (\<lambda>g. q g \<and> \<not> expired m' g) (filter (\<lambda>g. \<not> expired m g) v)"
    using l by (auto intro!: filter_cong)
  have "live_names m' (filter q v) = map (\<lambda>g. sentinel_name (the (m (sentinelPtr g))))
      (filter (\<lambda>g. q g \<and> \<not> expired m' g) (filter (\<lambda>g. \<not> expired m g) v))"
    unfolding live_names_def f using assms(2) by (intro map_cong) (auto simp: expired_def)
  moreover note distinct_map_filter [OF assms(1) [unfolded live_names_def]]
  ultimately show ?thesis by (simp add: conj_commute del: filter_filter)
qed

text \<open>
  Steps of the registry: registration, removal, requests and the loops that erase expired entries, together
  with sentinels being created, under identities not used before, and destroyed by their owners.
\<close>

inductive registry_step ::
    "sentinel_store \<times> governor_sentinel list \<Rightarrow> sentinel_store \<times> governor_sentinel list \<Rightarrow> bool" where
  created: "a \<notin> dom m \<Longrightarrow> a \<notin> sentinelPtr ` set v \<Longrightarrow> registry_step (m, v) (m(a \<mapsto> s), v)"
| destroyed: "registry_step (m, v) (m(a := None), v)"
| registered: "m a = Some s \<Longrightarrow> registry_step (m, v) (m, snd (RegisterNewSentinel m (Some a) v))"
| removed: "registry_step (m, v) (m, RemoveSentinel m n v)"
| requested: "registry_step (m, v) (m, SetCpuFrequencyRequest m n f v)"
| wfi_blocked: "registry_step (m, v) (m, BlockWfiMode m n b v)"
| cleaned: "registry_step (m, v) (m, clean m v)"

lemma registry_step_ok: "registry_step x y \<Longrightarrow> registry_ok (fst x) (snd x) \<Longrightarrow> registry_ok (fst y) (snd y)"
proof (induction rule: registry_step.induct)
  case (created a m v s)
  then have "live_names (m(a \<mapsto> s)) v = live_names m v"
    by (auto simp: live_names_def expired_def intro!: map_cong filter_cong)
  with created show ?case unfolding registry_ok_def by (simp del: fun_upd_apply)
next
  case (destroyed m v a)
  then have "distinct (live_names (m(a := None)) (filter (\<lambda>_. True) v))"
    by (intro distinct_names_filter [where m = m]) (auto simp: registry_ok_def)
  then show ?case by (simp add: registry_ok_def del: fun_upd_apply)
next
  case (registered m a s v)
  then show ?case using register_ok by simp
next
  case (removed m v n)
  then show ?case by (auto simp: registry_ok_def RemoveSentinel_def intro: distinct_names_filter)
next
  case (cleaned m v)
  then show ?case by (auto simp: registry_ok_def clean_filter intro: distinct_names_filter)
qed (simp_all add: registry_ok_def)

section \<open>The highest request\<close>

lemma max_request_bounds:
  "requestedFrequency b \<le> requestedFrequency (max_request b gs) \<and>
   (\<forall>g \<in> set gs. requestedFrequency g \<le> requestedFrequency (max_request b gs)) \<and> max_request b gs \<in> set (b # gs)"
proof (induction gs arbitrary: b)
  case (Cons g gs)
  from Cons [of g] Cons [of b] show ?case by (auto split: if_split)
qed simp

lemma minimum_requested:
  assumes "v = [] \<or> (\<exists>g \<in> set v. \<not> expired m g)"
  shows "\<exists>w. GetMinimumFrequencyRequested m v = Inr (w, filter (\<lambda>g. \<not> expired m g) v) \<and>
    (\<forall>g \<in> set v. \<not> expired m g \<longrightarrow> requestedFrequency g \<le> minFrequency w) \<and>
    (v \<noteq> [] \<longrightarrow> (\<exists>g \<in> set v. \<not> expired m g \<and> requestedFrequency g = minFrequency w)) \<and> (v = [] \<longrightarrow> minFrequency w = Level_0)"
proof (cases "filter (\<lambda>g. \<not> expired m g) v")
  case Nil
  with assms have "v = []" by (auto simp: filter_empty_conv)
  then show ?thesis by (simp add: GetMinimumFrequencyRequested_def)
next
  case (Cons g gs)
  let ?b = "max_request g gs"
  have live: "set (g # gs) = {g \<in> set v. \<not> expired m g}" using Cons by (metis set_filter)
  with max_request_bounds [of g gs] have b: "?b \<in> set v" "\<not> expired m ?b"
    "\<forall>x \<in> set v. \<not> expired m x \<longrightarrow> requestedFrequency x \<le> requestedFrequency ?b" by auto
  from b(2) obtain s where s: "m (sentinelPtr ?b) = Some s" by (auto simp: expired_def)
  have "v \<noteq> []" using Cons by auto
  with s have "GetMinimumFrequencyRequested m v = Inr (\<lparr>view_name = sentinel_name s,
      minFrequency = requestedFrequency ?b, view_reason = sentinel_reason s\<rparr>, g # gs)"
    by (simp add: GetMinimumFrequencyRequested_def clean_filter Cons Let_def)
  with b \<open>v \<noteq> []\<close> show ?thesis by (auto simp: Cons intro!: exI)
qed

section \<open>Properties\<close>

text \<open>
  C23. Whatever the sequence of registrations, removals, requests and destroyed sentinels, starting from the
  empty registry, the live sentinels that the governor holds have pairwise distinct names, so that a request
  by name addresses at most one of them.
\<close>

theorem sentinel_names_unique:
  assumes "registry_step\<^sup>*\<^sup>* (Map.empty, []) (m, v)"
  shows "distinct (live_names m v)"
proof -
  from assms have "registry_ok (fst (m, v)) (snd (m, v))"
    by (induction "(m, v)" arbitrary: m v rule: rtranclp_induct) (auto simp: registry_ok_def live_names_def dest: registry_step_ok)
  then show ?thesis by (simp add: registry_ok_def)
qed

definition eink_sentinel :: cpu_sentinel where
  "eink_sentinel = \<lparr>sentinel_name = ''eink'', sentinel_frequency = Level_0, has_callback = False, sentinel_reason = []\<rparr>"

lemma eink_registered:
  "RegisterNewSentinel (Map.empty(7 \<mapsto> eink_sentinel)) (Some 7) [] = (True, [new_governor_sentinel 7])"
  by (simp add: RegisterNewSentinel_def)

lemma sentinel_names_unique_witness:
  "distinct (live_names (Map.empty(7 \<mapsto> eink_sentinel)) [new_governor_sentinel 7])"
proof (rule sentinel_names_unique)
  have "registry_step (Map.empty, []) (Map.empty(7 \<mapsto> eink_sentinel), [])" by (rule created) auto
  moreover have "registry_step (Map.empty(7 \<mapsto> eink_sentinel), []) (Map.empty(7 \<mapsto> eink_sentinel), [new_governor_sentinel 7])"
    using registered [of "Map.empty(7 \<mapsto> eink_sentinel)" 7 eink_sentinel "[]"] by (simp add: eink_registered)
  ultimately show "registry_step\<^sup>*\<^sup>* (Map.empty, []) (Map.empty(7 \<mapsto> eink_sentinel), [new_governor_sentinel 7])"
    by (meson rtranclp.rtrancl_into_rtrancl rtranclp.rtrancl_refl)
qed

text \<open>
  When all sentinels that were registered are gone, asking for the minimum dereferences the end iterator: the
  check for an empty vector is made before the expired entries are erased.
\<close>

lemma minimum_of_expired: "v \<noteq> [] \<Longrightarrow> \<forall>g \<in> set v. expired m g \<Longrightarrow> GetMinimumFrequencyRequested m v = Inl OutOfBounds"
  by (auto simp: GetMinimumFrequencyRequested_def clean_filter filter_empty_conv split: list.split dest!: filter_eq_ConsD)

end
