(* ===== verification/PowerMgr.thy ===== *)
theory PowerMgr
  imports Governor
begin

text \<open>
  The power manager, \<^verbatim>\<open>src/module-sys/SystemManager/PowerManager.cpp\<close>, with the algorithms that choose the
  frequency (\<^verbatim>\<open>cpu/algorithm\<close>, \<^verbatim>\<open>cpu/AlgorithmFactory.cpp\<close>), the measurement of the load
  (\<^verbatim>\<open>CpuStatistics.cpp\<close>) and the sentinel of the logger (\<^verbatim>\<open>LogSentinel.cpp\<close>). It ties the governor to the
  low-power controller. The tick counters that the code reads are arguments.
\<close>

section \<open>Algorithms\<close>

record power_profile =
  frequencyShiftLowerThreshold :: u32
  frequencyShiftUpperThreshold :: u32
  maxBelowThresholdCount :: u32
  maxBelowThresholdInRowCount :: u32
  maxAboveThresholdCount :: u32
  minimalFrequency :: CpuFrequencyMHz

definition pure_profile :: power_profile where
  "pure_profile = \<lparr>frequencyShiftLowerThreshold = 50, frequencyShiftUpperThreshold = 80, maxBelowThresholdCount = 5,
     maxBelowThresholdInRowCount = 1, maxAboveThresholdCount = 2, minimalFrequency = Level_0\<rparr>"

datatype Change = UpScaled | Downscaled | Hold | NoChange
datatype AlgoID = NoAlgorithm | FrequencyHold | ImmediateUpscale | FrequencyStepping

record algorithm_data =
  CPUload :: u32
  curentFrequency :: CpuFrequencyMHz
  data_sentinel :: sentinel_view

record stepping =
  aboveThresholdCounter :: u32
  belowThresholdCounter :: u32
  isFrequencyDownscalingInProgress :: bool

datatype algorithm = Holding CpuFrequencyMHz | Upscaling | Stepping stepping

definition hold_calculate :: "power_profile \<Rightarrow> CpuFrequencyMHz \<Rightarrow> algorithm_data \<Rightarrow> Change \<times> CpuFrequencyMHz" where
  "hold_calculate prof toHold d =
     (let retval = max toHold (minimalFrequency prof)
      in if toHold > curentFrequency d then (UpScaled, retval)
         else if toHold < curentFrequency d then (Downscaled, retval)
         else (Hold, retval))"

definition upscale_calculate :: "algorithm_data \<Rightarrow> Change \<times> CpuFrequencyMHz" where
  "upscale_calculate d =
     (if minFrequency (data_sentinel d) > curentFrequency d then (UpScaled, minFrequency (data_sentinel d))
      else (NoChange, curentFrequency d))"

fun stepDown :: "CpuFrequencyMHz \<Rightarrow> power_profile \<Rightarrow> CpuFrequencyMHz" where
  "stepDown Level_6 prof = Level_5"
| "stepDown Level_5 prof = Level_4"
| "stepDown Level_4 prof = Level_3"
| "stepDown Level_3 prof = Level_2"
| "stepDown _ prof = minimalFrequency prof"

definition stepping_reset :: "stepping \<Rightarrow> stepping" where
  "stepping_reset st = st\<lparr>aboveThresholdCounter := 0, belowThresholdCounter := 0\<rparr>"

definition stepping_count :: "power_profile \<Rightarrow> algorithm_data \<Rightarrow> stepping \<Rightarrow> stepping" where
  "stepping_count prof d st =
     (let st1 =
        (if CPUload d > frequencyShiftUpperThreshold prof \<and> curentFrequency d < Level_6
         then st\<lparr>aboveThresholdCounter := aboveThresholdCounter st + 1, belowThresholdCounter := 0\<rparr>
         else if CPUload d < frequencyShiftLowerThreshold prof \<and> curentFrequency d > minimalFrequency prof
         then st\<lparr>belowThresholdCounter := belowThresholdCounter st + 1, aboveThresholdCounter := 0\<rparr>
         else stepping_reset st)
      in if belowThresholdCounter st1 = 0 then st1\<lparr>isFrequencyDownscalingInProgress := False\<rparr> else st1)"

definition stepping_calculate ::
    "power_profile \<Rightarrow> algorithm_data \<Rightarrow> stepping \<Rightarrow> (Change \<times> CpuFrequencyMHz) \<times> stepping" where
  "stepping_calculate prof d st =
     (let st1 = stepping_count prof d st; start = curentFrequency d; mn = minFrequency (data_sentinel d)
      in if mn > start then ((NoChange, start), st1)
         else if aboveThresholdCounter st1 \<ge> maxAboveThresholdCount prof
         then ((UpScaled, if start < Level_4 then Level_4 else Level_6), stepping_reset st1)
         else if belowThresholdCounter st1 \<ge> (if isFrequencyDownscalingInProgress st1
                 then maxBelowThresholdInRowCount prof else maxBelowThresholdCount prof) \<and> start > mn
         then ((Downscaled, stepDown start prof), stepping_reset (st1\<lparr>isFrequencyDownscalingInProgress := True\<rparr>))
         else ((NoChange, start), st1))"

fun calculate :: "power_profile \<Rightarrow> algorithm_data \<Rightarrow> algorithm \<Rightarrow> (Change \<times> CpuFrequencyMHz) \<times> algorithm" where
  "calculate prof d (Holding f) = (hold_calculate prof f d, Holding f)"
| "calculate prof d Upscaling = (upscale_calculate d, Upscaling)"
| "calculate prof d (Stepping st) = (let (r, st1) = stepping_calculate prof d st in (r, Stepping st1))"

fun reset_algorithm :: "algorithm \<Rightarrow> algorithm" where
  "reset_algorithm (Stepping st) = Stepping (stepping_reset st)"
| "reset_algorithm a = a"

datatype PutResult = Added | Replaced

type_synonym algorithms = "AlgoID \<rightharpoonup> algorithm"

definition emplace :: "AlgoID \<Rightarrow> algorithm \<Rightarrow> algorithms \<Rightarrow> PutResult \<times> algorithms" where
  "emplace i a as = (if as i \<noteq> None then (Replaced, as(i \<mapsto> a)) else (Added, as(i \<mapsto> a)))"

definition remove_algorithm :: "AlgoID \<Rightarrow> algorithms \<Rightarrow> algorithms" where
  "remove_algorithm i as = as(i := None)"

text \<open>The identifier is \<open>None\<close> when the caller's variable is left as it was.\<close>

fun factory_calculate ::
    "power_profile \<Rightarrow> AlgoID list \<Rightarrow> algorithm_data \<Rightarrow> algorithms \<Rightarrow>
     (Change \<times> CpuFrequencyMHz) \<times> AlgoID option \<times> algorithms" where
  "factory_calculate prof [] d as = ((NoChange, Level_6), None, as)"
| "factory_calculate prof (i # is) d as =
     (case as i of
        None \<Rightarrow> factory_calculate prof is d as
      | Some a \<Rightarrow> let (r, a1) = calculate prof d a; as1 = as(i \<mapsto> a1)
                 in if fst r \<noteq> NoChange then (r, Some i, as1) else factory_calculate prof is d as1)"

fun factory_reset :: "AlgoID list \<Rightarrow> algorithms \<Rightarrow> algorithms" where
  "factory_reset [] as = as"
| "factory_reset (i # is) as =
     factory_reset is (case as i of None \<Rightarrow> as | Some a \<Rightarrow> as(i \<mapsto> reset_algorithm a))"

section \<open>Load measurement\<close>

definition computeIncrease :: "u32 \<Rightarrow> u32 \<Rightarrow> u32" where
  "computeIncrease cur lst = (if cur \<ge> lst then cur - lst else - 1 - lst + cur)"

record cpu_statistics =
  lastIdleTickCount :: u32
  lastTotalTickCount :: u32
  cpuLoad :: u32

definition UpdatePercentageCpuLoad :: "u32 \<Rightarrow> u32 \<Rightarrow> cpu_statistics \<Rightarrow> cpu_statistics" where
  "UpdatePercentageCpuLoad idle tot c =
     (let idleInc = computeIncrease idle (lastIdleTickCount c); totalInc = computeIncrease tot (lastTotalTickCount c)
      in \<lparr>lastIdleTickCount = idle, lastTotalTickCount = tot,
          cpuLoad = (if totalInc \<noteq> 0 then 100 - (idleInc * 100) div totalInc else 0)\<rparr>)"

section \<open>Sentinel of the logger\<close>

text \<open>
  The mutex is \<open>None\<close> when its creation failed, and otherwise the number of times it can be taken. Taking it
  with a timeout is the pair of a begin and an end: the logger's task waits in between.
\<close>

record log_sentinel =
  log_mutex :: "nat option"
  log_requested :: CpuFrequencyMHz
  dumpPermission :: bool
  frequencyRequest :: bool

definition hold_begin :: "log_sentinel \<Rightarrow> log_sentinel" where
  "hold_begin l = l\<lparr>frequencyRequest := True\<rparr>"

definition hold_end :: "log_sentinel \<Rightarrow> log_sentinel" where
  "hold_end l = l\<lparr>log_mutex := (case log_mutex l of Some (Suc n) \<Rightarrow> Some n | m \<Rightarrow> m), frequencyRequest := False\<rparr>"

definition ReleaseMinimumFrequency :: "log_sentinel \<Rightarrow> log_sentinel" where
  "ReleaseMinimumFrequency l = l\<lparr>log_mutex := map_option (\<lambda>_. 1) (log_mutex l)\<rparr>"

definition UpdateCurrentFrequency :: "CpuFrequencyMHz \<Rightarrow> log_sentinel \<Rightarrow> log_sentinel" where
  "UpdateCurrentFrequency f l =
     (let newPermission = (f \<ge> log_requested l)
      in if log_mutex l \<noteq> None \<and> dumpPermission l \<noteq> newPermission
         then if newPermission then l\<lparr>log_mutex := Some 1, dumpPermission := newPermission\<rparr>
              else if log_mutex l = Some 0 then l
              else l\<lparr>log_mutex := map_option (\<lambda>n. n - 1) (log_mutex l), dumpPermission := newPermission\<rparr>
         else l\<lparr>dumpPermission := newPermission\<rparr>)"

definition GetRequestedFrequency :: "log_sentinel \<Rightarrow> sentinel_view" where
  "GetRequestedFrequency l =
     \<lparr>view_name = ''LoggerSentinel'',
      minFrequency = (if frequencyRequest l \<or> log_mutex l \<noteq> None \<and> dumpPermission l \<and> log_mutex l = Some 0
                      then log_requested l else Level_0),
      view_reason = ''LogDump''\<rparr>"

section \<open>Power manager\<close>

record frequency_monitor =
  levelName :: string
  totalTicksCount :: u32
  lastTotalTicksCount :: u32

record power_manager =
  sentinels :: "governor_sentinel list"
  store :: sentinel_store
  callbacks :: "(string \<times> CpuFrequencyMHz) list"
  logSentinel :: log_sentinel
  cpuAlgorithms :: algorithms
  powerProfile :: power_profile
  lowPowerControl :: lpm
  cpuStatistics :: cpu_statistics
  cpuFrequencyMonitors :: "frequency_monitor list"
  lastCpuFrequencyChangeTimestamp :: u32
  lastLogStatisticsTimestamp :: u32

definition lowestLevelName :: string where "lowestLevelName = ''lowestCpuFrequency''"
definition middleLevelName :: string where "middleLevelName = ''middleCpuFrequency''"
definition highestLevelName :: string where "highestLevelName = ''highestCpuFrequency''"
definition WfiName :: string where "WfiName = ''WFI''"

definition new_monitor :: "string \<Rightarrow> frequency_monitor" where
  "new_monitor n = \<lparr>levelName = n, totalTicksCount = 0, lastTotalTicksCount = 0\<rparr>"

definition new_power_manager :: "power_profile \<Rightarrow> lpm \<Rightarrow> power_manager" where
  "new_power_manager prof l =
     \<lparr>sentinels = [], store = Map.empty, callbacks = [],
      logSentinel = \<lparr>log_mutex = Some 1, log_requested = Level_4, dumpPermission = True, frequencyRequest = False\<rparr>,
      cpuAlgorithms = snd (emplace FrequencyStepping
          (Stepping \<lparr>aboveThresholdCounter = 0, belowThresholdCounter = 0, isFrequencyDownscalingInProgress = True\<rparr>)
          (snd (emplace ImmediateUpscale Upscaling Map.empty))),
      powerProfile = prof, lowPowerControl = l,
      cpuStatistics = \<lparr>lastIdleTickCount = 0, lastTotalTickCount = 0, cpuLoad = 0\<rparr>,
      cpuFrequencyMonitors = map new_monitor [lowestLevelName, middleLevelName, highestLevelName, WfiName],
      lastCpuFrequencyChangeTimestamp = 0, lastLogStatisticsTimestamp = 0\<rparr>"

definition IncreaseTicks :: "u32 \<Rightarrow> frequency_monitor \<Rightarrow> frequency_monitor" where
  "IncreaseTicks t f = f\<lparr>totalTicksCount := totalTicksCount f + t\<rparr>"

definition UpdateMonitorByName :: "string \<Rightarrow> u32 \<Rightarrow> power_manager \<Rightarrow> power_manager" where
  "UpdateMonitorByName n t pm =
     pm\<lparr>cpuFrequencyMonitors := map (\<lambda>f. if levelName f = n then IncreaseTicks t f else f) (cpuFrequencyMonitors pm)\<rparr>"

definition UpdateCpuFrequencyMonitor :: "u32 \<Rightarrow> CpuFrequencyMHz \<Rightarrow> power_manager \<Rightarrow> power_manager" where
  "UpdateCpuFrequencyMonitor ticks f pm =
     (let n = (if f = minimalFrequency (powerProfile pm) then lowestLevelName
               else if f = Level_6 then highestLevelName else middleLevelName)
      in (UpdateMonitorByName n (ticks - lastCpuFrequencyChangeTimestamp pm) pm)
         \<lparr>lastCpuFrequencyChangeTimestamp := ticks\<rparr>)"

text \<open>The loop that sets the frequency until the controller reports it; \<open>None\<close> would be a loop without end.\<close>

partial_function (option) set_frequency_loop :: "CpuFrequencyMHz \<Rightarrow> power_manager \<Rightarrow> power_manager option" where
  "set_frequency_loop f pm =
     (if currentFrequency (lowPowerControl pm) = f then Some pm
      else let (v, m, c) = InformSentinelsAboutCpuFrequencyChange f (sentinels pm) (store pm, callbacks pm)
           in set_frequency_loop f
                (pm\<lparr>lowPowerControl := lpm_SetCpuFrequency f (lowPowerControl pm),
                    logSentinel := UpdateCurrentFrequency f (logSentinel pm),
                    sentinels := v, store := m, callbacks := c\<rparr>))"

definition PowerManager_SetCpuFrequency :: "u32 \<Rightarrow> CpuFrequencyMHz \<Rightarrow> power_manager \<Rightarrow> power_manager outcome" where
  "PowerManager_SetCpuFrequency now f pm =
     of_option Diverged
       (set_frequency_loop f (UpdateCpuFrequencyMonitor now (currentFrequency (lowPowerControl pm)) pm))"

definition GetMinimumCpuFrequencyRequested :: "power_manager \<Rightarrow> (sentinel_view \<times> power_manager) outcome" where
  "GetMinimumCpuFrequencyRequested pm =
     bind_outcome (GetMinimumFrequencyRequested (store pm) (sentinels pm)) (\<lambda>(g, v).
       let l = GetRequestedFrequency (logSentinel pm)
       in Inr (if minFrequency l > minFrequency g then l else g, pm\<lparr>sentinels := v\<rparr>))"

record update_result =
  changed :: Change
  frequencySet :: CpuFrequencyMHz
  result_data :: sentinel_view
  result_id :: AlgoID

record tick_counters =
  tick_count :: u32
  idle_ticks :: u32
  total_ticks :: u32

definition algorithm_order :: "AlgoID list" where
  "algorithm_order = [FrequencyHold, ImmediateUpscale, FrequencyStepping]"

definition UpdateCpuFrequency :: "tick_counters \<Rightarrow> power_manager \<Rightarrow> (update_result \<times> power_manager) outcome" where
  "UpdateCpuFrequency e pm =
     (let pm0 = pm\<lparr>cpuStatistics := UpdatePercentageCpuLoad (idle_ticks e) (total_ticks e) (cpuStatistics pm)\<rparr>
      in bind_outcome (GetMinimumCpuFrequencyRequested pm0) (\<lambda>(view, pm1).
        let d = \<lparr>CPUload = cpuLoad (cpuStatistics pm1), curentFrequency = currentFrequency (lowPowerControl pm1),
                 data_sentinel = view\<rparr>;
            ((change, val), used, as) = factory_calculate (powerProfile pm1) algorithm_order d (cpuAlgorithms pm1);
            pm2 = pm1\<lparr>cpuAlgorithms := as\<rparr>;
            result = (\<lambda>p. \<lparr>changed = change, frequencySet = currentFrequency (lowPowerControl p), result_data = view,
                          result_id = (case used of None \<Rightarrow> NoAlgorithm | Some i \<Rightarrow> i)\<rparr>)
        in if change = NoChange \<or> change = Hold then Inr (result pm2, pm2)
           else bind_outcome (PowerManager_SetCpuFrequency (tick_count e) val pm2) (\<lambda>pm3.
                  let pm4 = pm3\<lparr>cpuAlgorithms := factory_reset algorithm_order (cpuAlgorithms pm3)\<rparr>
                  in Inr (result pm4, pm4))))"

definition PowerManager_RegisterNewSentinel :: "nat option \<Rightarrow> power_manager \<Rightarrow> power_manager" where
  "PowerManager_RegisterNewSentinel p pm =
     (let (added, v) = RegisterNewSentinel (store pm) p (sentinels pm); pm1 = pm\<lparr>sentinels := v\<rparr>
      in if added
         then pm1\<lparr>store := (case p of None \<Rightarrow> store pm
                 | Some a \<Rightarrow> (store pm)(a := map_option (\<lambda>s. s\<lparr>sentinel_frequency := currentFrequency (lowPowerControl pm)\<rparr>)
                                             (store pm a)))\<rparr>
         else pm1)"

definition PowerManager_RemoveSentinel :: "string \<Rightarrow> power_manager \<Rightarrow> power_manager" where
  "PowerManager_RemoveSentinel n pm = pm\<lparr>sentinels := RemoveSentinel (store pm) n (sentinels pm)\<rparr>"

definition PowerManager_SetCpuFrequencyRequest ::
    "tick_counters \<Rightarrow> string \<Rightarrow> CpuFrequencyMHz \<Rightarrow> power_manager \<Rightarrow> (update_result \<times> power_manager) outcome" where
  "PowerManager_SetCpuFrequencyRequest e n f pm =
     UpdateCpuFrequency e (pm\<lparr>sentinels := SetCpuFrequencyRequest (store pm) n f (sentinels pm)\<rparr>)"

definition PowerManager_ResetCpuFrequencyRequest ::
    "tick_counters \<Rightarrow> string \<Rightarrow> power_manager \<Rightarrow> (update_result \<times> power_manager) outcome" where
  "PowerManager_ResetCpuFrequencyRequest e n pm =
     UpdateCpuFrequency e (pm\<lparr>sentinels := ResetCpuFrequencyRequest (store pm) n (sentinels pm)\<rparr>)"

definition PowerManager_BlockWfiMode :: "string \<Rightarrow> bool \<Rightarrow> power_manager \<Rightarrow> power_manager" where
  "PowerManager_BlockWfiMode n b pm = pm\<lparr>sentinels := BlockWfiMode (store pm) n b (sentinels pm)\<rparr>"

definition IsCpuPermanentFrequency :: "power_manager \<Rightarrow> bool" where
  "IsCpuPermanentFrequency pm \<longleftrightarrow> cpuAlgorithms pm FrequencyHold \<noteq> None"

definition SetPermanentFrequency :: "CpuFrequencyMHz \<Rightarrow> power_manager \<Rightarrow> power_manager" where
  "SetPermanentFrequency f pm = pm\<lparr>cpuAlgorithms := snd (emplace FrequencyHold (Holding f) (cpuAlgorithms pm))\<rparr>"

definition ResetPermanentFrequency :: "power_manager \<Rightarrow> power_manager" where
  "ResetPermanentFrequency pm = pm\<lparr>cpuAlgorithms := remove_algorithm FrequencyHold (cpuAlgorithms pm)\<rparr>"

section \<open>Sleeping\<close>

text \<open>
  Waiting for interrupts on the alarm clock product (\<^verbatim>\<open>WfiController.cpp\<close>): what the function reads of the
  hardware and of the timers. One tick is one millisecond, and the run time counter runs at 10 kHz.
\<close>

record wfi_inputs =
  debug_session :: bool
  wfi_tick :: u32
  timers_next_wake_up :: u32
  brownout_2p5 :: bool
  enter_ticks :: u32
  exit_ticks :: u32

definition TicksToMs :: "u32 \<Rightarrow> u32" where "TicksToMs t = t * 1"
definition MsToTicks :: "u32 \<Rightarrow> u32" where "MsToTicks t = t div 1"

definition ulHighFrequencyTimerTicksToMs :: "u32 \<Rightarrow> u32" where
  "ulHighFrequencyTimerTicksToMs t = t div (10000 div 1000)"

definition isTimerTaskScheduledSoon :: "wfi_inputs \<Rightarrow> bool" where
  "isTimerTaskScheduledSoon e \<longleftrightarrow>
     (if timers_next_wake_up e > wfi_tick e then TicksToMs (timers_next_wake_up e - wfi_tick e) < 60 * 1000 else True)"

definition enterWfiModeIfAllowed :: "wfi_inputs \<Rightarrow> lpm \<Rightarrow> u32 \<times> lpm" where
  "enterWfiModeIfAllowed e l =
     (if \<not> wfiModeAllowed l then (0, l)
      else if debug_session e then (0, blockEnteringWfiMode l)
      else if isTimerTaskScheduledSoon e then (0, blockEnteringWfiMode l)
      else if brownout_2p5 e then (0, blockEnteringWfiMode l)
      else (ulHighFrequencyTimerTicksToMs (computeIncrease (exit_ticks e) (enter_ticks e)), blockEnteringWfiMode l))"

text \<open>
  \<open>now\<close> is the tick counter when the sleep is over and \<open>later\<close> the counter after it has caught up; the first
  component tells by how much it is told to catch up.
\<close>

definition EnterWfiIfReady :: "wfi_inputs \<Rightarrow> u32 \<Rightarrow> u32 \<Rightarrow> power_manager \<Rightarrow> (u32 \<times> power_manager) outcome" where
  "EnterWfiIfReady e now later pm =
     (if IsWfiBlocked (sentinels pm) then Inr (0, pm)
      else let (t, l) = enterWfiModeIfAllowed e (lowPowerControl pm); pm1 = pm\<lparr>lowPowerControl := l\<rparr>
           in if t > 0
              then bind_outcome (PowerManager_SetCpuFrequency now Level_4 pm1) (\<lambda>pm2.
                     Inr (MsToTicks t, (UpdateMonitorByName WfiName t pm2)\<lparr>lastCpuFrequencyChangeTimestamp := later\<rparr>))
              else Inr (0, pm1))"

section \<open>Reports\<close>

definition GetTotalRuntimePercentage :: "u32 \<Rightarrow> frequency_monitor \<Rightarrow> u32" where
  "GetTotalRuntimePercentage t f =
     (if t = 0 then 0 else ucast ((ucast (totalTicksCount f) :: u64) * 100 div ucast t))"

definition GetPeriodRuntimePercentage :: "u32 \<Rightarrow> frequency_monitor \<Rightarrow> u32" where
  "GetPeriodRuntimePercentage t f =
     (if t = 0 then 0
      else ucast ((ucast (computeIncrease (totalTicksCount f) (lastTotalTicksCount f)) :: u64) * 100 div ucast t))"

definition SavePeriodTicks :: "frequency_monitor \<Rightarrow> frequency_monitor" where
  "SavePeriodTicks f = f\<lparr>lastTotalTicksCount := totalTicksCount f\<rparr>"

text \<open>The line that is logged has, per monitor, its name and its shares of the period and of the total time.\<close>

definition LogPowerManagerStatistics :: "u32 \<Rightarrow> power_manager \<Rightarrow> (string \<times> u32 \<times> u32) list \<times> power_manager" where
  "LogPowerManagerStatistics now pm =
     (let period = now - lastLogStatisticsTimestamp pm;
          pm1 = UpdateCpuFrequencyMonitor now (currentFrequency (lowPowerControl pm)) pm
      in (map (\<lambda>f. (levelName f, GetPeriodRuntimePercentage period f, GetTotalRuntimePercentage now f))
            (cpuFrequencyMonitors pm1),
          pm1\<lparr>cpuFrequencyMonitors := map SavePeriodTicks (cpuFrequencyMonitors pm1), lastLogStatisticsTimestamp := now\<rparr>))"

section \<open>Setting the frequency\<close>

lemma inform_result:
  "InformSentinelsAboutCpuFrequencyChange f v (m, c) =
     (filter (\<lambda>g. \<not> expired m g) v,
      foldr (\<lambda>g. CpuFrequencyHasChanged f (sentinelPtr g)) (filter (\<lambda>g. \<not> expired m g) v) (m, c))"
proof -
  have "\<forall>s s' g. expired (fst (snd (False, CpuFrequencyHasChanged f (sentinelPtr g) s))) s' = expired (fst s) s'"
    by (auto simp: expired_def CpuFrequencyHasChanged_def split: option.split)
  from for_each_all [of "length v" v "\<lambda>s. expired (fst s)", OF _ this] show ?thesis
    by (simp add: InformSentinelsAboutCpuFrequencyChange_def)
qed

definition frequency_applied :: "CpuFrequencyMHz \<Rightarrow> power_manager \<Rightarrow> power_manager" where
  "frequency_applied f pm =
     (if currentFrequency (lowPowerControl pm) = f then pm
      else let (v, m, c) = InformSentinelsAboutCpuFrequencyChange f (sentinels pm) (store pm, callbacks pm)
           in pm\<lparr>lowPowerControl := lpm_SetCpuFrequency f (lowPowerControl pm),
                 logSentinel := UpdateCurrentFrequency f (logSentinel pm), sentinels := v, store := m, callbacks := c\<rparr>)"

lemma set_frequency_loop_ends: "set_frequency_loop f pm = Some (frequency_applied f pm)"
proof (cases "currentFrequency (lowPowerControl pm) = f")
  case True
  then show ?thesis by (subst set_frequency_loop.simps) (simp add: frequency_applied_def)
next
  case False
  then show ?thesis
    by (subst set_frequency_loop.simps, cases "InformSentinelsAboutCpuFrequencyChange f (sentinels pm) (store pm, callbacks pm)")
      (simp add: frequency_applied_def, subst set_frequency_loop.simps, simp)
qed

lemma frequency_applied_simps [simp]:
  "currentFrequency (lowPowerControl (frequency_applied f pm)) = f"
  "cpuAlgorithms (frequency_applied f pm) = cpuAlgorithms pm" "powerProfile (frequency_applied f pm) = powerProfile pm"
  "cpuFrequencyMonitors (frequency_applied f pm) = cpuFrequencyMonitors pm"
  "lastCpuFrequencyChangeTimestamp (frequency_applied f pm) = lastCpuFrequencyChangeTimestamp pm"
  by (auto simp: frequency_applied_def split: prod.split)

lemma monitor_simps [simp]:
  "lowPowerControl (UpdateCpuFrequencyMonitor now f pm) = lowPowerControl pm"
  "cpuAlgorithms (UpdateCpuFrequencyMonitor now f pm) = cpuAlgorithms pm"
  "powerProfile (UpdateCpuFrequencyMonitor now f pm) = powerProfile pm"
  "sentinels (UpdateCpuFrequencyMonitor now f pm) = sentinels pm" "store (UpdateCpuFrequencyMonitor now f pm) = store pm"
  "lastCpuFrequencyChangeTimestamp (UpdateCpuFrequencyMonitor now f pm) = now"
  by (simp_all add: UpdateCpuFrequencyMonitor_def UpdateMonitorByName_def Let_def)

lemma set_frequency_result:
  "PowerManager_SetCpuFrequency now f pm =
     Inr (frequency_applied f (UpdateCpuFrequencyMonitor now (currentFrequency (lowPowerControl pm)) pm))"
  by (simp add: PowerManager_SetCpuFrequency_def set_frequency_loop_ends)

section \<open>Choosing the frequency\<close>

definition registry_live :: "power_manager \<Rightarrow> bool" where
  "registry_live pm \<longleftrightarrow> sentinels pm = [] \<or> (\<exists>g \<in> set (sentinels pm). \<not> expired (store pm) g)"

text \<open>The requests in force: those of the live sentinels and that of the logger.\<close>

definition requests :: "power_manager \<Rightarrow> CpuFrequencyMHz set" where
  "requests pm = requestedFrequency ` {g \<in> set (sentinels pm). \<not> expired (store pm) g} \<union>
     {minFrequency (GetRequestedFrequency (logSentinel pm))}"

lemma minimum_cpu_frequency:
  assumes "registry_live pm"
  shows "\<exists>w. GetMinimumCpuFrequencyRequested pm =
      Inr (w, pm\<lparr>sentinels := filter (\<lambda>g. \<not> expired (store pm) g) (sentinels pm)\<rparr>) \<and>
    (\<forall>f \<in> requests pm. f \<le> minFrequency w) \<and> (minFrequency w = Level_0 \<or> minFrequency w \<in> requests pm)"
proof -
  let ?l = "GetRequestedFrequency (logSentinel pm)"
  from minimum_requested [of "sentinels pm" "store pm"] assms obtain g where
    g: "GetMinimumFrequencyRequested (store pm) (sentinels pm) = Inr (g, filter (\<lambda>g. \<not> expired (store pm) g) (sentinels pm))"
    "\<forall>x \<in> set (sentinels pm). \<not> expired (store pm) x \<longrightarrow> requestedFrequency x \<le> minFrequency g"
    "sentinels pm \<noteq> [] \<longrightarrow> (\<exists>x \<in> set (sentinels pm). \<not> expired (store pm) x \<and> requestedFrequency x = minFrequency g)"
    "sentinels pm = [] \<longrightarrow> minFrequency g = Level_0" unfolding registry_live_def by blast
  let ?w = "if minFrequency ?l > minFrequency g then ?l else g"
  have "GetMinimumCpuFrequencyRequested pm = Inr (?w, pm\<lparr>sentinels := filter (\<lambda>g. \<not> expired (store pm) g) (sentinels pm)\<rparr>)"
    by (simp only: GetMinimumCpuFrequencyRequested_def g(1) bind_outcome.simps Let_def prod.case)
  moreover have "\<forall>f \<in> requests pm. f \<le> minFrequency ?w"
    using g(2) by (auto simp: requests_def simp del: freq_order)
  moreover have "minFrequency ?w = Level_0 \<or> minFrequency ?w \<in> requests pm"
    using g(3,4) by (auto simp: requests_def simp del: freq_order) (metis (mono_tags, lifting) image_eqI mem_Collect_eq)
  ultimately show ?thesis by blast
qed

lemma stepDown_bound: "mn < start \<Longrightarrow> mn \<noteq> Level_1 \<Longrightarrow> mn \<le> stepDown start prof"
  by (cases start; cases mn; cases "minimalFrequency prof") simp_all

lemma stepping_bound:
  assumes "stepping_calculate prof d st = ((change, val), st')" "minFrequency (data_sentinel d) \<le> curentFrequency d"
    "minFrequency (data_sentinel d) \<noteq> Level_1"
  shows "minFrequency (data_sentinel d) \<le> val \<and> (change = NoChange \<longrightarrow> val = curentFrequency d) \<and> change \<noteq> Hold"
proof -
  have up: "minFrequency (data_sentinel d) \<le> (if curentFrequency d < Level_4 then Level_4 else Level_6)"
    using assms(2) by (cases "minFrequency (data_sentinel d)"; cases "curentFrequency d") simp_all
  show ?thesis
    using assms up stepDown_bound [of "minFrequency (data_sentinel d)" "curentFrequency d" prof]
    by (auto simp: stepping_calculate_def Let_def simp del: freq_order split: if_splits)
qed

definition governed :: "power_manager \<Rightarrow> bool" where
  "governed pm \<longleftrightarrow> cpuAlgorithms pm FrequencyHold = None \<and> cpuAlgorithms pm ImmediateUpscale = Some Upscaling \<and>
     (\<exists>st. cpuAlgorithms pm FrequencyStepping = Some (Stepping st))"

lemma governed_choice:
  assumes "governed pm" "minFrequency (data_sentinel d) \<noteq> Level_1"
  shows "\<exists>change val used as. factory_calculate (powerProfile pm) algorithm_order d (cpuAlgorithms pm) = ((change, val), used, as) \<and>
    change \<noteq> Hold \<and> (change = NoChange \<longrightarrow> minFrequency (data_sentinel d) \<le> curentFrequency d) \<and>
    (change \<noteq> NoChange \<longrightarrow> minFrequency (data_sentinel d) \<le> val)"
proof -
  from assms(1) obtain st where a: "cpuAlgorithms pm FrequencyHold = None" "cpuAlgorithms pm ImmediateUpscale = Some Upscaling"
    "cpuAlgorithms pm FrequencyStepping = Some (Stepping st)" by (auto simp: governed_def)
  obtain change val st' where c: "stepping_calculate (powerProfile pm) d st = ((change, val), st')" by (metis prod.collapse)
  show ?thesis
  proof (cases "minFrequency (data_sentinel d) > curentFrequency d")
    case True
    with a show ?thesis by (simp add: algorithm_order_def upscale_calculate_def)
  next
    case False
    then have "minFrequency (data_sentinel d) \<le> curentFrequency d" by simp
    from stepping_bound [OF c this assms(2)] a c False this show ?thesis
      by (cases "change = NoChange") (auto simp: algorithm_order_def upscale_calculate_def Let_def simp del: freq_order)
  qed
qed

section \<open>Properties\<close>

text \<open>
  C24. While no permanent frequency is set and not all sentinels of the registry have expired (an empty registry
  will do), an update of the frequency succeeds and leaves the core at least at every frequency that a live sentinel
  or the logger requests, whatever the load. Requests for 12 MHz are excepted: stepping down from 24 MHz goes
  straight to the minimum of the profile.
\<close>

theorem requests_are_honoured:
  assumes "registry_live pm" "governed pm" "Level_1 \<notin> requests pm"
  shows "\<exists>r pm'. UpdateCpuFrequency e pm = Inr (r, pm') \<and>
    (\<forall>f \<in> requests pm. f \<le> currentFrequency (lowPowerControl pm')) \<and> frequencySet r = currentFrequency (lowPowerControl pm')"
proof -
  define pm0 where "pm0 = pm\<lparr>cpuStatistics := UpdatePercentageCpuLoad (idle_ticks e) (total_ticks e) (cpuStatistics pm)\<rparr>"
  have p0: "registry_live pm0" "requests pm0 = requests pm" "lowPowerControl pm0 = lowPowerControl pm" "governed pm0"
    using assms by (simp_all add: pm0_def registry_live_def requests_def governed_def)
  from minimum_cpu_frequency [OF p0(1)] obtain w where
    w: "GetMinimumCpuFrequencyRequested pm0 = Inr (w, pm0\<lparr>sentinels := filter (\<lambda>g. \<not> expired (store pm0) g) (sentinels pm0)\<rparr>)"
    "\<forall>f \<in> requests pm. f \<le> minFrequency w" "minFrequency w = Level_0 \<or> minFrequency w \<in> requests pm"
    unfolding p0(2) by blast
  define pm1 where "pm1 = pm0\<lparr>sentinels := filter (\<lambda>g. \<not> expired (store pm0) g) (sentinels pm0)\<rparr>"
  define d where "d = \<lparr>CPUload = cpuLoad (cpuStatistics pm1), curentFrequency = currentFrequency (lowPowerControl pm1), data_sentinel = w\<rparr>"
  have "governed pm1" using p0(4) by (simp add: governed_def pm1_def)
  moreover have "minFrequency (data_sentinel d) \<noteq> Level_1" using w(3) assms(3) by (auto simp: d_def)
  ultimately obtain change val used as where
    c: "factory_calculate (powerProfile pm1) algorithm_order d (cpuAlgorithms pm1) = ((change, val), used, as)" "change \<noteq> Hold"
    "change = NoChange \<longrightarrow> minFrequency w \<le> currentFrequency (lowPowerControl pm1)" "change \<noteq> NoChange \<longrightarrow> minFrequency w \<le> val"
    using governed_choice [of pm1 d] by (auto simp: d_def simp del: freq_order)
  show ?thesis
  proof (cases "change = NoChange")
    case True
    with c w show ?thesis
      by (auto simp: UpdateCpuFrequency_def pm0_def [symmetric] w(1) pm1_def [symmetric] d_def [symmetric] Let_def
          simp del: freq_order intro: order_trans)
  next
    case False
    with c w show ?thesis
      by (auto simp: UpdateCpuFrequency_def pm0_def [symmetric] w(1) pm1_def [symmetric] d_def [symmetric] Let_def
          set_frequency_result simp del: freq_order intro: order_trans)
  qed
qed

definition eink_entry :: governor_sentinel where
  "eink_entry = \<lparr>sentinelPtr = 7, requestedFrequency = Level_5, wfiBlocked = False\<rparr>"

definition example_manager :: power_manager where
  "example_manager = (new_power_manager pure_profile full_speed)
     \<lparr>store := Map.empty(7 \<mapsto> eink_sentinel), sentinels := [eink_entry]\<rparr>"

definition example_counters :: tick_counters where
  "example_counters = \<lparr>tick_count = 5000, idle_ticks = 40000, total_ticks = 50000\<rparr>"

lemma example_manager_fields:
  "sentinels example_manager = [eink_entry]" "\<not> expired (store example_manager) eink_entry"
  "minFrequency (GetRequestedFrequency (logSentinel example_manager)) = Level_0"
  "minimalFrequency (powerProfile example_manager) = Level_0"
  by (simp_all add: example_manager_def expired_def eink_entry_def new_power_manager_def GetRequestedFrequency_def
      pure_profile_def)

lemma example_manager_ok:
  "registry_live example_manager" "governed example_manager" "requests example_manager = {Level_5, Level_0}"
proof -
  show "registry_live example_manager" by (simp add: registry_live_def example_manager_fields)
  show "governed example_manager" by (simp add: governed_def example_manager_def new_power_manager_def emplace_def)
  have "{g \<in> set [eink_entry]. \<not> expired (store example_manager) g} = {eink_entry}"
    using example_manager_fields(2) by auto
  then show "requests example_manager = {Level_5, Level_0}"
    unfolding requests_def example_manager_fields by (simp add: eink_entry_def insert_commute)
qed

lemma requests_are_honoured_witness:
  "\<exists>r pm'. UpdateCpuFrequency example_counters example_manager = Inr (r, pm') \<and>
    (\<forall>f \<in> requests example_manager. f \<le> currentFrequency (lowPowerControl pm')) \<and>
    frequencySet r = currentFrequency (lowPowerControl pm')"
  by (rule requests_are_honoured) (simp_all add: example_manager_ok)

text \<open>The exception is real: at 24 MHz with a request for 12 MHz the frequency drops to 4 MHz.\<close>

lemma step_below_request:
  "fst (stepping_calculate pure_profile
     \<lparr>CPUload = 10, curentFrequency = Level_2, data_sentinel = \<lparr>view_name = [], minFrequency = Level_1, view_reason = []\<rparr>\<rparr>
     \<lparr>aboveThresholdCounter = 0, belowThresholdCounter = 4, isFrequencyDownscalingInProgress = False\<rparr>) = (Downscaled, Level_0)"
  by (simp add: stepping_calculate_def stepping_count_def pure_profile_def Let_def)

text \<open>
  C25. A permanent frequency not below the minimum of the profile overrides everything else: while not all sentinels
  of the registry have expired, an update succeeds and the core then runs at exactly that frequency, whatever the
  load and whatever the sentinels request.
\<close>

theorem permanent_frequency_wins:
  assumes "registry_live pm" "minimalFrequency (powerProfile pm) \<le> f"
  shows "\<exists>r pm'. UpdateCpuFrequency e (SetPermanentFrequency f pm) = Inr (r, pm') \<and>
    currentFrequency (lowPowerControl pm') = f \<and> result_id r = FrequencyHold"
proof -
  define pm0 where "pm0 = (SetPermanentFrequency f pm)
    \<lparr>cpuStatistics := UpdatePercentageCpuLoad (idle_ticks e) (total_ticks e) (cpuStatistics (SetPermanentFrequency f pm))\<rparr>"
  have p0: "registry_live pm0" "lowPowerControl pm0 = lowPowerControl pm" "powerProfile pm0 = powerProfile pm"
    "cpuAlgorithms pm0 FrequencyHold = Some (Holding f)"
    using assms by (simp_all add: pm0_def registry_live_def SetPermanentFrequency_def emplace_def)
  from minimum_cpu_frequency [OF p0(1)] obtain w where
    w: "GetMinimumCpuFrequencyRequested pm0 = Inr (w, pm0\<lparr>sentinels := filter (\<lambda>g. \<not> expired (store pm0) g) (sentinels pm0)\<rparr>)"
    by blast
  define pm1 where "pm1 = pm0\<lparr>sentinels := filter (\<lambda>g. \<not> expired (store pm0) g) (sentinels pm0)\<rparr>"
  have p1: "lowPowerControl pm1 = lowPowerControl pm" "powerProfile pm1 = powerProfile pm"
    "cpuAlgorithms pm1 FrequencyHold = Some (Holding f)" using p0 by (simp_all add: pm1_def)
  have mx: "max f (minimalFrequency (powerProfile pm)) = f" using assms(2) by (rule max_absorb1)
  consider "f > currentFrequency (lowPowerControl pm)" 
    | "f < currentFrequency (lowPowerControl pm)" "\<not> currentFrequency (lowPowerControl pm) < f"
    | "currentFrequency (lowPowerControl pm) = f" using less_linear less_not_sym by blast
  then show ?thesis
    by cases (simp_all add: UpdateCpuFrequency_def pm0_def [symmetric] w pm1_def [symmetric] algorithm_order_def p1
        hold_calculate_def Let_def set_frequency_result mx del: freq_order)
qed

lemma permanent_frequency_wins_witness:
  "\<exists>r pm'. UpdateCpuFrequency example_counters (SetPermanentFrequency Level_2 example_manager) = Inr (r, pm') \<and>
    currentFrequency (lowPowerControl pm') = Level_2 \<and> result_id r = FrequencyHold"
  by (rule permanent_frequency_wins [OF example_manager_ok(1)])
    (simp add: example_manager_fields)

text \<open>
  C27. The load is a percentage: when the idle time that passed is at most the time that passed, and shorter
  than 2^32 / 100 ticks of the 10 kHz counter (71 minutes), the computed load is between 0 and 100 and is the
  share of the time that was not idle, rounded up.
\<close>

theorem cpu_load_is_percentage:
  assumes "lastIdleTickCount c \<le> idle" "lastTotalTickCount c < tot" "idle - lastIdleTickCount c \<le> tot - lastTotalTickCount c"
    "unat (idle - lastIdleTickCount c) * 100 < 2 ^ 32"
  shows "unat (cpuLoad (UpdatePercentageCpuLoad idle tot c)) =
    100 - unat (idle - lastIdleTickCount c) * 100 div unat (tot - lastTotalTickCount c)"
proof -
  define i where "i = idle - lastIdleTickCount c"
  define t where "t = tot - lastTotalTickCount c"
  have c: "computeIncrease idle (lastIdleTickCount c) = i" "computeIncrease tot (lastTotalTickCount c) = t"
    using assms(1,2) by (simp_all add: computeIncrease_def i_def t_def)
  have t0: "t \<noteq> 0" using assms(2) by (auto simp: t_def)
  have le: "unat i \<le> unat t" using assms(3) by (simp add: i_def t_def word_le_nat_alt)
  have m: "unat (i * 100) = unat i * 100" using assms(4) [folded i_def] by (simp add: unat_word_ariths)
  have t1: "unat t > 0" using t0 by (simp add: unat_gt_0)
  have q: "unat (i * 100 div t) = unat i * 100 div unat t" by (simp add: unat_div m)
  have "unat i * 100 div unat t \<le> 100"
    using le t1 by (metis div_le_mono div_mult_self_is_m mult.commute mult_le_mono2)
  then have "unat (i * 100 div t) \<le> unat (100 :: u32)" by (simp add: q)
  then have "unat (100 - i * 100 div t) = 100 - unat i * 100 div unat t" by (simp add: unat_sub word_le_nat_alt q)
  with t0 show ?thesis by (simp add: UpdatePercentageCpuLoad_def c Let_def i_def [symmetric] t_def [symmetric])
qed

lemma cpu_load_is_percentage_witness:
  "unat (cpuLoad (UpdatePercentageCpuLoad 40000 50000 \<lparr>lastIdleTickCount = 1000, lastTotalTickCount = 2000, cpuLoad = 0\<rparr>)) =
    100 - unat (40000 - 1000 :: u32) * 100 div unat (50000 - 2000 :: u32)"
  using cpu_load_is_percentage [of "\<lparr>lastIdleTickCount = 1000, lastTotalTickCount = 2000, cpuLoad = 0\<rparr>" 40000 50000] by simp

text \<open>When a counter wraps around, the computed increase is one tick too small.\<close>

lemma increase_after_wrap: "cur < lst \<Longrightarrow> computeIncrease cur lst = cur - lst - 1"
  by (simp add: computeIncrease_def)

section \<open>Time accounting\<close>

definition monitor_sum :: "frequency_monitor list \<Rightarrow> u32" where
  "monitor_sum fs = sum_list (map totalTicksCount fs)"

text \<open>The monitors account for the time up to the last accounting, except for \<open>lost\<close> ticks.\<close>

definition accounted :: "u32 \<Rightarrow> power_manager \<Rightarrow> bool" where
  "accounted lost pm \<longleftrightarrow> map levelName (cpuFrequencyMonitors pm) = [lowestLevelName, middleLevelName, highestLevelName, WfiName] \<and>
     monitor_sum (cpuFrequencyMonitors pm) + lost = lastCpuFrequencyChangeTimestamp pm"

lemma level_names_distinct: "distinct [lowestLevelName, middleLevelName, highestLevelName, WfiName]"
  by (simp add: lowestLevelName_def middleLevelName_def highestLevelName_def WfiName_def)

lemma increase_one:
  "distinct (map levelName fs) \<Longrightarrow> n \<in> set (map levelName fs) \<Longrightarrow>
   monitor_sum (map (\<lambda>f. if levelName f = n then IncreaseTicks t f else f) fs) = monitor_sum fs + t"
proof (induction fs)
  case (Cons f fs)
  show ?case
  proof (cases "levelName f = n")
    case True
    with Cons.prems have "\<forall>x \<in> set fs. levelName x \<noteq> n" by (auto simp: image_iff)
    then have "map (\<lambda>f. if levelName f = n then IncreaseTicks t f else f) fs = fs"
      by (intro map_idI) auto
    with True show ?thesis by (simp add: monitor_sum_def IncreaseTicks_def)
  next
    case False
    with Cons show ?thesis by (simp add: monitor_sum_def)
  qed
qed simp

lemma by_name_accounted:
  assumes "accounted x pm" "n \<in> {lowestLevelName, middleLevelName, highestLevelName, WfiName}"
    "later = lastCpuFrequencyChangeTimestamp pm + t + y"
  shows "accounted (x + y) ((UpdateMonitorByName n t pm)\<lparr>lastCpuFrequencyChangeTimestamp := later\<rparr>)"
proof -
  have names: "map levelName (map (\<lambda>f. if levelName f = n then IncreaseTicks t f else f) fs) = map levelName fs" for fs
    by (induction fs) (simp_all add: IncreaseTicks_def)
  have "distinct (map levelName (cpuFrequencyMonitors pm))" "n \<in> set (map levelName (cpuFrequencyMonitors pm))"
    using assms(1,2) level_names_distinct unfolding accounted_def by (simp_all only: list.set insert_iff)
  from increase_one [OF this] assms(1,3) names show ?thesis
    by (simp add: accounted_def UpdateMonitorByName_def del: map_map map_eq_conv)
qed

lemma monitor_accounted: "accounted x pm \<Longrightarrow> accounted x (UpdateCpuFrequencyMonitor now f pm)"
  unfolding UpdateCpuFrequencyMonitor_def Let_def by (rule by_name_accounted [where y = 0, simplified]) simp_all

lemma accounted_cong:
  "cpuFrequencyMonitors pm' = cpuFrequencyMonitors pm \<Longrightarrow>
   lastCpuFrequencyChangeTimestamp pm' = lastCpuFrequencyChangeTimestamp pm \<Longrightarrow> accounted x pm' = accounted x pm"
  by (simp add: accounted_def)

lemma set_frequency_accounted:
  "accounted x pm \<Longrightarrow> PowerManager_SetCpuFrequency now f pm = Inr pm' \<Longrightarrow> accounted x pm'"
  by (auto simp: set_frequency_result accounted_cong [of "frequency_applied _ _"] monitor_accounted)

lemma update_accounted:
  assumes "accounted x pm" "UpdateCpuFrequency e pm = Inr (r, pm')"
  shows "accounted x pm'"
proof -
  define pm0 where "pm0 = pm\<lparr>cpuStatistics := UpdatePercentageCpuLoad (idle_ticks e) (total_ticks e) (cpuStatistics pm)\<rparr>"
  have a0: "accounted x (pm0\<lparr>sentinels := v, cpuAlgorithms := as\<rparr>)" for v as
    using assms(1) by (simp add: pm0_def accounted_def)
  from assms(2) obtain view v where m: "GetMinimumCpuFrequencyRequested pm0 = Inr (view, pm0\<lparr>sentinels := v\<rparr>)"
    by (auto simp: UpdateCpuFrequency_def pm0_def [symmetric] GetMinimumCpuFrequencyRequested_def bind_outcome_Inr_iff Let_def)
  have fin: "accounted x (q\<lparr>cpuAlgorithms := as\<rparr>) = accounted x q" for q as by (simp add: accounted_def)
  from assms(2) show ?thesis
    using a0 unfolding UpdateCpuFrequency_def pm0_def [symmetric] Let_def m
    by (auto simp: fin bind_outcome_Inr_iff split: prod.splits if_splits dest!: set_frequency_accounted [rotated])
qed

text \<open>The ticks between the reading of the counter at wake-up and the last one, beyond those credited to the sleep.\<close>

definition lost_ticks :: "u32 \<Rightarrow> u32 \<Rightarrow> u32 \<Rightarrow> u32" where
  "lost_ticks now later t = (if t = 0 then 0 else later - now - t)"

lemma wfi_accounted:
  assumes "accounted x pm" "EnterWfiIfReady e now later pm = Inr (t, pm')"
  shows "accounted (x + lost_ticks now later t) pm'"
proof -
  obtain u l where w: "enterWfiModeIfAllowed e (lowPowerControl pm) = (u, l)" by fastforce
  have pm1: "accounted x (pm\<lparr>lowPowerControl := l\<rparr>)" using assms(1) by (simp add: accounted_def)
  consider "pm' = pm" "t = 0" | "pm' = pm\<lparr>lowPowerControl := l\<rparr>" "t = 0"
    | pm2 where "PowerManager_SetCpuFrequency now Level_4 (pm\<lparr>lowPowerControl := l\<rparr>) = Inr pm2" "u = t" "t \<noteq> 0"
        "pm' = (UpdateMonitorByName WfiName t pm2)\<lparr>lastCpuFrequencyChangeTimestamp := later\<rparr>"
    using assms(2) w
    by (auto simp: EnterWfiIfReady_def MsToTicks_def bind_outcome_Inr_iff Let_def split: if_splits)
  then show ?thesis
  proof cases
    case (3 pm2)
    then have "lastCpuFrequencyChangeTimestamp pm2 = now" by (auto simp: set_frequency_result)
    with 3 by_name_accounted [OF set_frequency_accounted [OF pm1 3(1)], of WfiName later t "later - now - t"]
    show ?thesis by (simp add: lost_ticks_def)
  qed (use assms(1) pm1 in \<open>simp_all add: lost_ticks_def\<close>)
qed

text \<open>
  The steps of the power manager, as its service calls it, each with the ticks that no monitor is credited
  with. The counters read are arbitrary: \<open>now\<close> at the end of a sleep, and \<open>later\<close> after the
  counter has caught up by the time slept; ticks may pass in between.
\<close>

inductive pm_step :: "power_manager \<Rightarrow> u32 \<Rightarrow> power_manager \<Rightarrow> bool" where
  updated: "UpdateCpuFrequency e pm = Inr (r, pm') \<Longrightarrow> pm_step pm 0 pm'"
| set_request: "PowerManager_SetCpuFrequencyRequest e n f pm = Inr (r, pm') \<Longrightarrow> pm_step pm 0 pm'"
| reset_request: "PowerManager_ResetCpuFrequencyRequest e n pm = Inr (r, pm') \<Longrightarrow> pm_step pm 0 pm'"
| slept: "EnterWfiIfReady w now later pm = Inr (t, pm') \<Longrightarrow> pm_step pm (lost_ticks now later t) pm'"
| logged: "LogPowerManagerStatistics now pm = (lines, pm') \<Longrightarrow> pm_step pm 0 pm'"
| registered: "pm_step pm 0 (PowerManager_RegisterNewSentinel p pm)"
| removed: "pm_step pm 0 (PowerManager_RemoveSentinel n pm)"
| wfi_request: "pm_step pm 0 (PowerManager_BlockWfiMode n b pm)"
| permanent: "pm_step pm 0 (SetPermanentFrequency f pm)"
| released: "pm_step pm 0 (ResetPermanentFrequency pm)"
| sentinels_change: "pm_step pm 0 (pm\<lparr>store := m\<rparr>)"
| logger: "pm_step pm 0 (pm\<lparr>logSentinel := l\<rparr>)"

text \<open>A run from a new power manager, with the sum of the uncredited ticks.\<close>

inductive pm_run :: "power_profile \<Rightarrow> lpm \<Rightarrow> u32 \<Rightarrow> power_manager \<Rightarrow> bool" for prof l where
  start: "pm_run prof l 0 (new_power_manager prof l)"
| step: "pm_run prof l x pm \<Longrightarrow> pm_step pm y pm' \<Longrightarrow> pm_run prof l (x + y) pm'"

lemma sentinels_accounted: "accounted x (pm\<lparr>sentinels := v\<rparr>) = accounted x pm"
  by (simp add: accounted_def)

lemma pm_step_accounted: "pm_step pm y pm' \<Longrightarrow> accounted x pm \<Longrightarrow> accounted (x + y) pm'"
proof (induction rule: pm_step.induct)
  case (updated e pm r pm')
  then show ?case using update_accounted by simp
next
  case (set_request e n f pm r pm')
  from update_accounted [OF _ set_request(1) [unfolded PowerManager_SetCpuFrequencyRequest_def]] set_request(2)
  show ?case by (simp add: sentinels_accounted)
next
  case (reset_request e n pm r pm')
  from update_accounted [OF _ reset_request(1) [unfolded PowerManager_ResetCpuFrequencyRequest_def]] reset_request(2)
  show ?case by (simp add: sentinels_accounted)
next
  case (slept w now later pm t pm')
  from wfi_accounted [OF slept(2,1)] show ?case .
next
  case (logged now pm lines pm')
  let ?pm1 = "UpdateCpuFrequencyMonitor now (currentFrequency (lowPowerControl pm)) pm"
  have "accounted x ?pm1" using logged by (simp add: monitor_accounted)
  moreover have "pm' = ?pm1\<lparr>cpuFrequencyMonitors := map SavePeriodTicks (cpuFrequencyMonitors ?pm1), lastLogStatisticsTimestamp := now\<rparr>"
    using logged(1) by (simp add: LogPowerManagerStatistics_def Let_def)
  moreover have "map levelName (map SavePeriodTicks fs) = map levelName fs" "monitor_sum (map SavePeriodTicks fs) = monitor_sum fs" for fs
    by (induction fs) (simp_all add: SavePeriodTicks_def monitor_sum_def)
  ultimately show ?case by (simp add: accounted_def del: map_map)
qed (simp_all add: accounted_def PowerManager_RegisterNewSentinel_def PowerManager_RemoveSentinel_def
       PowerManager_BlockWfiMode_def SetPermanentFrequency_def ResetPermanentFrequency_def Let_def split: prod.split)

text \<open>
  C26. What the monitors count: in every run of the power manager the ticks of the four monitors (lowest,
  middle and highest frequency, and sleep) add up, modulo 2^32, to the time of the last accounting less the
  ticks that passed, at the end of each sleep, between the two readings of the counter beyond those credited
  to the sleep. No other tick is lost, and none is counted twice.
\<close>

theorem ticks_accounted:
  assumes "pm_run prof l lost pm"
  shows "sum_list (map totalTicksCount (cpuFrequencyMonitors pm)) = lastCpuFrequencyChangeTimestamp pm - lost"
proof -
  have "accounted 0 (new_power_manager prof l)"
    by (simp add: accounted_def new_power_manager_def new_monitor_def monitor_sum_def)
  with assms have "accounted lost pm" by (induction rule: pm_run.induct) (auto intro: pm_step_accounted)
  then show ?thesis unfolding accounted_def monitor_sum_def by (simp add: eq_diff_eq)
qed

text \<open>
  A sleep of 100000 ticks that ends at tick 5000 and is over, with three more ticks, at 105003: these three
  are credited to no monitor.
\<close>

definition sleep_inputs :: wfi_inputs where
  "sleep_inputs = \<lparr>debug_session = False, wfi_tick = 4000, timers_next_wake_up = 1000000, brownout_2p5 = False,
     enter_ticks = 0, exit_ticks = 1000000\<rparr>"

lemma ticks_accounted_witness:
  "\<exists>pm. EnterWfiIfReady sleep_inputs 5000 105003 (new_power_manager pure_profile (full_speed\<lparr>wfiModeAllowed := True\<rparr>)) =
      Inr (100000, pm) \<and> sum_list (map totalTicksCount (cpuFrequencyMonitors pm)) = 105000"
proof -
  let ?pm0 = "new_power_manager pure_profile (full_speed\<lparr>wfiModeAllowed := True\<rparr>)"
  have w: "enterWfiModeIfAllowed sleep_inputs (full_speed\<lparr>wfiModeAllowed := True\<rparr>) =
      (100000, blockEnteringWfiMode (full_speed\<lparr>wfiModeAllowed := True\<rparr>))"
    by (simp add: enterWfiModeIfAllowed_def sleep_inputs_def isTimerTaskScheduledSoon_def TicksToMs_def
        ulHighFrequencyTimerTicksToMs_def computeIncrease_def)
  have "\<not> IsWfiBlocked (sentinels ?pm0)" by (simp add: new_power_manager_def IsWfiBlocked_def)
  then obtain pm where pm: "EnterWfiIfReady sleep_inputs 5000 105003 ?pm0 = Inr (100000, pm)"
    "lastCpuFrequencyChangeTimestamp pm = 105003"
    using w by (simp add: EnterWfiIfReady_def set_frequency_result MsToTicks_def Let_def new_power_manager_def)
  from pm_run.step [OF pm_run.start pm_step.slept [OF pm(1)]]
  have "sum_list (map totalTicksCount (cpuFrequencyMonitors pm)) = lastCpuFrequencyChangeTimestamp pm - 3"
    using ticks_accounted [of pure_profile _ 3] by (simp add: lost_ticks_def)
  then show ?thesis using pm by simp
qed

end
