(* ===== verification/Partitions.thy ===== *)
theory Partitions
  imports Prelude
begin

text \<open>
  Search for partitions on a block device, \<^verbatim>\<open>src/module-vfs/src/purefs/blkdev/partition_parser.cpp\<close>: the four
  entries of the master boot record and the chain of extended boot records behind an extended entry. The
  integer widths are those of the 32-bit target: \<^verbatim>\<open>sector_t\<close> has 64 bits, \<^verbatim>\<open>size_t\<close> and \<^verbatim>\<open>unsigned long\<close>
  have 32. The device is an argument: what it reports about itself, and what reading a sector gives.
\<close>

unbundle bit_operations_syntax

section \<open>Model\<close>

datatype info_type = sector_count | sector_size | erase_block | start_sector_info

text \<open>What the parser uses of a \<^verbatim>\<open>disk\<close>: its information and the bytes that reading a sector yields.\<close>

record block_reader =
  rd_info :: "info_type \<Rightarrow> int"
  rd_sector :: "u64 \<Rightarrow> int \<times> u8 list"

record disk_partition =
  physical_number :: int
  mbr_number :: int
  start_sector :: u64
  num_sectors :: u32
  bootable :: bool
  boot_unit :: u8
  part_type :: u16
  part_name :: string

definition ENXIO :: int where "ENXIO = 6"

definition ptbl_offs :: nat where "ptbl_offs = 0x1be"
definition ptbl_size :: nat where "ptbl_size = 16"
definition mbr_signature_offs :: nat where "mbr_signature_offs = 0x1FE"
definition min_sector_size :: int where "min_sector_size = 512"
definition max_parts :: nat where "max_parts = 100"

definition to_word :: "u8 list \<Rightarrow> nat \<Rightarrow> u32" where
  "to_word vec offs = ucast (vec ! offs) OR push_bit 8 (ucast (vec ! (offs + 1))) OR
     push_bit 16 (ucast (vec ! (offs + 2))) OR push_bit 24 (ucast (vec ! (offs + 3)))"

definition read_entry :: "u8 list \<Rightarrow> nat \<Rightarrow> disk_partition" where
  "read_entry buf offs =
     \<lparr>physical_number = 0, mbr_number = -1, start_sector = ucast (to_word buf (0x008 + offs)),
      num_sectors = to_word buf (0x00c + offs), bootable = (buf ! offs AND 0x80 \<noteq> 0), boot_unit = buf ! offs AND 0x7F,
      part_type = ucast (buf ! (0x004 + offs)), part_name = []\<rparr>"

definition read_partitions :: "u8 list \<Rightarrow> disk_partition list" where
  "read_partitions buf = map (\<lambda>i. read_entry buf (ptbl_offs + i * ptbl_size)) [0, 1, 2, 3]"

definition is_extended :: "u16 \<Rightarrow> bool" where
  "is_extended t \<longleftrightarrow> t = 0x85 \<or> t = 0x05 \<or> t = 0x0f"

definition check_partition :: "block_reader \<Rightarrow> disk_partition \<Rightarrow> bool" where
  "check_partition d part =
     (let ss = (of_int (rd_info d sector_size) :: u64);
          this_size = of_int (rd_info d sector_count) * ss;
          poffset = start_sector part * ss;
          psize = ucast (num_sectors part) * ss;
          pnext = start_sector part * ss + poffset
      in \<not> (poffset + psize > this_size \<or> pnext < start_sector part * ss))"

text \<open>The loop over the entries of the master boot record that are not extended.\<close>

fun add_primary :: "block_reader \<Rightarrow> int \<Rightarrow> disk_partition list \<Rightarrow> disk_partition list" where
  "add_primary d no [] = []"
| "add_primary d no (p # ps) =
     (if is_extended (part_type p) then add_primary d no ps
      else if \<not> check_partition d p then add_primary d no ps
      else (if num_sectors p \<noteq> 0 then [p\<lparr>physical_number := no, mbr_number := no\<rparr>] else []) @ add_primary d (no + 1) ps)"

record ext_state =
  try_count :: nat
  current_sector :: u32
  this_size :: u32
  sector_in_buf :: u32
  sect_buf :: "u8 list"
  ext_error :: int
  found :: "disk_partition list"

text \<open>
  The sanity checks on a logical partition. Products with the signed 64-bit sector size have 64 bits; the
  sizes that are stored in or cast to \<^verbatim>\<open>unsigned long\<close> are cut to 32.
\<close>

definition looks_strange :: "u64 \<Rightarrow> u32 \<Rightarrow> u32 \<Rightarrow> u32 \<Rightarrow> u32 \<Rightarrow> disk_partition \<Rightarrow> bool" where
  "looks_strange ss lba count cur limit part =
     (let poffset = start_sector part * ss;
          psize = ucast (num_sectors part) * ss;
          pnext = ucast cur * ss + poffset
      in poffset + psize > ucast limit \<or>
         pnext < ucast (ucast (ucast lba * ss) :: u32) \<or>
         pnext > ucast (ucast (ucast (lba + count) * ss) :: u32))"

text \<open>
  The loop over the four entries of an extended boot record: the first extended entry is remembered and the
  plausible others are added, which also sets the number of tries back.
\<close>

fun scan_entries ::
    "u64 \<Rightarrow> u32 \<Rightarrow> u32 \<Rightarrow> nat \<Rightarrow> disk_partition list \<Rightarrow> disk_partition option \<Rightarrow> ext_state \<Rightarrow> disk_partition option \<times> ext_state" where
  "scan_entries ss lba count n [] ext st = (ext, st)"
| "scan_entries ss lba count n (p # ps) ext st =
     (if num_sectors p = 0 then scan_entries ss lba count (n + 1) ps ext st
      else if is_extended (part_type p)
      then scan_entries ss lba count (n + 1) ps (case ext of None \<Rightarrow> Some p | Some q \<Rightarrow> Some q) st
      else if looks_strange ss lba count (current_sector st) (this_size st) p
      then scan_entries ss lba count (n + 1) ps ext st
      else scan_entries ss lba count (n + 1) ps ext
             (st\<lparr>found := found st @ [p\<lparr>physical_number := int n + 1,
                                       start_sector := start_sector p + ucast (current_sector st)\<rparr>],
                 try_count := max_parts\<rparr>))"

text \<open>A vector of the given size into which the bytes have been read.\<close>

definition read_into :: "nat \<Rightarrow> u8 list \<Rightarrow> u8 list" where
  "read_into n bs = take n (bs @ replicate n 0)"

text \<open>One round of the loop over the extended boot records: \<open>Inl\<close> leaves the loop, \<open>Inr\<close> goes on.\<close>

definition ext_step :: "block_reader \<Rightarrow> nat \<Rightarrow> u32 \<Rightarrow> u32 \<Rightarrow> ext_state \<Rightarrow> ext_state + ext_state" where
  "ext_step d ss lba count st =
     (if try_count st = 0 then Inl st
      else let st1 = st\<lparr>try_count := try_count st - 1\<rparr>;
               fresh = (sector_in_buf st1 \<noteq> current_sector st1);
               rd = rd_sector d (ucast (current_sector st1));
               st2 = (if fresh then st1\<lparr>ext_error := fst rd\<rparr> else st1)
           in if fresh \<and> fst rd < 0 then Inl st2
              else let st3 = (if fresh then st2\<lparr>sect_buf := read_into ss (snd rd), sector_in_buf := current_sector st2\<rparr>
                              else st2)
                   in if sect_buf st3 ! mbr_signature_offs \<noteq> 0x55 \<or> sect_buf st3 ! (mbr_signature_offs + 1) \<noteq> 0xAA
                      then Inl st3
                      else (case scan_entries (of_nat ss) lba count 0 (read_partitions (sect_buf st3)) None st3 of
                              (None, st4) \<Rightarrow> Inl st4
                            | (Some e, st4) \<Rightarrow>
                                Inr (st4\<lparr>current_sector := ucast (ucast lba + start_sector e),
                                         this_size := ucast (ucast (num_sectors e) * of_nat ss :: u64)\<rparr>)))"

partial_function (option) ext_loop :: "block_reader \<Rightarrow> nat \<Rightarrow> u32 \<Rightarrow> u32 \<Rightarrow> ext_state \<Rightarrow> ext_state option" where
  "ext_loop d ss lba count st =
     (case ext_step d ss lba count st of Inl st1 \<Rightarrow> Some st1 | Inr st1 \<Rightarrow> ext_loop d ss lba count st1)"

text \<open>The error code and the logical partitions found behind an extended entry.\<close>

definition parse_extended :: "block_reader \<Rightarrow> u32 \<Rightarrow> u32 \<Rightarrow> (int \<times> disk_partition list) outcome" where
  "parse_extended d lba count =
     (let ss = rd_info d sector_size
      in if ss < 0 then Inr (ss, [])
         else of_option Diverged (map_option (\<lambda>st. (ext_error st, found st))
                (ext_loop d (nat ss) lba count
                   \<lparr>try_count = max_parts, current_sector = lba, this_size = ucast (ucast count * of_int ss :: u64),
                    sector_in_buf = 0xFFFFFFFF, sect_buf = replicate (nat ss) 0, ext_error = 0, found = []\<rparr>)))"

fun add_extended :: "block_reader \<Rightarrow> int \<Rightarrow> disk_partition list \<Rightarrow> disk_partition list \<Rightarrow> (int \<times> disk_partition list) outcome" where
  "add_extended d ret [] acc = Inr (ret, acc)"
| "add_extended d ret (p # ps) acc =
     (if is_extended (part_type p)
      then bind_outcome (parse_extended d (ucast (start_sector p)) (num_sectors p)) (\<lambda>(r, new).
             if r < 0 then Inr (r, acc @ new) else add_extended d r ps (acc @ new))
      else add_extended d ret ps acc)"

definition partition_search :: "block_reader \<Rightarrow> (int \<times> disk_partition list) outcome" where
  "partition_search d =
     (let ss = rd_info d sector_size
      in if ss < 0 then Inr (ss, [])
         else let (ret, bs) = rd_sector d 0; mbr = read_into (nat ss) bs
              in if ret < 0 then Inr (ret, [])
                 else if ss < min_sector_size then Inr (- ENXIO, [])
                 else if mbr ! mbr_signature_offs \<noteq> 0x55 \<and> mbr ! (mbr_signature_offs + 1) \<noteq> 0xAA then Inr (- ENXIO, [])
                 else let root = read_partitions mbr in add_extended d ret root (add_primary d 1 root))"

section \<open>Primary partitions\<close>

lemma read_entry_start: "start_sector (read_entry buf offs) = ucast (to_word buf (8 + offs))"
  by (simp add: read_entry_def)

lemma check_partition_bound:
  assumes "check_partition d p" "start_sector p = ucast (x :: u32)" "0 < rd_info d sector_size" "rd_info d sector_size < 2 ^ 31"
    "0 \<le> rd_info d sector_count" "rd_info d sector_count * rd_info d sector_size < 2 ^ 64"
  shows "uint (start_sector p) + uint (num_sectors p) \<le> rd_info d sector_count"
proof -
  define n where "n = nat (rd_info d sector_size)"
  define c where "c = nat (rd_info d sector_count)"
  have n: "rd_info d sector_size = int n" "0 < n" "n < 2 ^ 31" using assms(3,4) by (simp_all add: n_def)
  have c: "rd_info d sector_count = int c" using assms(5) by (simp add: c_def)
  have "int (c * n) < 2 ^ 64" using assms(6) by (simp add: n c)
  then have cn: "c * n < 2 ^ 64" by (metis of_nat_less_iff of_nat_numeral of_nat_power)
  have un: "unat (of_nat n :: u64) = n" using n(3) by (simp add: unat_of_nat take_bit_nat_eq_self)
  have us: "unat (start_sector p) = unat x" unfolding assms(2)
    by (simp add: unsigned_ucast_eq) (rule take_bit_nat_eq_self, use u32_bound [of x] in simp)
  have uk: "unat (ucast (num_sectors p) :: u64) = unat (num_sectors p)"
    by (simp add: unsigned_ucast_eq) (rule take_bit_nat_eq_self, use u32_bound [of "num_sectors p"] in simp)
  have b: "unat (y :: u32) * n < 2 ^ 63" for y
  proof -
    have "unat y * n \<le> (2 ^ 32 - 1) * (2 ^ 31 - 1)" using u32_bound [of y] n(3) by (intro mult_le_mono) auto
    then show ?thesis by simp
  qed
  have po: "unat (start_sector p * of_nat n) = unat x * n"
    using b [of x] by (simp add: unat_word_ariths us un take_bit_nat_eq_self)
  have ps: "unat (ucast (num_sectors p) * of_nat n :: u64) = unat (num_sectors p) * n"
    using b [of "num_sectors p"] by (simp add: unat_word_ariths uk un)
  have sum: "unat (start_sector p * of_nat n + ucast (num_sectors p) * of_nat n) = (unat x + unat (num_sectors p)) * n"
  proof -
    have "unat (start_sector p * of_nat n) + unat (ucast (num_sectors p) * of_nat n :: u64) < 2 ^ LENGTH(64)"
      unfolding po ps using b [of x] b [of "num_sectors p"] by simp
    from unat_add_no_wrap [OF this] show ?thesis unfolding po ps by (simp only: distrib_right)
  qed
  have "unat (of_nat (c * n) :: u64) = c * n"
    unfolding unat_of_nat using cn by (intro mod_less) simp
  then have "unat (of_nat c * of_nat n :: u64) = c * n" unfolding of_nat_mult .
  moreover have "start_sector p * of_nat n + ucast (num_sectors p) * of_nat n \<le> (of_nat c * of_nat n :: u64)"
    using assms(1) by (simp add: check_partition_def n c Let_def not_less)
  ultimately have "(unat x + unat (num_sectors p)) * n \<le> c * n"
    unfolding word_le_nat_alt sum by simp
  then have "unat x + unat (num_sectors p) \<le> c" using n(2) by simp
  then have "int (unat (start_sector p)) + int (unat (num_sectors p)) \<le> int c" unfolding us by linarith
  then show ?thesis by (simp add: c)
qed

lemma add_primary_members:
  "p \<in> set (add_primary d no ps) \<Longrightarrow> \<exists>q no'. q \<in> set ps \<and> check_partition d q \<and> num_sectors q \<noteq> 0 \<and>
     \<not> is_extended (part_type q) \<and> no \<le> no' \<and> p = q\<lparr>physical_number := no', mbr_number := no'\<rparr>"
proof (induction d no ps rule: add_primary.induct)
  case (2 d no q ps)
  from "2.prems" consider "p = q\<lparr>physical_number := no, mbr_number := no\<rparr>" "check_partition d q" "num_sectors q \<noteq> 0"
      "\<not> is_extended (part_type q)"
    | "is_extended (part_type q)" "p \<in> set (add_primary d no ps)"
    | "\<not> is_extended (part_type q)" "\<not> check_partition d q" "p \<in> set (add_primary d no ps)"
    | "\<not> is_extended (part_type q)" "check_partition d q" "p \<in> set (add_primary d (no + 1) ps)"
    by (auto split: if_splits)
  then show ?case
  proof cases
    case 4
    from 2(3) [OF 4(1) _ 4(3)] 4(2) obtain q' no' where "q' \<in> set ps" "check_partition d q'" "num_sectors q' \<noteq> 0"
      "\<not> is_extended (part_type q')" "no + 1 \<le> no'" "p = q'\<lparr>physical_number := no', mbr_number := no'\<rparr>" by auto
    then show ?thesis by (intro exI [of _ q'] exI [of _ no']) simp
  qed (use 2(1,2) in fastforce)+
qed simp

section \<open>The chain of extended boot records\<close>

definition first_extended :: "disk_partition list \<Rightarrow> disk_partition option" where
  "first_extended ps = find (\<lambda>p. num_sectors p \<noteq> 0 \<and> is_extended (part_type p)) ps"

definition ext_same :: "ext_state \<Rightarrow> ext_state \<Rightarrow> bool" where
  "ext_same s t \<longleftrightarrow> current_sector t = current_sector s \<and> this_size t = this_size s \<and> sector_in_buf t = sector_in_buf s \<and>
     sect_buf t = sect_buf s \<and> ext_error t = ext_error s"

definition all_logical :: "disk_partition list \<Rightarrow> bool" where
  "all_logical ps \<longleftrightarrow> (\<forall>p \<in> set ps. mbr_number p = -1)"

lemma scan_entries_first:
  "fst (scan_entries ss lba count n ps ext st) = (case ext of None \<Rightarrow> first_extended ps | Some q \<Rightarrow> Some q)"
  by (induction ss lba count n ps ext st rule: scan_entries.induct) (auto simp: first_extended_def split: option.splits)

lemma scan_entries_same: "ext_same st (snd (scan_entries ss lba count n ps ext st))"
  by (induction ss lba count n ps ext st rule: scan_entries.induct) (simp_all add: ext_same_def)

lemma scan_entries_logical:
  "all_logical (found st) \<Longrightarrow> all_logical ps \<Longrightarrow> all_logical (found (snd (scan_entries ss lba count n ps ext st)))"
  by (induction ss lba count n ps ext st rule: scan_entries.induct) (auto simp: all_logical_def)

lemma read_partitions_mbr: "p \<in> set (read_partitions buf) \<Longrightarrow> mbr_number p = -1 \<and> (\<exists>x :: u32. start_sector p = ucast x)"
  by (auto simp: read_partitions_def read_entry_def)

lemma read_partitions_logical: "all_logical (read_partitions buf)"
  using read_partitions_mbr by (auto simp: all_logical_def)

text \<open>What a round does when it goes on: the record it has looked at is in the buffer and links to the next.\<close>

lemma ext_step_goes_on:
  assumes "ext_step d ss lba count st = Inr st'"
  shows "\<exists>e. first_extended (read_partitions (sect_buf st')) = Some e \<and>
      current_sector st' = ucast (ucast lba + start_sector e :: u64) \<and> sector_in_buf st' = current_sector st \<and>
      sect_buf st' = (if sector_in_buf st \<noteq> current_sector st then read_into ss (snd (rd_sector d (ucast (current_sector st))))
                      else sect_buf st) \<and>
      sect_buf st' ! mbr_signature_offs = 0x55 \<and> sect_buf st' ! (mbr_signature_offs + 1) = 0xAA \<and>
      (sector_in_buf st \<noteq> current_sector st \<longrightarrow> 0 \<le> fst (rd_sector d (ucast (current_sector st))))"
proof -
  let ?st2 = "st\<lparr>try_count := try_count st - 1, ext_error := fst (rd_sector d (ucast (current_sector st))),
      sect_buf := read_into ss (snd (rd_sector d (ucast (current_sector st)))), sector_in_buf := current_sector st\<rparr>"
  let ?st = "if sector_in_buf st \<noteq> current_sector st then ?st2 else st\<lparr>try_count := try_count st - 1\<rparr>"
  obtain e st4 where sc: "scan_entries (of_nat ss) lba count 0 (read_partitions (sect_buf ?st)) None ?st = (Some e, st4)"
    and st': "st' = st4\<lparr>current_sector := ucast (ucast lba + start_sector e), this_size := ucast (ucast (num_sectors e) * of_nat ss :: u64)\<rparr>"
    and sig: "sect_buf ?st ! mbr_signature_offs = 0x55" "sect_buf ?st ! (mbr_signature_offs + 1) = 0xAA"
      "sector_in_buf st \<noteq> current_sector st \<longrightarrow> 0 \<le> fst (rd_sector d (ucast (current_sector st)))"
    using assms by (auto simp: ext_step_def Let_def split: if_splits prod.splits option.splits)
  from scan_entries_first [of "of_nat ss" lba count 0 "read_partitions (sect_buf ?st)" None ?st] sc
  have "first_extended (read_partitions (sect_buf ?st)) = Some e" by simp
  moreover from scan_entries_same [of ?st "of_nat ss" lba count 0 "read_partitions (sect_buf ?st)" None] sc
  have "ext_same ?st st4" by simp
  ultimately show ?thesis using sig unfolding st' ext_same_def by (auto split: if_splits)
qed

lemma scan_entries_logical_eq:
  "scan_entries ss lba count n (read_partitions b) ext st = (e, st') \<Longrightarrow> all_logical (found st) \<Longrightarrow> all_logical (found st')"
  using scan_entries_logical [OF _ read_partitions_logical, of st ss lba count n b ext] by simp

lemma ext_step_logical:
  assumes "all_logical (found st)"
  shows "ext_step d ss lba count st = Inl st' \<Longrightarrow> all_logical (found st')"
    and "ext_step d ss lba count st = Inr st' \<Longrightarrow> all_logical (found st')"
  using assms
  by (auto simp: ext_step_def Let_def split: if_splits prod.splits option.splits dest!: scan_entries_logical_eq)

lemma ext_loop_logical:
  assumes "ext_loop d ss lba count st = Some st'" "all_logical (found st)"
  shows "all_logical (found st')"
proof -
  have "all_logical (found st) \<longrightarrow> all_logical (found st')"
  proof (rule ext_loop.raw_induct [OF _ assms(1)])
    fix f d ss lba count st st'
    assume ih: "\<And>d ss lba count st st'. f d ss lba count st = Some st' \<Longrightarrow> all_logical (found st) \<longrightarrow> all_logical (found st')"
      and st': "(case ext_step d ss lba count st of Inl st1 \<Rightarrow> Some st1 | Inr st1 \<Rightarrow> f d ss lba count st1) = Some st'"
    show "all_logical (found st) \<longrightarrow> all_logical (found st')"
    proof (cases "ext_step d ss lba count st")
      case (Inl st1)
      with st' ext_step_logical(1) show ?thesis by auto
    next
      case (Inr st1)
      with st' ih [of d ss lba count st1] ext_step_logical(2) show ?thesis by auto
    qed
  qed
  with assms(2) show ?thesis by blast
qed

lemma parse_extended_logical: "parse_extended d lba count = Inr (r, ps) \<Longrightarrow> all_logical ps"
  by (auto simp: parse_extended_def Let_def of_option_def all_logical_def split: if_splits option.splits
      dest!: ext_loop_logical)

lemma add_extended_members:
  "add_extended d ret root acc = Inr (r, ps) \<Longrightarrow> p \<in> set ps \<Longrightarrow> p \<in> set acc \<or> mbr_number p = -1"
proof (induction d ret root acc rule: add_extended.induct)
  case (2 d ret q qs acc)
  show ?case
  proof (cases "is_extended (part_type q)")
    case True
    with 2(3) obtain r1 new where pe: "parse_extended d (ucast (start_sector q)) (num_sectors q) = Inr (r1, new)"
      by (auto simp: bind_outcome_Inr_iff)
    from parse_extended_logical [OF this] have "p \<in> set new \<Longrightarrow> mbr_number p = -1" by (auto simp: all_logical_def)
    with 2(1) [OF True, of r1 new] 2(3,4) True pe show ?thesis by (auto split: if_splits)
  next
    case False
    with 2 show ?thesis by simp
  qed
qed simp

lemma search_primary:
  assumes "partition_search d = Inr (r, ps)" "p \<in> set ps" "mbr_number p \<noteq> -1"
  shows "\<exists>q no. check_partition d q \<and> num_sectors q \<noteq> 0 \<and> (\<exists>x :: u32. start_sector q = ucast x) \<and>
    p = q\<lparr>physical_number := no, mbr_number := no\<rparr>"
proof -
  define root where "root = read_partitions (read_into (nat (rd_info d sector_size)) (snd (rd_sector d 0)))"
  from assms(1,2) have "\<exists>ret. add_extended d ret root (add_primary d 1 root) = Inr (r, ps)"
    by (auto simp: partition_search_def Let_def root_def split: if_splits prod.splits)
  with add_extended_members assms(2,3) have "p \<in> set (add_primary d 1 root)" by blast
  from add_primary_members [OF this] read_partitions_mbr show ?thesis unfolding root_def by blast
qed

section \<open>Properties\<close>

text \<open>
  C14. On a device that reports a positive sector size below 2 GiB and a total size below 2^64 bytes, every
  primary partition that the search reports lies within the device.
\<close>

theorem primary_within_disk:
  assumes "partition_search d = Inr (r, ps)" "p \<in> set ps" "mbr_number p \<noteq> -1"
    "0 < rd_info d sector_size" "rd_info d sector_size < 2 ^ 31"
    "0 \<le> rd_info d sector_count" "rd_info d sector_count * rd_info d sector_size < 2 ^ 64"
  shows "uint (start_sector p) + uint (num_sectors p) \<le> rd_info d sector_count \<and> num_sectors p \<noteq> 0"
proof -
  from search_primary [OF assms(1-3)] obtain q no x where q: "check_partition d q" "num_sectors q \<noteq> 0"
    "start_sector q = ucast (x :: u32)" "p = q\<lparr>physical_number := no, mbr_number := no\<rparr>" by blast
  from check_partition_bound [OF q(1,3) assms(4-7)] q(2,4) show ?thesis by simp
qed

text \<open>
  The record that an extended boot record links to: if its sector can be read and has the signature, the
  offset of its first extended entry, counted from the first record of the chain.
\<close>

definition next_record :: "block_reader \<Rightarrow> nat \<Rightarrow> u32 \<Rightarrow> u32 \<Rightarrow> u32 option" where
  "next_record d ss lba cur =
     (let rd = rd_sector d (ucast cur); buf = read_into ss (snd rd)
      in if fst rd < 0 \<or> buf ! mbr_signature_offs \<noteq> 0x55 \<or> buf ! (mbr_signature_offs + 1) \<noteq> 0xAA then None
         else map_option (\<lambda>e. ucast (ucast lba + start_sector e :: u64)) (first_extended (read_partitions buf)))"

inductive on_chain :: "block_reader \<Rightarrow> nat \<Rightarrow> u32 \<Rightarrow> u32 \<Rightarrow> bool" for d ss lba where
  First: "on_chain d ss lba lba"
| Next: "on_chain d ss lba cur \<Longrightarrow> next_record d ss lba cur = Some nxt \<Longrightarrow> on_chain d ss lba nxt"

definition links_forward :: "block_reader \<Rightarrow> nat \<Rightarrow> u32 \<Rightarrow> bool" where
  "links_forward d ss lba \<longleftrightarrow> (\<forall>cur nxt. on_chain d ss lba cur \<longrightarrow> next_record d ss lba cur = Some nxt \<longrightarrow> cur < nxt)"

text \<open>What is in the buffer at the start of a round is not the sector of this round.\<close>

definition fresh_round :: "ext_state \<Rightarrow> bool" where
  "fresh_round st \<longleftrightarrow> (sector_in_buf st = current_sector st \<longrightarrow> sect_buf st ! mbr_signature_offs \<noteq> 0x55)"

lemma ext_step_follows:
  assumes "ext_step d ss lba count st = Inr st'" "fresh_round st"
  shows "next_record d ss lba (current_sector st) = Some (current_sector st') \<and> sector_in_buf st' = current_sector st"
proof -
  from ext_step_goes_on [OF assms(1)] obtain e where e: "first_extended (read_partitions (sect_buf st')) = Some e"
    "current_sector st' = ucast (ucast lba + start_sector e :: u64)" "sector_in_buf st' = current_sector st"
    "sect_buf st' = (if sector_in_buf st \<noteq> current_sector st then read_into ss (snd (rd_sector d (ucast (current_sector st))))
                    else sect_buf st)" "sect_buf st' ! mbr_signature_offs = 0x55" "sect_buf st' ! (mbr_signature_offs + 1) = 0xAA"
    "sector_in_buf st \<noteq> current_sector st \<longrightarrow> 0 \<le> fst (rd_sector d (ucast (current_sector st)))" by blast
  from assms(2) e(4,5) have ne: "sector_in_buf st \<noteq> current_sector st" by (auto simp: fresh_round_def)
  then have "sect_buf st' = read_into ss (snd (rd_sector d (ucast (current_sector st))))" using e(4) by simp
  then show ?thesis using ne e by (simp add: next_record_def Let_def)
qed

lemma ext_loop_returns:
  assumes "links_forward d ss lba" "on_chain d ss lba (current_sector st)" "fresh_round st"
  shows "\<exists>st'. ext_loop d ss lba count st = Some st'"
  using assms(2,3)
proof (induction "2 ^ 32 - unat (current_sector st)" arbitrary: st rule: less_induct)
  case less
  show ?case
  proof (cases "ext_step d ss lba count st")
    case (Inl st1)
    then show ?thesis by (subst ext_loop.simps) simp
  next
    case (Inr st1)
    note follows = ext_step_follows [OF Inr less.prems(2)]
    have lt: "current_sector st < current_sector st1"
      using assms(1) less.prems(1) follows by (auto simp: links_forward_def)
    then have "2 ^ 32 - unat (current_sector st1) < 2 ^ 32 - unat (current_sector st)"
      using u32_bound [of "current_sector st1"] by (simp add: word_less_nat_alt)
    moreover have "on_chain d ss lba (current_sector st1)" using less.prems(1) follows by (blast intro: on_chain.Next)
    moreover have "fresh_round st1" using lt follows by (auto simp: fresh_round_def)
    ultimately obtain st' where "ext_loop d ss lba count st1 = Some st'" using less.hyps by blast
    with Inr show ?thesis by (subst ext_loop.simps) simp
  qed
qed

text \<open>
  C15. When every valid extended boot record on the chain that starts behind an extended entry links to a later
  sector, the search of this chain returns, however long the chain is and whatever else it and the rest of
  the device hold.
\<close>

theorem forward_chain_is_read:
  assumes "links_forward d (nat (rd_info d sector_size)) lba" "min_sector_size \<le> rd_info d sector_size"
  shows "\<exists>r ps. parse_extended d lba count = Inr (r, ps)"
proof -
  define st where "st = \<lparr>try_count = max_parts, current_sector = lba,
       this_size = ucast (ucast count * of_int (rd_info d sector_size) :: u64), sector_in_buf = 0xFFFFFFFF,
       sect_buf = replicate (nat (rd_info d sector_size)) 0, ext_error = 0, found = []\<rparr>"
  have "fresh_round st" using assms(2) by (simp add: st_def fresh_round_def mbr_signature_offs_def min_sector_size_def)
  moreover have "on_chain d (nat (rd_info d sector_size)) lba (current_sector st)" by (simp add: st_def on_chain.First)
  ultimately obtain st' where "ext_loop d (nat (rd_info d sector_size)) lba count st = Some st'"
    using ext_loop_returns [OF assms(1)] by blast
  with assms(2) show ?thesis by (simp add: parse_extended_def Let_def min_sector_size_def st_def)
qed

section \<open>A chain that links to itself\<close>

lemma scan_entries_tries:
  "(\<exists>p \<in> set ps. num_sectors p \<noteq> 0 \<and> \<not> is_extended (part_type p) \<and>
      \<not> looks_strange ss lba count (current_sector st) (this_size st) p) \<or> try_count st = max_parts \<Longrightarrow>
   try_count (snd (scan_entries ss lba count n ps ext st)) = max_parts"
  by (induction ss lba count n ps ext st rule: scan_entries.induct) auto

text \<open>
  An extended boot record that holds a plausible logical partition and an extended entry with the offset
  zero, which links the record to itself.
\<close>

definition self_linked :: "block_reader \<Rightarrow> nat \<Rightarrow> u32 \<Rightarrow> u32 \<Rightarrow> bool" where
  "self_linked d ss lba count \<longleftrightarrow>
     (let buf = read_into ss (snd (rd_sector d (ucast lba))); ps = read_partitions buf
      in 0 \<le> fst (rd_sector d (ucast lba)) \<and> buf ! mbr_signature_offs = 0x55 \<and> buf ! (mbr_signature_offs + 1) = 0xAA \<and>
         (\<exists>e. first_extended ps = Some e \<and> start_sector e = 0 \<and> num_sectors e = count) \<and>
         (\<exists>p \<in> set ps. num_sectors p \<noteq> 0 \<and> \<not> is_extended (part_type p) \<and>
            \<not> looks_strange (of_nat ss) lba count lba (ucast (ucast count * of_nat ss :: u64)) p))"

definition at_self_link :: "block_reader \<Rightarrow> nat \<Rightarrow> u32 \<Rightarrow> u32 \<Rightarrow> ext_state \<Rightarrow> bool" where
  "at_self_link d ss lba count st \<longleftrightarrow> self_linked d ss lba count \<and> current_sector st = lba \<and> try_count st \<noteq> 0 \<and>
     this_size st = ucast (ucast count * of_nat ss :: u64) \<and>
     (sector_in_buf st = lba \<longrightarrow> sect_buf st = read_into ss (snd (rd_sector d (ucast lba))))"

lemma ext_step_self_link:
  assumes "at_self_link d ss lba count st"
  shows "\<exists>st'. ext_step d ss lba count st = Inr st' \<and> at_self_link d ss lba count st'"
proof -
  define buf where "buf = read_into ss (snd (rd_sector d (ucast lba)))"
  define u where "u = (if sector_in_buf st \<noteq> lba then st\<lparr>try_count := try_count st - 1, ext_error := fst (rd_sector d (ucast lba)),
      sect_buf := buf, sector_in_buf := lba\<rparr> else st\<lparr>try_count := try_count st - 1\<rparr>)"
  have u: "current_sector u = lba" "this_size u = ucast (ucast count * of_nat ss :: u64)" "sect_buf u = buf" "sector_in_buf u = lba"
    using assms by (auto simp: u_def at_self_link_def buf_def)
  from assms obtain e where e: "0 \<le> fst (rd_sector d (ucast lba))" "buf ! mbr_signature_offs = 0x55"
    "buf ! (mbr_signature_offs + 1) = 0xAA" "first_extended (read_partitions buf) = Some e" "start_sector e = 0" "num_sectors e = count"
    "\<exists>p \<in> set (read_partitions buf). num_sectors p \<noteq> 0 \<and> \<not> is_extended (part_type p) \<and>
       \<not> looks_strange (of_nat ss) lba count (current_sector u) (this_size u) p"
    unfolding at_self_link_def self_linked_def Let_def buf_def [symmetric] u(1,2) by blast
  define w where "w = snd (scan_entries (of_nat ss) lba count 0 (read_partitions buf) None u)"
  have sc: "scan_entries (of_nat ss) lba count 0 (read_partitions buf) None u = (Some e, w)"
    using scan_entries_first [of "of_nat ss" lba count 0 "read_partitions buf" None u] e(4) by (simp add: w_def prod_eq_iff)
  have w: "try_count w = max_parts" "ext_same u w"
    using scan_entries_tries e(7) scan_entries_same unfolding w_def by blast+
  have r: "ext_step d ss lba count st = Inr (w\<lparr>current_sector := ucast (ucast lba + start_sector e),
      this_size := ucast (ucast (num_sectors e) * of_nat ss :: u64)\<rparr>)"
    using assms e(1-3) sc by (auto simp: ext_step_def at_self_link_def u_def buf_def [symmetric] Let_def split: if_splits)
  have "ucast (ucast lba :: u64) = lba" by (rule bit_word_eqI) (simp add: bit_simps)
  with r w e(5,6) u assms show ?thesis
    by (auto simp: at_self_link_def ext_same_def max_parts_def buf_def)
qed

lemma ext_loop_self_link:
  assumes "at_self_link d ss lba count st"
  shows "ext_loop d ss lba count st = None"
proof (rule ccontr)
  assume "ext_loop d ss lba count st \<noteq> None"
  then obtain y where y: "ext_loop d ss lba count st = Some y" by blast
  have "\<not> at_self_link d ss lba count st"
  proof (rule ext_loop.raw_induct [OF _ y])
    fix f d ss lba count st y
    assume ih: "\<And>d ss lba count st y. f d ss lba count st = Some y \<Longrightarrow> \<not> at_self_link d ss lba count st"
      and r: "(case ext_step d ss lba count st of Inl st1 \<Rightarrow> Some st1 | Inr st1 \<Rightarrow> f d ss lba count st1) = Some y"
    show "\<not> at_self_link d ss lba count st"
    proof
      assume "at_self_link d ss lba count st"
      from ext_step_self_link [OF this] obtain st' where "ext_step d ss lba count st = Inr st'" "at_self_link d ss lba count st'" by blast
      with r ih show False by auto
    qed
  qed
  with assms show False by blast
qed

text \<open>
  C16. The limit on the number of records does not bound the search: each partition found sets it back. On a
  device whose extended boot record links to itself and holds a plausible logical partition the search never
  returns.
\<close>

theorem cyclic_chain_never_ends:
  assumes "self_linked d (nat (rd_info d sector_size)) lba count" "0 \<le> rd_info d sector_size" "lba \<noteq> 0xFFFFFFFF"
  shows "parse_extended d lba count = Inl Diverged"
proof -
  define ss where "ss = nat (rd_info d sector_size)"
  define st where "st = \<lparr>try_count = max_parts, current_sector = lba, this_size = ucast (ucast count * of_nat ss :: u64),
       sector_in_buf = 0xFFFFFFFF, sect_buf = replicate ss 0, ext_error = 0, found = []\<rparr>"
  have i: "rd_info d sector_size = int ss" using assms(2) by (simp add: ss_def)
  have "at_self_link d ss lba count st"
    using assms(1,3) unfolding at_self_link_def ss_def [symmetric] by (simp add: st_def max_parts_def)
  from ext_loop_self_link [OF this] show ?thesis by (simp add: parse_extended_def Let_def i st_def)
qed

section \<open>Example devices\<close>

text \<open>A device of 1000 sectors with a given sector 0 and a given sector 63, each as a map from positions to bytes.\<close>

definition example_disk :: "(nat \<Rightarrow> u8) \<Rightarrow> (nat \<Rightarrow> u8) \<Rightarrow> block_reader" where
  "example_disk f g = \<lparr>rd_info = (\<lambda>i. case i of sector_size \<Rightarrow> 512 | _ \<Rightarrow> 1000),
     rd_sector = (\<lambda>lba. (0, map (if lba = 0 then f else if lba = 63 then g else (\<lambda>_. 0)) [0..<512]))\<rparr>"

definition example_mbr :: "nat \<Rightarrow> u8" where
  "example_mbr i = (if i = 450 then 0x83 else if i = 454 then 64 else if i = 458 then 100
     else if i = 510 then 0x55 else if i = 511 then 0xAA else 0)"

definition cyclic_ebr :: "nat \<Rightarrow> u8" where
  "cyclic_ebr i = (if i = 450 then 0x83 else if i = 454 then 1 else if i = 458 then 100
     else if i = 466 then 0x05 else if i = 474 then 200
     else if i = 510 then 0x55 else if i = 511 then 0xAA else 0)"

lemma read_into_map: "read_into 512 (map f [0..<512]) = map f [0..<512]"
  by (simp add: read_into_def)

lemma to_word_map: "offs + 3 < 512 \<Longrightarrow> to_word (map f [0..<512]) offs = ucast (f offs) OR push_bit 8 (ucast (f (offs + 1))) OR
     push_bit 16 (ucast (f (offs + 2))) OR push_bit 24 (ucast (f (offs + 3)))"
  by (simp add: to_word_def)

definition entry :: "u16 \<Rightarrow> u64 \<Rightarrow> u32 \<Rightarrow> disk_partition" where
  "entry t s n = \<lparr>physical_number = 0, mbr_number = -1, start_sector = s, num_sectors = n, bootable = False, boot_unit = 0,
     part_type = t, part_name = []\<rparr>"

lemma example_mbr_entries:
  "read_partitions (map example_mbr [0..<512]) = [entry 0x83 64 100, entry 0 0 0, entry 0 0 0, entry 0 0 0]"
  by (simp add: read_partitions_def read_entry_def to_word_map ptbl_offs_def ptbl_size_def example_mbr_def entry_def)

lemma cyclic_ebr_entries:
  "read_partitions (map cyclic_ebr [0..<512]) = [entry 0x83 1 100, entry 0x05 0 200, entry 0 0 0, entry 0 0 0]"
  by (simp add: read_partitions_def read_entry_def to_word_map ptbl_offs_def ptbl_size_def cyclic_ebr_def entry_def)

lemma example_search:
  "partition_search (example_disk example_mbr g) = Inr (0, [(entry 0x83 64 100)\<lparr>physical_number := 1, mbr_number := 1\<rparr>])"
proof -
  have "map example_mbr [0..<512] ! 510 = 0x55" by (simp add: example_mbr_def)
  moreover have "check_partition (example_disk example_mbr g) (entry t s n) \<longleftrightarrow> \<not> (s * 512 + ucast n * 512 > 512000 \<or> s * 512 + s * 512 < s * 512)" for t s n
    by (simp add: check_partition_def example_disk_def entry_def Let_def)
  ultimately show ?thesis
    by (simp add: partition_search_def example_disk_def read_into_map min_sector_size_def mbr_signature_offs_def
        example_mbr_entries is_extended_def entry_def)
qed

lemma primary_within_disk_witness:
  "uint (start_sector ((entry 0x83 64 100)\<lparr>physical_number := 1, mbr_number := 1\<rparr>)) +
     uint (num_sectors ((entry 0x83 64 100)\<lparr>physical_number := 1, mbr_number := 1\<rparr>)) \<le> 1000 \<and>
   num_sectors ((entry 0x83 64 100)\<lparr>physical_number := 1, mbr_number := 1\<rparr>) \<noteq> 0"
  using primary_within_disk [OF example_search, of "(entry 0x83 64 100)\<lparr>physical_number := 1, mbr_number := 1\<rparr>" "\<lambda>_. 0"]
  by (simp add: example_disk_def)

lemma cyclic_chain_never_ends_witness: "parse_extended (example_disk example_mbr cyclic_ebr) 63 200 = Inl Diverged"
proof (rule cyclic_chain_never_ends)
  have "map cyclic_ebr [0..<512] ! 510 = 0x55" "map cyclic_ebr [0..<512] ! 511 = 0xAA" by (simp_all add: cyclic_ebr_def)
  then show "self_linked (example_disk example_mbr cyclic_ebr) (nat (rd_info (example_disk example_mbr cyclic_ebr) sector_size)) 63 200"
    by (simp add: self_linked_def example_disk_def read_into_map mbr_signature_offs_def cyclic_ebr_entries first_extended_def
        is_extended_def entry_def looks_strange_def Let_def)
qed (simp_all add: example_disk_def)

text \<open>A chain of two records with a logical partition each, at the sectors 63 and 263.\<close>

definition second_ebr :: "nat \<Rightarrow> u8" where
  "second_ebr i = (if i = 450 then 0x83 else if i = 454 then 1 else if i = 458 then 50
     else if i = 510 then 0x55 else if i = 511 then 0xAA else 0)"

definition first_ebr :: "nat \<Rightarrow> u8" where
  "first_ebr = cyclic_ebr(470 := 200)"

definition chain_disk :: block_reader where
  "chain_disk = \<lparr>rd_info = (\<lambda>i. case i of sector_size \<Rightarrow> 512 | _ \<Rightarrow> 1000),
     rd_sector = (\<lambda>lba. (0, map (if lba = 63 then first_ebr else if lba = 263 then second_ebr else cyclic_ebr) [0..<512]))\<rparr>"

lemma chain_entries:
  "read_partitions (map first_ebr [0..<512]) = [entry 0x83 1 100, entry 0x05 200 200, entry 0 0 0, entry 0 0 0]"
  "read_partitions (map second_ebr [0..<512]) = [entry 0x83 1 50, entry 0 0 0, entry 0 0 0, entry 0 0 0]"
  by (simp_all add: read_partitions_def read_entry_def to_word_map ptbl_offs_def ptbl_size_def first_ebr_def cyclic_ebr_def
      second_ebr_def entry_def)

lemma chain_links: "next_record chain_disk 512 63 63 = Some 263" "next_record chain_disk 512 63 263 = None"
proof -
  have "map first_ebr [0..<512] ! 510 = 0x55" "map first_ebr [0..<512] ! 511 = 0xAA"
    by (simp_all add: first_ebr_def cyclic_ebr_def)
  then show "next_record chain_disk 512 63 63 = Some 263"
    by (simp add: next_record_def chain_disk_def read_into_map mbr_signature_offs_def chain_entries first_extended_def
        is_extended_def entry_def Let_def)
  show "next_record chain_disk 512 63 263 = None"
    by (simp add: next_record_def chain_disk_def read_into_map mbr_signature_offs_def chain_entries first_extended_def
        is_extended_def entry_def Let_def)
qed

lemma chain_sectors: "on_chain chain_disk 512 63 cur \<Longrightarrow> cur = 63 \<or> cur = 263"
  by (induction rule: on_chain.induct) (auto simp: chain_links)

lemma forward_chain_is_read_witness:
  "next_record chain_disk 512 63 63 = Some 263 \<and> (\<exists>r ps. parse_extended chain_disk 63 500 = Inr (r, ps))"
proof (intro conjI chain_links forward_chain_is_read)
  have "rd_info chain_disk sector_size = 512" by (simp add: chain_disk_def)
  then show "links_forward chain_disk (nat (rd_info chain_disk sector_size)) 63"
    using chain_links by (auto simp: links_forward_def dest: chain_sectors)
qed (simp add: chain_disk_def min_sector_size_def)

text \<open>One of the two bytes of the signature is enough for the master boot record to be accepted.\<close>

lemma half_signature_accepted:
  "partition_search (example_disk (example_mbr(511 := 0)) g) = Inr (0, [(entry 0x83 64 100)\<lparr>physical_number := 1, mbr_number := 1\<rparr>])"
proof -
  have e: "read_partitions (map (example_mbr(511 := 0)) [0..<512]) = [entry 0x83 64 100, entry 0 0 0, entry 0 0 0, entry 0 0 0]"
    by (simp add: read_partitions_def read_entry_def to_word_map ptbl_offs_def ptbl_size_def example_mbr_def entry_def)
  have "map (example_mbr(511 := 0)) [0..<512] ! 510 = 0x55" by (simp add: example_mbr_def)
  with e show ?thesis
    by (simp add: partition_search_def example_disk_def read_into_map min_sector_size_def mbr_signature_offs_def
        is_extended_def check_partition_def entry_def Let_def del: fun_upd_apply)
qed

text \<open>On the 32-bit target the size of an extended partition of 4 GiB is cut to zero, and its partitions are rejected.\<close>

lemma large_extended_rejected:
  "looks_strange 512 2048 0x800000 2048 (ucast (ucast (0x800000 :: u32) * 512 :: u64)) (entry 0x83 63 1000)"
  by (simp add: looks_strange_def entry_def Let_def)

end
