(* ===== verification/DiskMgr.thy ===== *)
theory DiskMgr
  imports Partitions
begin

text \<open>
  The block device manager, \<^verbatim>\<open>src/module-vfs/src/purefs/blkdev/disk_manager.cpp\<close> with \<^verbatim>\<open>disk_handle\<close>: named
  devices, handles to a device or to one of its partitions, and the translation of sectors relative to a
  partition. The abstract class \<^verbatim>\<open>disk\<close> is a record of the virtual functions that the manager calls, over a
  state of the driver. The disks that are alive are in a store, a handle refers weakly to one of them, and
  the recursive lock makes each operation one step. The number of sectors that a handle caches is the one
  its device reports.
\<close>

section \<open>Devices\<close>

definition EINVAL :: int where "EINVAL = 22"
definition EEXIST :: int where "EEXIST = 17"
definition ENOENT :: int where "ENOENT = 2"
definition EIO :: int where "EIO = 5"
definition ERANGE :: int where "ERANGE = 34"

datatype media_status = healthly | uninit | nomedia | wprotect | media_error
datatype pm_state = pm_active | pm_low_power | pm_suspend | pm_force_suspend | pm_power_off

type_synonym hwpart = u8

record 'd disk_ops =
  op_probe :: "u32 \<Rightarrow> 'd \<Rightarrow> int \<times> 'd"
  op_cleanup :: "'d \<Rightarrow> int \<times> 'd"
  op_write :: "u8 list \<Rightarrow> u64 \<Rightarrow> u32 \<Rightarrow> hwpart \<Rightarrow> 'd \<Rightarrow> int \<times> 'd"
  op_read :: "u64 \<Rightarrow> u32 \<Rightarrow> hwpart \<Rightarrow> 'd \<Rightarrow> int \<times> u8 list"
  op_erase :: "u64 \<Rightarrow> u32 \<Rightarrow> hwpart \<Rightarrow> 'd \<Rightarrow> int \<times> 'd"
  op_sync :: "'d \<Rightarrow> int \<times> 'd"
  op_pm_control :: "pm_state \<Rightarrow> 'd \<Rightarrow> int \<times> 'd"
  op_pm_read :: "'d \<Rightarrow> int \<times> pm_state"
  op_status :: "'d \<Rightarrow> media_status"
  op_get_info :: "info_type \<Rightarrow> hwpart \<Rightarrow> 'd \<Rightarrow> int"

record 'd disk_object =
  driver :: "'d disk_ops"
  driver_state :: 'd
  m_partitions :: "disk_partition list"

record 'd disk_manager =
  m_dev_map :: "(string \<times> nat) list"
  disks :: "nat \<rightharpoonup> 'd disk_object"

text \<open>Partition numbers are signed 16-bit integers.\<close>

definition s16 :: "int \<Rightarrow> int" where
  "s16 i = sint (word_of_int i :: 16 word)"

definition hw_partition_first :: int where "hw_partition_first = 16383"

definition to_syspart_num :: "int \<Rightarrow> int" where
  "to_syspart_num part = s16 (part + hw_partition_first)"

record disk_handle =
  h_disk :: nat
  h_partition :: int
  h_name :: string

definition is_any_partition :: "int \<Rightarrow> bool" where
  "is_any_partition p \<longleftrightarrow> p \<ge> 0"

definition is_system_partition :: "int \<Rightarrow> bool" where
  "is_system_partition p \<longleftrightarrow> p \<ge> hw_partition_first"

definition is_user_partition :: "int \<Rightarrow> bool" where
  "is_user_partition p \<longleftrightarrow> is_any_partition p \<and> \<not> is_system_partition p"

definition system_partition :: "disk_handle \<Rightarrow> hwpart" where
  "system_partition h =
     (if h_partition h \<ge> hw_partition_first then of_int (h_partition h - hw_partition_first + 1) else 0)"

definition handle_sectors :: "'d disk_object \<Rightarrow> disk_handle \<Rightarrow> u64" where
  "handle_sectors dk h =
     (let c = op_get_info (driver dk) sector_count (system_partition h) (driver_state dk) in if c > 0 then of_int c else 0)"

section \<open>Device names\<close>

definition part_suffix :: string where "part_suffix = ''part''"
definition syspart_suffix :: string where "syspart_suffix = ''sys''"

text \<open>The last position at which a pattern occurs.\<close>

fun rfind :: "string \<Rightarrow> string \<Rightarrow> nat option" where
  "rfind pat [] = (if pat = [] then Some 0 else None)"
| "rfind pat (c # s) =
     (case rfind pat s of Some i \<Rightarrow> Some (Suc i) | None \<Rightarrow> if take (length pat) (c # s) = pat then Some 0 else None)"

text \<open>
  \<^verbatim>\<open>std::from_chars\<close> for a 16-bit signed integer: an optional minus sign and the longest run of digits; there
  has to be a digit, and the value has to fit.
\<close>

definition is_digit :: "char \<Rightarrow> bool" where
  "is_digit c \<longleftrightarrow> 48 \<le> (of_char c :: nat) \<and> (of_char c :: nat) \<le> 57"

definition digits_to_nat :: "string \<Rightarrow> nat" where
  "digits_to_nat s = foldl (\<lambda>a c. 10 * a + (of_char c - 48)) 0 s"

definition from_chars :: "string \<Rightarrow> int option" where
  "from_chars s =
     (let neg = (s \<noteq> [] \<and> hd s = CHR ''-''); ds = takeWhile is_digit (if neg then tl s else s);
          v = (if neg then - int (digits_to_nat ds) else int (digits_to_nat ds))
      in if ds = [] \<or> v < - (2 ^ 15) \<or> v \<ge> 2 ^ 15 then None else Some v)"

definition parse_device_name :: "string \<Rightarrow> string \<times> int" where
  "parse_device_name device =
     (case (rfind part_suffix device, rfind syspart_suffix device) of
        (Some i, None) \<Rightarrow>
          (let part_num = drop (i + length part_suffix) device
           in if part_num \<noteq> []
              then (case from_chars part_num of Some n \<Rightarrow> (take i device, n) | None \<Rightarrow> ([], -1))
              else (take i device, -1))
      | (None, Some i) \<Rightarrow>
          (let part_num = drop (i + length syspart_suffix) device
           in if part_num \<noteq> []
              then (case from_chars part_num of Some n \<Rightarrow> (take i device, to_syspart_num n) | None \<Rightarrow> ([], -1))
              else (take i device, -1))
      | _ \<Rightarrow> (device, -1))"

text \<open>\<^verbatim>\<open>std::to_string\<close> for the numbers of partitions.\<close>

fun to_string :: "nat \<Rightarrow> string" where
  "to_string n = (if n < 10 then [char_of (48 + n)] else to_string (n div 10) @ [char_of (48 + n mod 10)])"

declare to_string.simps [simp del]

section \<open>Operations on handles\<close>

text \<open>A missing handle is \<open>None\<close>, as is a handle whose disk is gone.\<close>

definition handle_disk :: "'d disk_manager \<Rightarrow> disk_handle \<Rightarrow> 'd disk_object option" where
  "handle_disk m h = disks m (h_disk h)"

definition set_state :: "'d disk_manager \<Rightarrow> disk_handle \<Rightarrow> 'd disk_object \<Rightarrow> 'd \<Rightarrow> 'd disk_manager" where
  "set_state m h dk s = m\<lparr>disks := (disks m)(h_disk h \<mapsto> dk\<lparr>driver_state := s\<rparr>)\<rparr>"

text \<open>A request that is out of range gives the negative error code; the sum is converted to a signed number.\<close>

definition part_lba_to_disk_lba :: "'d disk_manager \<Rightarrow> disk_handle \<Rightarrow> u64 \<Rightarrow> u32 \<Rightarrow> int outcome" where
  "part_lba_to_disk_lba m h part_lba count =
     (if is_user_partition (h_partition h)
      then (case handle_disk m h of
              None \<Rightarrow> Inr (- EIO)
            | Some dk \<Rightarrow>
                if nat (h_partition h) < length (m_partitions dk)
                then (let part = m_partitions dk ! nat (h_partition h)
                      in if part_lba + ucast count > ucast (num_sectors part) then Inr (- ERANGE)
                         else Inr (sint (part_lba + start_sector part)))
                else Inl OutOfBounds)
      else (case handle_disk m h of
              None \<Rightarrow> if part_lba + ucast count > 0 then Inr (- ERANGE) else Inr (sint part_lba)
            | Some dk \<Rightarrow> if part_lba + ucast count > handle_sectors dk h then Inr (- ERANGE) else Inr (sint part_lba)))"

text \<open>The signed 64-bit sector number that is returned as an error is cut to an \<^verbatim>\<open>int\<close>.\<close>

definition scount_to_int :: "int \<Rightarrow> int" where
  "scount_to_int i = sint (word_of_int i :: 32 word)"

definition disk_write ::
    "'d disk_manager \<Rightarrow> disk_handle option \<Rightarrow> u8 list \<Rightarrow> u64 \<Rightarrow> u32 \<Rightarrow> (int \<times> 'd disk_manager) outcome" where
  "disk_write m dfd buf lba count =
     (case dfd of None \<Rightarrow> Inr (- EINVAL, m)
      | Some h \<Rightarrow> (case handle_disk m h of None \<Rightarrow> Inr (- ENOENT, m)
          | Some dk \<Rightarrow> bind_outcome (part_lba_to_disk_lba m h lba count) (\<lambda>calc.
              if calc < 0 then Inr (scount_to_int calc, m)
              else let (r, s) = op_write (driver dk) buf (of_int calc) count (system_partition h) (driver_state dk)
                   in Inr (r, set_state m h dk s))))"

definition disk_read :: "'d disk_manager \<Rightarrow> disk_handle option \<Rightarrow> u64 \<Rightarrow> u32 \<Rightarrow> (int \<times> u8 list) outcome" where
  "disk_read m dfd lba count =
     (case dfd of None \<Rightarrow> Inr (- EINVAL, [])
      | Some h \<Rightarrow> (case handle_disk m h of None \<Rightarrow> Inr (- ENOENT, [])
          | Some dk \<Rightarrow> bind_outcome (part_lba_to_disk_lba m h lba count) (\<lambda>calc.
              if calc < 0 then Inr (scount_to_int calc, [])
              else Inr (op_read (driver dk) (of_int calc) count (system_partition h) (driver_state dk)))))"

definition disk_erase :: "'d disk_manager \<Rightarrow> disk_handle option \<Rightarrow> u64 \<Rightarrow> u32 \<Rightarrow> (int \<times> 'd disk_manager) outcome" where
  "disk_erase m dfd lba count =
     (case dfd of None \<Rightarrow> Inr (- EINVAL, m)
      | Some h \<Rightarrow> (case handle_disk m h of None \<Rightarrow> Inr (- ENOENT, m)
          | Some dk \<Rightarrow> bind_outcome (part_lba_to_disk_lba m h lba count) (\<lambda>calc.
              if calc < 0 then Inr (scount_to_int calc, m)
              else let (r, s) = op_erase (driver dk) (of_int calc) count (system_partition h) (driver_state dk)
                   in Inr (r, set_state m h dk s))))"

definition disk_sync :: "'d disk_manager \<Rightarrow> disk_handle option \<Rightarrow> int \<times> 'd disk_manager" where
  "disk_sync m dfd =
     (case dfd of None \<Rightarrow> (- EINVAL, m)
      | Some h \<Rightarrow> (case handle_disk m h of None \<Rightarrow> (- ENOENT, m)
          | Some dk \<Rightarrow> let (r, s) = op_sync (driver dk) (driver_state dk) in (r, set_state m h dk s)))"

definition disk_pm_control :: "'d disk_manager \<Rightarrow> disk_handle option \<Rightarrow> pm_state \<Rightarrow> int \<times> 'd disk_manager" where
  "disk_pm_control m dfd target =
     (case dfd of None \<Rightarrow> (- EINVAL, m)
      | Some h \<Rightarrow> (case handle_disk m h of None \<Rightarrow> (- ENOENT, m)
          | Some dk \<Rightarrow> let (r, s) = op_pm_control (driver dk) target (driver_state dk) in (r, set_state m h dk s)))"

text \<open>All registered devices, in the order of the map; the last error is returned.\<close>

fun pm_control_devices :: "pm_state \<Rightarrow> (string \<times> nat) list \<Rightarrow> int \<Rightarrow> 'd disk_manager \<Rightarrow> int \<times> 'd disk_manager" where
  "pm_control_devices target [] err m = (err, m)"
| "pm_control_devices target ((n, i) # ds) err m =
     (case disks m i of
        None \<Rightarrow> pm_control_devices target ds err m
      | Some dk \<Rightarrow> let (r, s) = op_pm_control (driver dk) target (driver_state dk)
                 in pm_control_devices target ds (if r \<noteq> 0 then r else err)
                      (m\<lparr>disks := (disks m)(i \<mapsto> dk\<lparr>driver_state := s\<rparr>)\<rparr>))"

definition pm_control_all :: "pm_state \<Rightarrow> 'd disk_manager \<Rightarrow> int \<times> 'd disk_manager" where
  "pm_control_all target m = pm_control_devices target (m_dev_map m) 0 m"

definition disk_pm_read :: "'d disk_manager \<Rightarrow> disk_handle option \<Rightarrow> int \<times> pm_state option" where
  "disk_pm_read m dfd =
     (case dfd of None \<Rightarrow> (- EINVAL, None)
      | Some h \<Rightarrow> (case handle_disk m h of None \<Rightarrow> (- ENOENT, None)
          | Some dk \<Rightarrow> let (r, s) = op_pm_read (driver dk) (driver_state dk) in (r, Some s)))"

definition disk_status :: "'d disk_manager \<Rightarrow> disk_handle option \<Rightarrow> media_status" where
  "disk_status m dfd =
     (case dfd of None \<Rightarrow> media_error
      | Some h \<Rightarrow> (case handle_disk m h of None \<Rightarrow> media_error | Some dk \<Rightarrow> op_status (driver dk) (driver_state dk)))"

definition disk_partitions :: "'d disk_manager \<Rightarrow> disk_handle option \<Rightarrow> disk_partition list" where
  "disk_partitions m dfd =
     (case dfd of None \<Rightarrow> [] | Some h \<Rightarrow> (case handle_disk m h of None \<Rightarrow> [] | Some dk \<Rightarrow> m_partitions dk))"

definition partition_info :: "'d disk_manager \<Rightarrow> disk_handle option \<Rightarrow> disk_partition option" where
  "partition_info m dfd =
     (case dfd of None \<Rightarrow> None
      | Some h \<Rightarrow> (case handle_disk m h of None \<Rightarrow> None
          | Some dk \<Rightarrow>
              if is_user_partition (h_partition h)
              then if nat (h_partition h) \<ge> length (m_partitions dk) then None
                   else Some (m_partitions dk ! nat (h_partition h))
              else None))"

definition disk_get_info :: "'d disk_manager \<Rightarrow> disk_handle option \<Rightarrow> info_type \<Rightarrow> int" where
  "disk_get_info m dfd what =
     (case dfd of None \<Rightarrow> 0
      | Some h \<Rightarrow> (case handle_disk m h of None \<Rightarrow> 0
          | Some dk \<Rightarrow>
              if (what = sector_count \<or> what = start_sector_info) \<and> is_user_partition (h_partition h)
              then if nat (h_partition h) \<ge> length (m_partitions dk) then - ERANGE
                   else let part = m_partitions dk ! nat (h_partition h)
                        in if what = sector_count then uint (num_sectors part) else sint (start_sector part)
              else op_get_info (driver dk) what (system_partition h) (driver_state dk)))"

section \<open>Registration and partition tables\<close>

definition reader_of :: "'d disk_object \<Rightarrow> block_reader" where
  "reader_of dk = \<lparr>rd_info = (\<lambda>i. op_get_info (driver dk) i 0 (driver_state dk)),
     rd_sector = (\<lambda>lba. op_read (driver dk) lba 1 0 (driver_state dk))\<rparr>"

definition name_partitions :: "string \<Rightarrow> disk_partition list \<Rightarrow> disk_partition list" where
  "name_partitions n ps = map (\<lambda>(i, p). p\<lparr>part_name := n @ part_suffix @ to_string i\<rparr>) (enumerate 0 ps)"

definition reread_partitions :: "'d disk_manager \<Rightarrow> disk_handle option \<Rightarrow> (int \<times> 'd disk_manager) outcome" where
  "reread_partitions m dfd =
     (case dfd of None \<Rightarrow> Inr (- EINVAL, m)
      | Some h \<Rightarrow> (case handle_disk m h of None \<Rightarrow> Inr (0, m)
          | Some dk \<Rightarrow> bind_outcome (partition_search (reader_of dk)) (\<lambda>(ret, ps).
              Inr (ret, m\<lparr>disks := (disks m)(h_disk h \<mapsto>
                     dk\<lparr>m_partitions := (if ret = 0 then name_partitions (h_name h) ps else ps)\<rparr>)\<rparr>))))"

definition no_parts_scan :: u32 where "no_parts_scan = 0x1"

definition register_device ::
    "'d disk_manager \<Rightarrow> nat option \<Rightarrow> string \<Rightarrow> u32 \<Rightarrow> (int \<times> 'd disk_manager) outcome" where
  "register_device m d name fl =
     (case d of None \<Rightarrow> Inr (- EINVAL, m)
      | Some i \<Rightarrow> (case disks m i of None \<Rightarrow> Inr (- EINVAL, m)
          | Some dk \<Rightarrow>
              if map_of (m_dev_map m) name \<noteq> None then Inr (- EEXIST, m)
              else let (ret, s) = op_probe (driver dk) fl (driver_state dk); o1 = dk\<lparr>driver_state := s\<rparr>;
                       m1 = m\<lparr>disks := (disks m)(i \<mapsto> o1)\<rparr>
                   in if ret < 0 then Inr (ret, m1)
                      else let m2 = m1\<lparr>m_dev_map := (name, i) # m_dev_map m1\<rparr>
                           in if fl AND no_parts_scan \<noteq> 0
                              then Inr (0, m2\<lparr>disks := (disks m2)(i \<mapsto> o1\<lparr>m_partitions := []\<rparr>)\<rparr>)
                              else reread_partitions m2 (Some \<lparr>h_disk = i, h_partition = -1, h_name = name\<rparr>)))"

definition unregister_device :: "'d disk_manager \<Rightarrow> string \<Rightarrow> int \<times> 'd disk_manager" where
  "unregister_device m name =
     (case map_of (m_dev_map m) name of None \<Rightarrow> (- ENOENT, m)
      | Some i \<Rightarrow>
          (let m1 = m\<lparr>m_dev_map := filter (\<lambda>e. fst e \<noteq> name) (m_dev_map m)\<rparr>
           in case disks m i of None \<Rightarrow> (0, m1)
              | Some dk \<Rightarrow> let (r, s) = op_cleanup (driver dk) (driver_state dk)
                         in (r, m1\<lparr>disks := (disks m)(i \<mapsto> dk\<lparr>driver_state := s\<rparr>)\<rparr>)))"

definition device_handle :: "'d disk_manager \<Rightarrow> string \<Rightarrow> disk_handle option" where
  "device_handle m device_name =
     (let (dev, part) = parse_device_name device_name
      in if dev = [] then None
         else (case map_of (m_dev_map m) dev of None \<Rightarrow> None
               | Some i \<Rightarrow>
                   let h = \<lparr>h_disk = i, h_partition = part, h_name = device_name\<rparr>
                   in if is_user_partition part \<and> part \<ge> int (length (disk_partitions m (Some h))) then None else Some h))"

definition disk_handle_from_partition_handle :: "disk_handle \<Rightarrow> disk_handle" where
  "disk_handle_from_partition_handle h =
     \<lparr>h_disk = h_disk h, h_partition = -1, h_name = fst (parse_device_name (h_name h))\<rparr>"

section \<open>Operations by name\<close>

definition write_by_name :: "'d disk_manager \<Rightarrow> string \<Rightarrow> u8 list \<Rightarrow> u64 \<Rightarrow> u32 \<Rightarrow> (int \<times> 'd disk_manager) outcome" where
  "write_by_name m n buf lba count =
     (case device_handle m n of None \<Rightarrow> Inr (- ENOENT, m) | Some h \<Rightarrow> disk_write m (Some h) buf lba count)"

definition read_by_name :: "'d disk_manager \<Rightarrow> string \<Rightarrow> u64 \<Rightarrow> u32 \<Rightarrow> (int \<times> u8 list) outcome" where
  "read_by_name m n lba count =
     (case device_handle m n of None \<Rightarrow> Inr (- ENOENT, []) | Some h \<Rightarrow> disk_read m (Some h) lba count)"

definition erase_by_name :: "'d disk_manager \<Rightarrow> string \<Rightarrow> u64 \<Rightarrow> u32 \<Rightarrow> (int \<times> 'd disk_manager) outcome" where
  "erase_by_name m n lba count =
     (case device_handle m n of None \<Rightarrow> Inr (- ENOENT, m) | Some h \<Rightarrow> disk_erase m (Some h) lba count)"

definition sync_by_name :: "'d disk_manager \<Rightarrow> string \<Rightarrow> int \<times> 'd disk_manager" where
  "sync_by_name m n = (case device_handle m n of None \<Rightarrow> (- ENOENT, m) | Some h \<Rightarrow> disk_sync m (Some h))"

definition partition_info_by_name :: "'d disk_manager \<Rightarrow> string \<Rightarrow> disk_partition option" where
  "partition_info_by_name m n = (case device_handle m n of None \<Rightarrow> None | Some h \<Rightarrow> partition_info m (Some h))"

definition get_info_by_name :: "'d disk_manager \<Rightarrow> string \<Rightarrow> info_type \<Rightarrow> int" where
  "get_info_by_name m n what = (case device_handle m n of None \<Rightarrow> - ENOENT | Some h \<Rightarrow> disk_get_info m (Some h) what)"

definition reread_by_name :: "'d disk_manager \<Rightarrow> string \<Rightarrow> (int \<times> 'd disk_manager) outcome" where
  "reread_by_name m n = (case device_handle m n of None \<Rightarrow> Inr (- ENOENT, m) | Some h \<Rightarrow> reread_partitions m (Some h))"

definition pm_control_by_name :: "'d disk_manager \<Rightarrow> string \<Rightarrow> pm_state \<Rightarrow> int \<times> 'd disk_manager" where
  "pm_control_by_name m n target =
     (case device_handle m n of None \<Rightarrow> (- ENOENT, m) | Some h \<Rightarrow> disk_pm_control m (Some h) target)"

definition pm_read_by_name :: "'d disk_manager \<Rightarrow> string \<Rightarrow> int \<times> pm_state option" where
  "pm_read_by_name m n = (case device_handle m n of None \<Rightarrow> (- ENOENT, None) | Some h \<Rightarrow> disk_pm_read m (Some h))"

definition status_by_name :: "'d disk_manager \<Rightarrow> string \<Rightarrow> media_status" where
  "status_by_name m n = (case device_handle m n of None \<Rightarrow> media_error | Some h \<Rightarrow> disk_status m (Some h))"

definition partitions_by_name :: "'d disk_manager \<Rightarrow> string \<Rightarrow> disk_partition list" where
  "partitions_by_name m n = (case device_handle m n of None \<Rightarrow> [] | Some h \<Rightarrow> disk_partitions m (Some h))"

section \<open>Names of partitions\<close>

lemma rfind_some: "rfind pat s = Some i \<Longrightarrow> take (length pat) (drop i s) = pat"
  by (induction s arbitrary: i) (auto split: option.splits if_splits)

lemma rfind_none: "rfind pat s = None \<longleftrightarrow> (\<forall>i. pat \<noteq> [] \<and> take (length pat) (drop i s) \<noteq> pat)"
proof (induction s)
  case (Cons c s)
  show ?case
  proof
    assume "rfind pat (c # s) = None"
    with Cons have "\<forall>i. pat \<noteq> [] \<and> take (length pat) (drop i s) \<noteq> pat" "take (length pat) (c # s) \<noteq> pat"
      by (auto split: option.splits if_splits)
    then show "\<forall>i. pat \<noteq> [] \<and> take (length pat) (drop i (c # s)) \<noteq> pat" by (auto simp: drop_Cons split: nat.split)
  next
    assume a: "\<forall>i. pat \<noteq> [] \<and> take (length pat) (drop i (c # s)) \<noteq> pat"
    then have "\<forall>i. pat \<noteq> [] \<and> take (length pat) (drop i s) \<noteq> pat" by (metis drop_Suc_Cons)
    moreover have "take (length pat) (c # s) \<noteq> pat" using a by (metis drop0)
    ultimately show "rfind pat (c # s) = None" using Cons by auto
  qed
qed auto

lemma rfind_here:
  assumes "take (length pat) (drop i s) = pat" "pat \<noteq> []" "\<And>j. i < j \<Longrightarrow> take (length pat) (drop j s) \<noteq> pat"
  shows "rfind pat s = Some i"
  using assms
proof (induction s arbitrary: i)
  case (Cons c s)
  show ?case
  proof (cases i)
    case 0
    have "rfind pat s = None" unfolding rfind_none
    proof (intro allI conjI)
      fix j show "take (length pat) (drop j s) \<noteq> pat" using Cons.prems(3) [of "Suc j"] 0 by simp
    qed (rule Cons.prems(2))
    with Cons.prems(1) 0 show ?thesis by simp
  next
    case (Suc k)
    have "rfind pat s = Some k"
      using Cons.prems Suc by (intro Cons.IH) (auto, metis Suc_less_eq drop_Suc_Cons)
    with Suc show ?thesis by simp
  qed
qed auto

lemma occurrence_nth:
  assumes "take (length pat) (drop i s) = pat" "k < length pat"
  shows "i + k < length s \<and> s ! (i + k) = pat ! k"
proof -
  from assms(1) have "length (take (length pat) (drop i s)) = length pat" by simp
  then have "length pat \<le> length s - i" by simp
  with assms(2) have "i + k < length s" by simp
  moreover have "s ! (i + k) = take (length pat) (drop i s) ! k" using assms(2) calculation by simp
  ultimately show ?thesis using assms(1) by simp
qed

lemma to_string_digits: "c \<in> set (to_string n) \<Longrightarrow> is_digit c"
proof (induction n rule: to_string.induct)
  case (1 n)
  have d: "is_digit (char_of (48 + k :: nat))" if "k < 10" for k :: nat using that by (simp add: is_digit_def)
  show ?case
  proof (cases "n < 10")
    case True
    with 1(2) d [of n] show ?thesis by (simp add: to_string.simps)
  next
    case False
    have "n mod 10 < 10" by simp
    with 1 False d [of "n mod 10"] show ?thesis by (subst (asm) (2) to_string.simps) auto
  qed
qed

lemma to_string_value: "digits_to_nat (to_string n) = n"
proof (induction n rule: to_string.induct)
  case (1 n)
  show ?case
  proof (cases "n < 10")
    case True
    then show ?thesis by (simp add: to_string.simps digits_to_nat_def)
  next
    case False
    have "n mod 10 < 10" by simp
    then have "(of_char (char_of (48 + n mod 10 :: nat) :: char) :: nat) = 48 + n mod 10" by simp
    with 1 False show ?thesis by (subst to_string.simps) (simp add: digits_to_nat_def)
  qed
qed

lemma to_string_nonempty: "to_string n \<noteq> []"
  by (subst to_string.simps) simp

lemma from_chars_to_string: "n < 2 ^ 15 \<Longrightarrow> from_chars (to_string n) = Some (int n)"
proof -
  assume n: "n < 2 ^ 15"
  have "takeWhile is_digit (to_string n) = to_string n" using to_string_digits by (intro takeWhile_eq_all_conv [THEN iffD2]) blast
  moreover have "hd (to_string n) \<noteq> CHR ''-''"
    using to_string_digits [of "hd (to_string n)" n] to_string_nonempty [of n] by (auto simp: is_digit_def)
  moreover have "int n < 2 ^ 15" using n by (metis of_nat_less_iff of_nat_numeral of_nat_power)
  ultimately show ?thesis
    by (simp add: from_chars_def Let_def to_string_value to_string_nonempty del: takeWhile_eq_all_conv)
qed

lemma parse_partition_name:
  assumes "rfind syspart_suffix dev = None" "k < 2 ^ 15"
  shows "parse_device_name (dev @ part_suffix @ to_string k) = (dev, int k)"
proof -
  let ?s = "dev @ part_suffix @ to_string k"
  have tail: "?s ! j \<in> {CHR ''a'', CHR ''r'', CHR ''t''} \<union> {c. is_digit c}" if "length dev < j" "j < length ?s" for j
  proof -
    have "?s ! j = (part_suffix @ to_string k) ! (j - length dev)" using that by (simp add: nth_append)
    also have "\<dots> = tl (part_suffix @ to_string k) ! (j - length dev - 1)"
      using that by (cases "j - length dev") (simp_all add: part_suffix_def)
    also have "\<dots> \<in> set (tl (part_suffix @ to_string k))" using that by (intro nth_mem) (auto simp: part_suffix_def)
    finally show ?thesis using to_string_digits by (auto simp: part_suffix_def)
  qed
  have p: "rfind part_suffix ?s = Some (length dev)"
  proof (rule rfind_here)
    fix j assume j: "length dev < j"
    show "take (length part_suffix) (drop j ?s) \<noteq> part_suffix"
    proof
      assume "take (length part_suffix) (drop j ?s) = part_suffix"
      from occurrence_nth [OF this, of 0] have "j < length ?s" "?s ! j = CHR ''p''" by (simp_all add: part_suffix_def)
      with tail [OF j] show False by (auto simp: is_digit_def)
    qed
  qed (simp_all add: part_suffix_def)
  have "rfind syspart_suffix ?s = None" unfolding rfind_none
  proof (intro allI conjI notI)
    fix i assume occ: "take (length syspart_suffix) (drop i ?s) = syspart_suffix"
    have nodev: "j < length dev" if "?s ! j \<in> {CHR ''s'', CHR ''y''}" "j < length ?s" for j
    proof (rule ccontr)
      assume "\<not> j < length dev"
      moreover have "?s ! length dev = CHR ''p''" by (simp add: part_suffix_def)
      ultimately show False using that tail [of j] by (cases "j = length dev") (auto simp: is_digit_def)
    qed
    from occurrence_nth [OF occ, of 2] have "i + 2 < length ?s" "?s ! (i + 2) = CHR ''s''" by (simp_all add: syspart_suffix_def)
    with nodev [of "i + 2"] have "i + 2 < length dev" by simp
    then have "take (length syspart_suffix) (drop i dev) = syspart_suffix" using occ by (simp add: syspart_suffix_def)
    with assms(1) show False unfolding rfind_none by blast
  qed (simp add: syspart_suffix_def)
  with p from_chars_to_string [OF assms(2)] show ?thesis
    by (simp add: parse_device_name_def to_string_nonempty)
qed

section \<open>Properties\<close>

text \<open>
  C13. The name that the manager gives to a partition opens it: the device's name, the suffix and the decimal
  number of a partition that exists is parsed back to the device and that number. The device's own name must
  not contain the suffix of the hardware partitions.
\<close>

theorem partition_name_opens:
  assumes "map_of (m_dev_map m) dev = Some i" "disks m i = Some dk" "k < length (m_partitions dk)" "int k < hw_partition_first"
    "dev \<noteq> []" "rfind syspart_suffix dev = None"
  shows "device_handle m (part_name (name_partitions dev (m_partitions dk) ! k)) =
    Some \<lparr>h_disk = i, h_partition = int k, h_name = dev @ part_suffix @ to_string k\<rparr>"
proof -
  have k: "k < 2 ^ 15" using assms(4) by (simp add: hw_partition_first_def)
  have "part_name (name_partitions dev (m_partitions dk) ! k) = dev @ part_suffix @ to_string k"
    using assms(3) by (simp add: name_partitions_def nth_enumerate_eq)
  with parse_partition_name [OF assms(6) k] assms show ?thesis
    by (simp add: device_handle_def disk_partitions_def handle_disk_def Let_def)
qed

definition idle_ops :: "unit disk_ops" where
  "idle_ops = \<lparr>op_probe = (\<lambda>_ s. (0, s)), op_cleanup = (\<lambda>s. (0, s)), op_write = (\<lambda>_ _ _ _ s. (0, s)), op_read = (\<lambda>_ _ _ _. (0, [])),
     op_erase = (\<lambda>_ _ _ s. (0, s)), op_sync = (\<lambda>s. (0, s)), op_pm_control = (\<lambda>_ s. (0, s)), op_pm_read = (\<lambda>_. (0, pm_active)),
     op_status = (\<lambda>_. healthly), op_get_info = (\<lambda>_ _ _. 1000)\<rparr>"

definition example_object :: "unit disk_object" where
  "example_object = \<lparr>driver = idle_ops, driver_state = (), m_partitions = [entry 0x83 64 100, entry 0x83 200 50]\<rparr>"

definition example_disks :: "unit disk_manager" where
  "example_disks = \<lparr>m_dev_map = [(''emmc0'', 3)], disks = Map.empty(3 \<mapsto> example_object)\<rparr>"

lemma partition_name_opens_witness:
  "device_handle example_disks ''emmc0part1'' = Some \<lparr>h_disk = 3, h_partition = 1, h_name = ''emmc0part1''\<rparr>"
proof -
  have t: "to_string (Suc 0) = ''1''" by code_simp
  have "device_handle example_disks (part_name (name_partitions ''emmc0'' (m_partitions example_object) ! 1)) =
      Some \<lparr>h_disk = 3, h_partition = int 1, h_name = ''emmc0'' @ part_suffix @ to_string 1\<rparr>"
    by (rule partition_name_opens)
      (simp_all add: example_disks_def example_object_def hw_partition_first_def syspart_suffix_def)
  moreover have "part_name (name_partitions ''emmc0'' (m_partitions example_object) ! 1) = ''emmc0part1''"
    by (simp add: name_partitions_def example_object_def part_suffix_def t)
  ultimately show ?thesis by (simp add: part_suffix_def t)
qed

lemma sint_small:
  assumes "unat (x :: u64) < 2 ^ 63"
  shows "sint x = int (unat x)"
proof -
  have "int (unat x) < 2 ^ 63" using assms by (metis of_nat_less_iff of_nat_numeral of_nat_power)
  then have "uint x < 2 ^ 63" by simp
  moreover have "0 \<le> uint x" by simp
  ultimately have "signed_take_bit 63 (uint x) = uint x" by (intro signed_take_bit_int_eq_self) linarith+
  then show ?thesis by (simp add: sint_uint)
qed

lemma sint_large:
  assumes "2 ^ 63 \<le> unat (x :: u64)"
  shows "sint x = int (unat x) - 2 ^ 64"
proof -
  have "int (2 ^ 63) \<le> int (unat x)" using assms by (simp only: of_nat_le_iff)
  then have u: "2 ^ 63 \<le> uint x" by simp
  have "uint x < 2 ^ 64" using uint_lt2p [of x] by simp
  then have "signed_take_bit 63 (uint x - 2 ^ 64) = uint x - 2 ^ 64" using u
    by (intro signed_take_bit_int_eq_self) simp_all
  moreover have "signed_take_bit 63 (uint x) = signed_take_bit 63 (uint x - 2 ^ 64)"
    by (simp add: signed_take_bit_eq_iff_take_bit_eq take_bit_eq_mod mod_eq_dvd_iff)
  ultimately show ?thesis by (simp add: sint_uint)
qed

lemma int_sum_below: "int a + int b - 2 ^ 64 < 0 \<longleftrightarrow> a + b < 2 ^ 64"
proof -
  have "int a + int b - 2 ^ 64 < 0 \<longleftrightarrow> int (a + b) < int (2 ^ 64)" by simp
  then show ?thesis by (simp only: of_nat_less_iff)
qed

lemma scount_to_int_error [simp]: "scount_to_int (- ERANGE) = - ERANGE"
  by (simp add: scount_to_int_def ERANGE_def)

lemma unat_count: "unat (ucast (x :: u32) :: u64) = unat x"
  by (simp add: unsigned_ucast_eq) (rule take_bit_nat_eq_self, use u32_bound [of x] in simp)

text \<open>
  The sector that a request is translated to. With \<open>wraps\<close>, the end of the request carries out of 64 bits and
  the request begins less than \<open>2 ^ 32\<close> sectors in front of sector 0 of the partition.
\<close>

definition partition_handle :: "'d disk_manager \<Rightarrow> disk_handle \<Rightarrow> 'd disk_object \<Rightarrow> disk_partition \<Rightarrow> bool" where
  "partition_handle m h dk part \<longleftrightarrow>
     is_user_partition (h_partition h) \<and> disks m (h_disk h) = Some dk \<and> nat (h_partition h) < length (m_partitions dk) \<and>
     part = m_partitions dk ! nat (h_partition h) \<and> unat (start_sector part) + unat (num_sectors part) < 2 ^ 63"

lemma partition_handleD:
  assumes "partition_handle m h dk part"
  shows "is_user_partition (h_partition h)" "disks m (h_disk h) = Some dk" "nat (h_partition h) < length (m_partitions dk)"
    "m_partitions dk ! nat (h_partition h) = part" "unat (start_sector part) + unat (num_sectors part) < 2 ^ 63"
    "system_partition h = 0"
  using assms by (auto simp: partition_handle_def system_partition_def is_user_partition_def is_system_partition_def)

lemma lba_plain:
  assumes h: "partition_handle m h dk part" and fits: "unat lba + unat count < 2 ^ 64"
  shows "part_lba_to_disk_lba m h lba count =
    Inr (if unat lba + unat count \<le> unat (num_sectors part) then int (unat (start_sector part) + unat lba) else - ERANGE)"
proof -
  note H = partition_handleD [OF h]
  have sum: "unat (lba + ucast count) = unat lba + unat count"
    using unat_add_no_wrap [of lba "ucast count"] fits by (simp add: unat_count)
  show ?thesis
  proof (cases "unat lba + unat count \<le> unat (num_sectors part)")
    case False
    then have "lba + ucast count > ucast (num_sectors part)" by (simp add: word_less_nat_alt sum unat_count)
    with False H show ?thesis by (simp add: part_lba_to_disk_lba_def handle_disk_def)
  next
    case True
    then have le: "\<not> lba + ucast count > ucast (num_sectors part)" by (simp add: word_less_nat_alt not_less sum unat_count)
    have ul: "unat (lba + start_sector part) = unat lba + unat (start_sector part)"
      using True H(5) by (intro unat_add_no_wrap) simp
    have "sint (lba + start_sector part) = int (unat (lba + start_sector part))"
      using True H(5) ul by (intro sint_small) simp
    with True le H ul show ?thesis by (simp add: part_lba_to_disk_lba_def handle_disk_def add.commute)
  qed
qed

lemma lba_wraps:
  assumes h: "partition_handle m h dk part" and wraps: "2 ^ 64 \<le> unat lba + unat count"
  shows "part_lba_to_disk_lba m h lba count =
    Inr (if unat lba + unat count - 2 ^ 64 \<le> unat (num_sectors part)
         then int (unat (start_sector part)) + int (unat lba) - 2 ^ 64 else - ERANGE)"
proof -
  note H = partition_handleD [OF h]
  have l: "unat lba < 2 ^ 64" "unat count < 2 ^ 32" using unsigned_less [of lba] unsigned_less [of count] by simp_all
  have "unat (lba + ucast count) = (unat lba + unat count) mod 2 ^ 64" by (simp add: unat_word_ariths unat_count)
  also have "\<dots> = unat lba + unat count - 2 ^ 64" using wraps l by (subst mod_if) simp
  finally have sum: "unat (lba + ucast count) = unat lba + unat count - 2 ^ 64" .
  have ul: "unat (lba + start_sector part) = (unat lba + unat (start_sector part)) mod 2 ^ 64" by (simp add: unat_word_ariths)
  have val: "sint (lba + start_sector part) = int (unat (start_sector part)) + int (unat lba) - 2 ^ 64"
  proof (cases "unat lba + unat (start_sector part) < 2 ^ 64")
    case True
    then have "unat (lba + start_sector part) = unat lba + unat (start_sector part)" using ul by simp
    moreover from this have "2 ^ 63 \<le> unat (lba + start_sector part)" using wraps l by simp
    ultimately show ?thesis using sint_large [of "lba + start_sector part"] by simp
  next
    case False
    then have "unat (lba + start_sector part) = unat lba + unat (start_sector part) - 2 ^ 64"
      unfolding ul using H(5) l by (subst mod_if) simp
    moreover from this have "sint (lba + start_sector part) = int (unat (lba + start_sector part))"
      using H(5) l by (intro sint_small) simp
    ultimately show ?thesis using False by simp
  qed
  have "(lba + ucast count > ucast (num_sectors part)) = (\<not> unat lba + unat count - 2 ^ 64 \<le> unat (num_sectors part))"
    by (simp add: word_less_nat_alt sum unat_count not_le)
  with val H show ?thesis by (simp add: part_lba_to_disk_lba_def handle_disk_def)
qed

lemma write_plain:
  assumes h: "partition_handle m h dk part" and fits: "unat lba + unat count < 2 ^ 64"
  shows "disk_write m (Some h) buf lba count =
    (if unat lba + unat count \<le> unat (num_sectors part)
     then case op_write (driver dk) buf (start_sector part + lba) count 0 (driver_state dk) of
            (r, s) \<Rightarrow> Inr (r, set_state m h dk s)
     else Inr (- ERANGE, m))"
proof -
  note H = partition_handleD [OF h]
  have "(of_int (int (unat (start_sector part) + unat lba)) :: u64) = start_sector part + lba" by simp
  then show ?thesis using H lba_plain [OF assms]
    by (simp add: disk_write_def handle_disk_def ERANGE_def scount_to_int_error [unfolded ERANGE_def] del: of_nat_add)
qed

lemma write_wraps:
  assumes h: "partition_handle m h dk part" and wraps: "2 ^ 64 \<le> unat lba + unat count"
  shows "disk_write m (Some h) buf lba count =
    (if unat lba + unat count - 2 ^ 64 \<le> unat (num_sectors part)
     then if unat (start_sector part) + unat lba < 2 ^ 64
          then Inr (scount_to_int (int (unat (start_sector part)) + int (unat lba) - 2 ^ 64), m)
          else case op_write (driver dk) buf (start_sector part + lba) count 0 (driver_state dk) of
                 (r, s) \<Rightarrow> Inr (r, set_state m h dk s)
     else Inr (- ERANGE, m))"
proof -
  note H = partition_handleD [OF h]
  define z where "z = int (unat (start_sector part)) + int (unat lba) - 2 ^ 64"
  have "(of_int z :: u64) = start_sector part + lba" by (simp add: z_def)
  moreover have "z < 0 \<longleftrightarrow> unat (start_sector part) + unat lba < 2 ^ 64" unfolding z_def by (rule int_sum_below)
  moreover note lba_wraps [OF h wraps, folded z_def]
  ultimately show ?thesis unfolding z_def [symmetric] using H
    by (simp add: disk_write_def handle_disk_def ERANGE_def scount_to_int_error [unfolded ERANGE_def])
qed

text \<open>Whatever the request is, the driver is not called with a sector behind the end of the partition.\<close>

lemma write_below_end:
  assumes h: "partition_handle m h dk part" and w: "disk_write m (Some h) buf lba count = Inr (r, m')"
  shows "(m' = m \<and> (unat lba + unat count < 2 ^ 64 \<longrightarrow> r = - ERANGE)) \<or>
    (\<exists>lba' s. unat lba' + unat count \<le> unat (start_sector part) + unat (num_sectors part) \<and>
       op_write (driver dk) buf lba' count 0 (driver_state dk) = (r, s) \<and> m' = set_state m h dk s)"
proof -
  note bound = partition_handleD(5) [OF h]
  let ?call = "case op_write (driver dk) buf (start_sector part + lba) count 0 (driver_state dk) of
      (r, s) \<Rightarrow> Inr (r, set_state m h dk s)"
  have call: ?thesis if "?call = Inr (r, m')"
    "unat (start_sector part + lba) + unat count \<le> unat (start_sector part) + unat (num_sectors part)"
    using that by (intro disjI2 exI [of _ "start_sector part + lba"]) (auto split: prod.splits)
  consider (fits) "unat lba + unat count < 2 ^ 64" | (wraps) "2 ^ 64 \<le> unat lba + unat count" by linarith
  then show ?thesis
  proof cases
    case fits
    show ?thesis
    proof (cases "unat lba + unat count \<le> unat (num_sectors part)")
      case True
      have "unat (start_sector part + lba) = unat (start_sector part) + unat lba"
        using True bound by (intro unat_add_no_wrap) simp
      then show ?thesis using True w write_plain [OF h fits, of buf] by (intro call) simp_all
    next
      case False
      then show ?thesis using w write_plain [OF h fits, of buf] by simp
    qed
  next
    case wraps
    have l: "unat lba < 2 ^ 64" using unsigned_less [of lba] by simp
    show ?thesis
    proof (cases "unat lba + unat count - 2 ^ 64 \<le> unat (num_sectors part) \<and> \<not> unat (start_sector part) + unat lba < 2 ^ 64")
      case True
      have "unat (start_sector part + lba) = (unat (start_sector part) + unat lba) mod 2 ^ 64" by (simp add: unat_word_ariths)
      also have "\<dots> = unat (start_sector part) + unat lba - 2 ^ 64" using True bound l by (subst mod_if) simp
      finally have "unat (start_sector part + lba) = unat (start_sector part) + unat lba - 2 ^ 64" .
      then have "unat (start_sector part + lba) + unat count \<le> unat (start_sector part) + unat (num_sectors part)"
        using True wraps by linarith
      then show ?thesis using True wraps w write_wraps [OF h wraps, of buf] by (intro call) simp_all
    next
      case False
      then show ?thesis using wraps w write_wraps [OF h wraps, of buf] by (auto split: if_splits)
    qed
  qed
qed

text \<open>
  C12. Access through a partition, exactly. For a request whose end does not exceed 64 bits, a write through the
  handle of a partition reaches the driver if and only if it ends within the partition, then with the
  requested number of sectors from the start of the partition plus the requested sector on and with the
  driver's result; otherwise it answers \<open>-ERANGE\<close> and changes nothing. A request whose end carries out of 64
  bits is compared by the part that is left: if that lies within the partition, the request reaches the
  driver with sectors in front of the start of the partition (where the device has that many).
\<close>

theorem write_stays_in_partition:
  assumes "is_user_partition (h_partition h)" "disks m (h_disk h) = Some dk" "nat (h_partition h) < length (m_partitions dk)"
    "part = m_partitions dk ! nat (h_partition h)" "unat (start_sector part) + unat (num_sectors part) < 2 ^ 63"
  shows "disk_write m (Some h) buf lba count =
    (let driver_write = (case op_write (driver dk) buf (start_sector part + lba) count 0 (driver_state dk) of
           (r, s) \<Rightarrow> Inr (r, set_state m h dk s))
     in if unat lba + unat count < 2 ^ 64
        then if unat lba + unat count \<le> unat (num_sectors part) then driver_write else Inr (- ERANGE, m)
        else if unat lba + unat count - 2 ^ 64 \<le> unat (num_sectors part)
             then if unat (start_sector part) + unat lba < 2 ^ 64
                  then Inr (scount_to_int (int (unat (start_sector part)) + int (unat lba) - 2 ^ 64), m)
                  else driver_write
             else Inr (- ERANGE, m))"
proof -
  have h: "partition_handle m h dk part" using assms by (simp add: partition_handle_def)
  show ?thesis
  proof (cases "unat lba + unat count < 2 ^ 64")
    case True
    then show ?thesis using write_plain [OF h True, of buf] by (simp add: Let_def)
  next
    case False
    then show ?thesis using write_wraps [OF h, of lba count buf] by (simp add: Let_def not_less)
  qed
qed

text \<open>A driver that counts the sectors written.\<close>

definition counting_ops :: "nat disk_ops" where
  "counting_ops = \<lparr>op_probe = (\<lambda>_ s. (0, s)), op_cleanup = (\<lambda>s. (0, s)), op_write = (\<lambda>_ lba n _ s. (0, s + unat n)),
     op_read = (\<lambda>_ _ _ _. (0, [])), op_erase = (\<lambda>_ _ _ s. (0, s)), op_sync = (\<lambda>s. (0, s)), op_pm_control = (\<lambda>_ s. (0, s)),
     op_pm_read = (\<lambda>_. (0, pm_active)), op_status = (\<lambda>_. healthly), op_get_info = (\<lambda>_ _ _. 1000)\<rparr>"

definition counting_disks :: "nat disk_manager" where
  "counting_disks = \<lparr>m_dev_map = [(''emmc0'', 3)],
     disks = Map.empty(3 \<mapsto> \<lparr>driver = counting_ops, driver_state = 0, m_partitions = [entry 0x83 64 100]\<rparr>)\<rparr>"

definition first_part :: disk_handle where
  "first_part = \<lparr>h_disk = 3, h_partition = 0, h_name = ''emmc0part0''\<rparr>"

text \<open>The last four sectors are written; one sector more is refused.\<close>

lemma write_stays_in_partition_witness:
  "(\<exists>m'. disk_write counting_disks (Some first_part) [] 96 4 = Inr (0, m') \<and> map_option driver_state (disks m' 3) = Some 4) \<and>
   disk_write counting_disks (Some first_part) [] 97 4 = Inr (- ERANGE, counting_disks)"
proof -
  let ?dk = "\<lparr>driver = counting_ops, driver_state = 0, m_partitions = [entry 0x83 64 100]\<rparr>"
  have h: "is_user_partition (h_partition first_part)" "disks counting_disks (h_disk first_part) = Some ?dk"
    "nat (h_partition first_part) < length (m_partitions ?dk)"
    "entry 0x83 64 100 = m_partitions ?dk ! nat (h_partition first_part)"
    "unat (start_sector (entry 0x83 64 100)) + unat (num_sectors (entry 0x83 64 100)) < 2 ^ 63"
    by (simp_all add: first_part_def is_user_partition_def is_any_partition_def is_system_partition_def hw_partition_first_def
        counting_disks_def entry_def)
  note exact = write_stays_in_partition [OF h, of "[]"]
  show ?thesis unfolding exact
    by (simp add: entry_def counting_ops_def set_state_def first_part_def)
qed

text \<open>
  The range check adds without looking for a carry: a request at the last 64-bit sector number passes it and
  ends up on the sector before the partition.
\<close>

lemma wrapped_request_escapes:
  "part_lba_to_disk_lba example_disks \<lparr>h_disk = 3, h_partition = 0, h_name = ''emmc0part0''\<rparr> 0xFFFFFFFFFFFFFFFF 1 = Inr 63"
  by (simp add: part_lba_to_disk_lba_def handle_disk_def example_disks_def example_object_def is_user_partition_def
      is_any_partition_def is_system_partition_def hw_partition_first_def entry_def)

text \<open>A negative partition number is taken for the whole device.\<close>

lemma negative_partition_is_disk:
  "device_handle example_disks ''emmc0part-1'' = Some \<lparr>h_disk = 3, h_partition = -1, h_name = ''emmc0part-1''\<rparr>"
  by code_simp

end
