(* ===== verification/DiskUse.thy ===== *)
theory DiskUse
  imports DiskMgr
begin

text \<open>
  The partition parser and the block device manager together: what registering a device finds on it bounds
  what reaches its driver later.
\<close>

section \<open>From the partition table to the driver\<close>

lemma named_partition:
  assumes "k < length (name_partitions n ps)"
  shows "k < length ps \<and> start_sector (name_partitions n ps ! k) = start_sector (ps ! k) \<and>
    num_sectors (name_partitions n ps ! k) = num_sectors (ps ! k) \<and> mbr_number (name_partitions n ps ! k) = mbr_number (ps ! k)"
  using assms by (simp add: name_partitions_def nth_enumerate_eq)

lemma register_searches:
  assumes "register_device m (Some i) name fl = Inr (0, m')" "fl AND no_parts_scan = 0"
  shows "\<exists>dk ps. disks m' i = Some dk \<and> partition_search (reader_of dk) = Inr (0, ps) \<and> m_partitions dk = name_partitions name ps"
proof -
  from assms obtain dk0 s where o: "disks m i = Some dk0" "map_of (m_dev_map m) name = None"
    "snd (op_probe (driver dk0) fl (driver_state dk0)) = s"
    and r: "reread_partitions (m\<lparr>disks := (disks m)(i \<mapsto> dk0\<lparr>driver_state := s\<rparr>), m_dev_map := (name, i) # m_dev_map m\<rparr>)
      (Some \<lparr>h_disk = i, h_partition = -1, h_name = name\<rparr>) = Inr (0, m')"
    by (auto simp: register_device_def EINVAL_def EEXIST_def Let_def split: option.splits if_splits prod.splits)
  have reader: "reader_of (dk\<lparr>m_partitions := ps\<rparr>) = reader_of dk" for dk ps by (simp add: reader_of_def)
  from r show ?thesis
    by (auto simp: reread_partitions_def handle_disk_def bind_outcome_Inr_iff reader split: if_splits)
qed

text \<open>
  C11. After a device has been registered with its partitions scanned, no write through the handle of a
  primary partition, whatever sector and count it asks for, reaches the driver with a sector at or behind the
  end of the device: either nothing changes (and the answer is \<open>-ERANGE\<close>, unless the end of the request
  carries out of 64 bits), or the driver is called with a range that ends within the device. The device has
  to report a positive sector size below \<open>2 ^ 31\<close>, and a size in bytes below \<open>2 ^ 64\<close>.
\<close>

theorem registered_partition_confined:
  assumes "register_device m (Some i) name fl = Inr (0, m')" "fl AND no_parts_scan = 0" "disks m' i = Some dk"
    "0 < rd_info (reader_of dk) sector_size" "rd_info (reader_of dk) sector_size < 2 ^ 31"
    "0 \<le> rd_info (reader_of dk) sector_count"
    "rd_info (reader_of dk) sector_count * rd_info (reader_of dk) sector_size < 2 ^ 64"
    "h_disk h = i" "is_user_partition (h_partition h)" "nat (h_partition h) < length (m_partitions dk)"
    "mbr_number (m_partitions dk ! nat (h_partition h)) \<noteq> -1"
    "disk_write m' (Some h) buf lba n = Inr (r, m'')"
  shows "(m'' = m' \<and> (unat lba + unat n < 2 ^ 64 \<longrightarrow> r = - ERANGE)) \<or>
    (\<exists>lba' s. int (unat lba' + unat n) \<le> rd_info (reader_of dk) sector_count \<and>
       op_write (driver dk) buf lba' n 0 (driver_state dk) = (r, s) \<and> m'' = set_state m' h dk s)"
proof -
  define part where "part = m_partitions dk ! nat (h_partition h)"
  from register_searches [OF assms(1,2)] assms(3) obtain ps where
    ps: "partition_search (reader_of dk) = Inr (0, ps)" "m_partitions dk = name_partitions name ps" by auto
  let ?p = "ps ! nat (h_partition h)"
  have p: "?p \<in> set ps" "mbr_number ?p \<noteq> -1" "start_sector part = start_sector ?p" "num_sectors part = num_sectors ?p"
    using named_partition [of "nat (h_partition h)" name ps] assms(10,11) by (auto simp: ps(2) part_def)
  from search_primary [OF ps(1) p(1,2)] obtain q no x where q: "check_partition (reader_of dk) q"
    "start_sector q = ucast (x :: u32)" "?p = q\<lparr>physical_number := no, mbr_number := no\<rparr>" by blast
  from check_partition_bound [OF q(1,2) assms(4-7)] p(3,4) q(3)
  have b: "int (unat (start_sector part) + unat (num_sectors part)) \<le> rd_info (reader_of dk) sector_count" by simp
  have "unat (start_sector part) = unat x" using p(3) q(2,3) by (simp add: unat_count)
  then have "unat (start_sector part) + unat (num_sectors part) < 2 ^ 63"
    using u32_bound [of x] u32_bound [of "num_sectors part"] by simp
  then have "partition_handle m' h dk part" using assms(3,8-10) by (simp add: partition_handle_def part_def)
  note below = write_below_end [OF this assms(12)]
  have "int k \<le> rd_info (reader_of dk) sector_count" if "k \<le> unat (start_sector part) + unat (num_sectors part)" for k
    using b that by linarith
  with below show ?thesis by blast
qed

text \<open>A driver with the example partition table, and a manager that has just registered it.\<close>

definition mbr_object :: "unit disk_object" where
  "mbr_object = \<lparr>driver = idle_ops\<lparr>op_get_info := (\<lambda>what _ _. rd_info (example_disk example_mbr (\<lambda>_. 0)) what),
       op_read := (\<lambda>lba _ _ _. rd_sector (example_disk example_mbr (\<lambda>_. 0)) lba)\<rparr>,
     driver_state = (), m_partitions = []\<rparr>"

definition mbr_manager :: "unit disk_manager" where
  "mbr_manager = \<lparr>m_dev_map = [], disks = Map.empty(3 \<mapsto> mbr_object)\<rparr>"

definition found_partitions :: "disk_partition list" where
  "found_partitions = name_partitions ''emmc0'' [(entry 0x83 64 100)\<lparr>physical_number := 1, mbr_number := 1\<rparr>]"

definition mbr_registered :: "unit disk_manager" where
  "mbr_registered = \<lparr>m_dev_map = [(''emmc0'', 3)], disks = Map.empty(3 \<mapsto> mbr_object\<lparr>m_partitions := found_partitions\<rparr>)\<rparr>"

lemma mbr_reader: "reader_of (mbr_object\<lparr>m_partitions := ps\<rparr>) = example_disk example_mbr (\<lambda>_. 0)"
  by (simp add: reader_of_def mbr_object_def)

lemma mbr_state: "mbr_object\<lparr>driver_state := u\<rparr> = mbr_object"
  by (simp add: mbr_object_def)

lemma mbr_register: "register_device mbr_manager (Some 3) ''emmc0'' 0 = Inr (0, mbr_registered)"
proof -
  have "op_probe (driver mbr_object) 0 (driver_state mbr_object) = (0, ())"
    by (simp add: mbr_object_def idle_ops_def)
  moreover have "reader_of mbr_object = example_disk example_mbr (\<lambda>_. 0)" using mbr_reader [of "[]"] by (simp add: mbr_object_def)
  ultimately show ?thesis
    by (simp add: register_device_def mbr_manager_def mbr_registered_def found_partitions_def reread_partitions_def
        handle_disk_def example_search mbr_state Let_def)
qed

lemma registered_partition_confined_witness:
  "\<exists>lba' s. int (unat lba' + 4) \<le> 1000 \<and>
     op_write (driver mbr_object) [] lba' 4 0 (driver_state mbr_object) = (0, s)"
proof -
  let ?h = "\<lparr>h_disk = 3, h_partition = 0, h_name = ''emmc0part0''\<rparr>" and ?dk = "mbr_object\<lparr>m_partitions := found_partitions\<rparr>"
  have np: "found_partitions = [(entry 0x83 64 100)\<lparr>physical_number := 1, mbr_number := 1, part_name := ''emmc0'' @ part_suffix @ to_string 0\<rparr>]"
    by (simp add: found_partitions_def name_partitions_def)
  have user: "is_user_partition (h_partition ?h)"
    by (simp add: is_user_partition_def is_any_partition_def is_system_partition_def hw_partition_first_def)
  have d: "disks mbr_registered 3 = Some ?dk" by (simp add: mbr_registered_def)
  have "\<exists>m'. disk_write mbr_registered (Some ?h) [] 10 4 = Inr (0, m')"
    using user by (simp add: disk_write_def handle_disk_def d part_lba_to_disk_lba_def np entry_def mbr_object_def idle_ops_def Let_def)
  then obtain m' where m': "disk_write mbr_registered (Some ?h) [] 10 4 = Inr (0, m')" by blast
  have "(m' = mbr_registered \<and> (unat (10 :: u64) + unat (4 :: u32) < 2 ^ 64 \<longrightarrow> 0 = - ERANGE)) \<or>
    (\<exists>lba' s. int (unat lba' + unat (4 :: u32)) \<le> rd_info (reader_of ?dk) sector_count \<and>
       op_write (driver ?dk) [] lba' 4 0 (driver_state ?dk) = (0, s) \<and> m' = set_state mbr_registered ?h ?dk s)"
    by (rule registered_partition_confined [OF mbr_register _ d _ _ _ _ _ user _ _ m'])
      (simp_all add: mbr_reader example_disk_def np entry_def)
  then show ?thesis by (auto simp: ERANGE_def mbr_reader example_disk_def)
qed

end
