(* ===== verification/Spec2Isabelle.thy ===== *)
theory Spec2Isabelle
  imports MemWrap GenericList MkLfs PureFlash ProfPool MmcProps AudioStream ServiceOrder PowerMgr DiskUse HeapRun
begin

text \<open>
  A verification of the core of MuditaOS, the operating system of a phone (PurePhone) and an alarm clock
  (BellHybrid) on an i.MX RT1051. The theories model the code below \<^verbatim>\<open>src/\<close> that manages memory, block
  storage, the audio buffers, the start order of services and the CPU clock, and the host tools that build and
  write the system image.

  \<^bold>\<open>The parts and how they interact.\<close>

  \<^item> \<^emph>\<open>User memory.\<close> Applications allocate through the C library; the link-time wrappers of
    \<^verbatim>\<open>board/rt1051/memwrap.c\<close> send every call to the first-fit allocator \<^verbatim>\<open>module-os/memory/usermem.c\<close>, which
    stops the FreeRTOS scheduler around its list operations. FreeRTOS calls the hooks of
    \<^verbatim>\<open>module-os/application.c\<close> for the memory of its static tasks and on fatal errors. At each task switch the
    profiler \<^verbatim>\<open>module-os/prof/prof.c\<close> adds the time of the task that ran to a pool.
  \<^item> \<^emph>\<open>Block storage.\<close> The eMMC card driver \<^verbatim>\<open>module-bsp/board/rt1051/bsp/eMMC\<close> sends commands to a card through a
    host controller and queues work on an intrusive list. The block device manager
    \<^verbatim>\<open>module-vfs/src/purefs/blkdev\<close> gives devices names, searches them for partitions when they are registered,
    and forwards requests on a partition to the driver of its device.
  \<^item> \<^emph>\<open>Audio.\<close> A source and a sink exchange blocks through the circular buffer
    \<^verbatim>\<open>module-audio/Audio/Stream.cpp\<close>.
  \<^item> \<^emph>\<open>System manager.\<close> It starts the services in the order of \<^verbatim>\<open>graph/TopologicalSort.cpp\<close>. Services ask for a
    minimum CPU frequency through sentinels registered with \<^verbatim>\<open>CpuGovernor.cpp\<close>; \<^verbatim>\<open>PowerManager.cpp\<close> measures
    the load, chooses a level by a list of algorithms and sets it through the low-power controller of
    \<^verbatim>\<open>module-bsp/board/rt1051/bsp/lpm\<close>, which changes voltage, oscillator, PLL and dividers in an order that must
    be safe at every step.
  \<^item> \<^emph>\<open>Host tools.\<close> \<^verbatim>\<open>host-tools/genlittlefs\<close> parses its command line, reads the partition table of an image,
    formats a partition with littlefs and copies a directory into it; \<^verbatim>\<open>host-tools/pure-flash\<close> writes the sparse
    image to the device and verifies it.

  \<^bold>\<open>Theories, by part.\<close> Names of definitions are those of the source where possible.

  \<^item> \<open>Prelude\<close>: machine integers of the target (\<open>u8\<close>, \<open>u16\<close>, \<open>u32\<close>, \<open>u64\<close> as words), the type \<open>outcome\<close> of
    functions that may stop with a \<open>fault\<close> (assertion, abort, access outside an object, or a loop that does not end),
    its bind, linked chains and list lemmas.
  \<^item> \<open>UserMem\<close> models every function of \<^verbatim>\<open>usermem.c\<close> over a record of the static variables and a map from
    addresses to block headers. \<open>FreeList\<close> reads the free list off that map; \<open>HeapSpec\<close> is the specification, a tiling
    of the array by free and taken blocks; \<open>HeapRefine\<close> proves that the pointer code implements it.
    \<open>Allocator\<close> states the contract of a heap as the locale \<open>heap_service\<close> with the lemmas that its clients need;
    \<open>UserHeap\<close> interprets it on \<open>usermalloc\<close> and \<open>userfree\<close> and proves first fit, release with merging, that the
    blocks of an application stay disjoint and can be released in every reachable state, and what \<open>userrealloc\<close> does.
    \<open>HeapRun\<close> follows the statistics over runs of allocations, stores and releases.
    \<open>MemWrap\<close> holds the C library functions and the FreeRTOS hooks. \<open>ProfPool\<close> is the profiler: the flushed pool
    is the sum of the slices of each task.
  \<^item> \<open>Fifo\<close> is the contract of a first-in first-out buffer, the locale \<open>fifo\<close>: its theorem says that every
    interleaving of additions and removals, refusals of a full and of an empty buffer included, answers as the abstract
    queue does. It is interpreted on the intrusive list in \<open>GenericList\<close>
    (\<^verbatim>\<open>fsl_component_generic_list.c\<close>, on an explicit store of next pointers) and on the stream in \<open>AudioStream\<close>,
    which also proves which calls keep the bookkeeping of a stream consistent, and that peek and consume agree with pop.
  \<^item> \<open>MmcTypes\<close>, \<open>MmcCmd\<close>, \<open>MmcRegs\<close>, \<open>MmcIo\<close>: data, command layer, register decoding and block access of
    \<^verbatim>\<open>fsl_mmc.c\<close> and \<^verbatim>\<open>fsl_sdmmc_common.c\<close>; the host controller is a record of functions over a state of any type.
    \<open>MmcProps\<close> proves that polling ends, that the identification register is decoded to what the card encoded,
    and that written blocks are read back from a card that is busy programming after a write and needs its block count
    announced or its transfer stopped.
  \<^item> \<open>Partitions\<close> models \<^verbatim>\<open>partition_parser.cpp\<close>, \<open>DiskMgr\<close> models \<^verbatim>\<open>disk_manager.cpp\<close> and the handles; the disk
    driver is a record of functions. Primary partitions found lie on the device, names round-trip, and what a write
    through a partition does is stated for every request, those that wrap around included; chains of extended boot
    records end when they go forward and need not end otherwise. \<open>DiskUse\<close> puts both together: after registration no
    write through a primary partition reaches the driver with a sector behind the end of the device.
  \<^item> \<open>ServiceOrder\<close> models the topological sort: with acyclic, declared dependencies the result holds every service
    after all services it depends on.
  \<^item> \<open>LowPower\<close> models the low-power controller as register writes, with the trace of all intermediate states;
    \<open>Governor\<close> the registry of sentinels; \<open>PowerMgr\<close> the algorithms, load measurement, the power manager and the
    permission to sleep. They show that the clocks are safe in every intermediate state, that the core is never clocked
    above both ends of a transition, that requests and permanent frequencies are honoured after an update, and which
    ticks the frequency monitors count.
  \<^item> \<open>HostFile\<close> is the file interface of the host tools; \<open>GenArgs\<close>, \<open>GenPart\<close>, \<open>GenIo\<close>, \<open>MkLfs\<close> are
    \<^verbatim>\<open>parse_args.c\<close>, \<^verbatim>\<open>parse_partitions.c\<close>, \<^verbatim>\<open>lfs_ioaccess.c\<close> and \<^verbatim>\<open>mklfs.c\<close>; \<open>PureFlash\<close> is \<^verbatim>\<open>pure-flash.c\<close>.
    Transfers may be short or fail as a schedule says; the theorems say which schedules they hold for. The image
    builder is proved to copy a directory, or to report a failure, on a littlefs any of whose calls may fail.

  \<^bold>\<open>Integers, loops and bounds.\<close> Integers that can overflow keep their width (32-bit \<open>size_t\<close> on the target) and
  theorems about them state the range they need; where code wraps around, a lemma shows the effect. Loops whose end
  depends on data in memory or on a device (free-list search, list walks, extended boot records, frequency setting,
  status polling, block transfers) are partial functions into \<open>option\<close>, and the theorems about them prove that they
  return, except \<open>cyclic_chain_never_ends\<close>, which proves that one does not. All other loops are total functions
  with a termination measure. The model has no fuel and no artificial bounds.

  \<^bold>\<open>Parameters.\<close> Code outside the sources is an argument: the scheduler state, the card and its host controller,
  the disk drivers, \<^verbatim>\<open>getopt_long\<close>, libblkid, FIEMAP, the host file system and littlefs. What a theorem relies on is
  a named hypothesis (for instance that a card stores what it is sent), and its witness instantiates the parameter.

  \<^bold>\<open>Not modelled.\<close> Texts printed for users, logging and statistics output; register-level drivers and generated pin
  tables; the third-party SQLite and Bluetooth code; the user interface, the applications and the remaining services,
  which are glue over libraries. Of the modelled parts: negotiation of bus width, timing and power class and the boot
  mode of the card, restart, power off and the sleep instruction itself. Interrupts and
  concurrent callers appear only as steps between whole operations, since the code brackets its operations with locks
  or critical sections.
  Planned next are the message handlers of the system manager, the timers and the bus of the services, the descriptor
  table of the file system layer, the rest of the card driver, and the battery state machine.
\<close>

end
